(* ===== verification/FrickTime.thy ===== *)
theory FrickTime
  imports FrickPrelude
begin

text \<open>
  Timestamps.  Every store of Frick keeps instants as the text of JavaScript's
  \<open>Date.toISOString()\<close> and compares them as text.  The crates carry five printers and four
  parsers of that format, each written out in its own module; this theory models them one by
  one, shows that the printers are the same function and the parsers its inverse, and that the
  byte order of the text is the order of time, which the \<open>available_at <= ?\<close> and \<open>expires_at\<close>
  comparisons of the stores rely on.

  \<open>i64\<close> values are \<open>int\<close>: the intermediate values of the date algorithm stay below \<open>2 ^ 63\<close>
  for every input that is itself an \<open>i64\<close> number of milliseconds.  Rust's \<open>/\<close> and \<open>%\<close> truncate
  towards zero and are \<open>i64_div\<close> and \<open>i64_rem\<close>; \<open>div_euclid\<close> and \<open>rem_euclid\<close> with a positive
  divisor are \<open>div\<close> and \<open>mod\<close>.
\<close>

section \<open>Integer division as the source writes it\<close>

definition i64_div :: "int \<Rightarrow> int \<Rightarrow> int" where
  "i64_div a b = sgn a * sgn b * (\<bar>a\<bar> div \<bar>b\<bar>)"

definition i64_rem :: "int \<Rightarrow> int \<Rightarrow> int" where
  "i64_rem a b = a - b * i64_div a b"

lemma i64_div_nonneg [simp]: "0 \<le> a \<Longrightarrow> 0 < b \<Longrightarrow> i64_div a b = a div b"
  by (cases "a = 0") (simp_all add: i64_div_def)

lemma i64_rem_nonneg [simp]: "0 \<le> a \<Longrightarrow> 0 < b \<Longrightarrow> i64_rem a b = a mod b"
  by (simp add: i64_rem_def minus_mult_div_eq_mod)

section \<open>Days to civil dates\<close>

text \<open>The five copies of Hinnant's \<open>civil_from_days\<close>.  \<open>u32::try_from(x).unwrap_or(1)\<close> of the
  server and account copies is \<open>to_u32_or_1\<close>.\<close>

definition to_u32_or_1 :: "int \<Rightarrow> int" where
  "to_u32_or_1 x = (if 0 \<le> x \<and> x < 2 ^ 32 then x else 1)"

definition civil_from_days :: "int \<Rightarrow> int \<times> int \<times> int" where
  "civil_from_days days =
    (let z = days + 719468;
         era = z div 146097;
         doe = z mod 146097;
         yoe = i64_div (doe - i64_div doe 1460 + i64_div doe 36524 - i64_div doe 146096) 365;
         doy = doe - (365 * yoe + i64_div yoe 4 - i64_div yoe 100);
         mp = i64_div (5 * doy + 2) 153;
         day = doy - i64_div (153 * mp + 2) 5 + 1;
         month = (if mp < 10 then mp + 3 else mp - 9);
         year = yoe + era * 400 + (if month \<le> 2 then 1 else 0)
     in (year, month, day))"

definition civil_from_days_boot :: "int \<Rightarrow> int \<times> int \<times> int" where
  "civil_from_days_boot days =
    (let z = days + 719468;
         era = z div 146097;
         doe = z mod 146097;
         yoe = i64_div (doe - i64_div doe 1460 + i64_div doe 36524 - i64_div doe 146096) 365;
         year = yoe + era * 400;
         doy = doe - (365 * yoe + i64_div yoe 4 - i64_div yoe 100);
         mp = i64_div (5 * doy + 2) 153;
         day = to_u32_or_1 (doy - i64_div (153 * mp + 2) 5 + 1);
         month = to_u32_or_1 (if mp < 10 then mp + 3 else mp - 9)
     in (if month \<le> 2 then year + 1 else year, month, day))"

definition civil_from_days_account :: "int \<Rightarrow> int \<times> int \<times> int" where
  "civil_from_days_account days =
    (let z = days + 719468;
         era = z div 146097;
         doe = z mod 146097;
         yoe = i64_div (doe - i64_div doe 1460 + i64_div doe 36524 - i64_div doe 146096) 365;
         year = yoe + era * 400;
         doy = doe - (365 * yoe + i64_div yoe 4 - i64_div yoe 100);
         mp = i64_div (5 * doy + 2) 153;
         day_i64 = doy - i64_div (153 * mp + 2) 5 + 1;
         month_i64 = (if mp < 10 then mp + 3 else mp - 9);
         day = to_u32_or_1 day_i64;
         month = to_u32_or_1 month_i64;
         year' = (if month \<le> 2 then year + 1 else year)
     in (year', month, day))"

definition civil_from_days_migrations :: "int \<Rightarrow> int \<times> int \<times> int" where
  "civil_from_days_migrations days =
    (let z = days + 719468;
         era = z div 146097;
         doe = z mod 146097;
         yoe = i64_div (doe - i64_div doe 1460 + i64_div doe 36524 - i64_div doe 146096) 365;
         year_of_era = yoe + era * 400;
         doy = doe - (365 * yoe + i64_div yoe 4 - i64_div yoe 100);
         mp = i64_div (5 * doy + 2) 153;
         day = doy - i64_div (153 * mp + 2) 5 + 1;
         month = (if mp < 10 then mp + 3 else mp - 9)
     in (if month \<le> 2 then year_of_era + 1 else year_of_era, month, day))"

definition civil_from_days_blob :: "int \<Rightarrow> int \<times> int \<times> int" where
  "civil_from_days_blob days =
    (let z = days + 719468;
         era = z div 146097;
         doe = z mod 146097;
         yoe = i64_div (doe - i64_div doe 1460 + i64_div doe 36524 - i64_div doe 146096) 365;
         doy = doe - (365 * yoe + i64_div yoe 4 - i64_div yoe 100);
         mp = i64_div (5 * doy + 2) 153;
         day = doy - i64_div (153 * mp + 2) 5 + 1;
         month = (if mp < 10 then mp + 3 else mp - 9);
         year = yoe + era * 400 + of_bool (month \<le> 2)
     in (year, month, day))"

section \<open>Printers\<close>

text \<open>The \<open>format!\<close> call all printers end with.\<close>

definition iso_text :: "int \<Rightarrow> int \<Rightarrow> int \<Rightarrow> int \<Rightarrow> int \<Rightarrow> int \<Rightarrow> int \<Rightarrow> string" where
  "iso_text year month day hour minute second milli =
     pad_int 4 year @ ''-'' @ pad_int 2 month @ ''-'' @ pad_int 2 day @ ''T'' @
     pad_int 2 hour @ '':'' @ pad_int 2 minute @ '':'' @ pad_int 2 second @ ''.'' @
     pad_int 3 milli @ ''Z''"

definition epoch_ms_to_iso :: "int \<Rightarrow> string" where
  "epoch_ms_to_iso epoch_ms =
    (let days = epoch_ms div 86400000;
         ms_of_day = epoch_ms mod 86400000;
         (year, month, day) = civil_from_days days;
         hour = i64_div ms_of_day 3600000;
         minute = i64_div (i64_rem ms_of_day 3600000) 60000;
         second = i64_div (i64_rem ms_of_day 60000) 1000;
         milli = i64_rem ms_of_day 1000
     in iso_text year month day hour minute second milli)"

definition iso_from_epoch_ms_blob :: "int \<Rightarrow> string" where
  "iso_from_epoch_ms_blob epoch_ms =
    (let days = epoch_ms div 86400000;
         ms_of_day = epoch_ms mod 86400000;
         (year, month, day) = civil_from_days_blob days;
         hour = i64_div ms_of_day 3600000;
         minute = i64_div (i64_rem ms_of_day 3600000) 60000;
         second = i64_div (i64_rem ms_of_day 60000) 1000;
         millis = i64_rem ms_of_day 1000
     in iso_text year month day hour minute second millis)"

definition iso_from_epoch_ms_boot :: "int \<Rightarrow> string" where
  "iso_from_epoch_ms_boot total_ms =
    (let days = total_ms div 86400000;
         ms_of_day = total_ms mod 86400000;
         (year, month, day) = civil_from_days_boot days;
         hour = i64_div ms_of_day 3600000;
         minute = i64_rem (i64_div ms_of_day 60000) 60;
         second = i64_rem (i64_div ms_of_day 1000) 60;
         milli = i64_rem ms_of_day 1000
     in iso_text year month day hour minute second milli)"

definition iso_from_epoch_ms_account :: "int \<Rightarrow> string" where
  "iso_from_epoch_ms_account now_ms =
    (let total_ms = now_ms;
         ms = total_ms mod 1000;
         total_secs = total_ms div 1000;
         secs_of_day = total_secs mod 86400;
         days = total_secs div 86400;
         (year, month, day) = civil_from_days_account days;
         hour = i64_div secs_of_day 3600;
         minute = i64_div (i64_rem secs_of_day 3600) 60;
         second = i64_rem secs_of_day 60
     in iso_text year month day hour minute second ms)"

definition epoch_ms_to_iso8601 :: "int \<Rightarrow> string" where
  "epoch_ms_to_iso8601 epoch_ms =
    (let millis = epoch_ms mod 1000;
         total_seconds = epoch_ms div 1000;
         days = total_seconds div 86400;
         seconds_of_day = total_seconds mod 86400;
         (year, month, day) = civil_from_days_migrations days;
         hours = i64_div seconds_of_day 3600;
         minutes = i64_rem (i64_div seconds_of_day 60) 60;
         seconds = i64_rem seconds_of_day 60
     in iso_text year month day hours minutes seconds millis)"

section \<open>Parsers\<close>

definition days_from_civil :: "int \<Rightarrow> int \<Rightarrow> int \<Rightarrow> int" where
  "days_from_civil year month day =
    (let y = (if month \<le> 2 then year - 1 else year);
         era = y div 400;
         yoe = y - era * 400;
         doy = i64_div (153 * (if month > 2 then month - 3 else month + 9) + 2) 5 + day - 1;
         doe = yoe * 365 + i64_div yoe 4 - i64_div yoe 100 + doy
     in era * 146097 + doe - 719468)"

text \<open>\<open>parse_digits\<close> is the accumulating loop over the bytes.\<close>

fun parse_digits_loop :: "int \<Rightarrow> string \<Rightarrow> int option" where
  "parse_digits_loop value [] = Some value"
| "parse_digits_loop value (b # bs) =
     (if \<not> is_digit b then None
      else parse_digits_loop (value * 10 + (of_char b - 48)) bs)"

definition parse_digits :: "string \<Rightarrow> int option" where
  "parse_digits bytes = parse_digits_loop 0 bytes"

text \<open>\<open>&bytes[i..j]\<close>, used below the length only.\<close>

definition slice :: "nat \<Rightarrow> nat \<Rightarrow> 'a list \<Rightarrow> 'a list" where
  "slice i j xs = take (j - i) (drop i xs)"

definition parse_iso_ms_opt :: "string \<Rightarrow> int option" where
  "parse_iso_ms_opt bytes =
    (if length bytes \<noteq> 24 then None
     else if bytes ! 4 \<noteq> CHR ''-'' \<or> bytes ! 7 \<noteq> CHR ''-'' \<or> bytes ! 10 \<noteq> CHR ''T''
        \<or> bytes ! 13 \<noteq> CHR '':'' \<or> bytes ! 16 \<noteq> CHR '':'' \<or> bytes ! 19 \<noteq> CHR ''.''
        \<or> bytes ! 23 \<noteq> CHR ''Z'' then None
     else Option.bind (parse_digits (slice 0 4 bytes)) (\<lambda>year.
          Option.bind (parse_digits (slice 5 7 bytes)) (\<lambda>month.
          Option.bind (parse_digits (slice 8 10 bytes)) (\<lambda>day.
          Option.bind (parse_digits (slice 11 13 bytes)) (\<lambda>hour.
          Option.bind (parse_digits (slice 14 16 bytes)) (\<lambda>minute.
          Option.bind (parse_digits (slice 17 19 bytes)) (\<lambda>second.
          Option.bind (parse_digits (slice 20 23 bytes)) (\<lambda>millis.
            if \<not> (1 \<le> month \<and> month \<le> 12) \<or> \<not> (1 \<le> day \<and> day \<le> 31) then None
            else Some (days_from_civil year month day * 86400000 + hour * 3600000
                       + minute * 60000 + second * 1000 + millis)))))))))"

text \<open>The lenient parser of the inspection routes: \<open>str::get\<close> with byte ranges (which misses
  off a character boundary) and \<open>i64::from_str\<close> (which accepts one leading sign).\<close>

definition is_char_boundary :: "string \<Rightarrow> nat \<Rightarrow> bool" where
  "is_char_boundary s i \<longleftrightarrow> i = 0 \<or> i = length s \<or>
     (i < length s \<and> ((of_char (s ! i) :: nat) < 128 \<or> 192 \<le> (of_char (s ! i) :: nat)))"

definition str_get :: "string \<Rightarrow> nat \<Rightarrow> nat \<Rightarrow> string option" where
  "str_get s i j =
     (if i \<le> j \<and> is_char_boundary s i \<and> is_char_boundary s j then Some (slice i j s) else None)"

definition parse_i64 :: "string \<Rightarrow> int option" where
  "parse_i64 s =
    (let (neg, ds) = (case s of [] \<Rightarrow> (False, [])
                      | c # cs \<Rightarrow> if c = CHR ''-'' then (True, cs)
                                  else if c = CHR ''+'' then (False, cs) else (False, s))
     in if ds = [] then None
        else Option.bind (parse_digits ds) (\<lambda>n.
          let i = (if neg then - n else n)
          in if - (2 ^ 63) \<le> i \<and> i < 2 ^ 63 then Some i else None))"

definition days_from_civil_inspect :: "int \<Rightarrow> int \<Rightarrow> int \<Rightarrow> int" where
  "days_from_civil_inspect year month day =
    (let y = (if month \<le> 2 then year - 1 else year);
         era = i64_div (if y \<ge> 0 then y else y - 399) 400;
         yoe = y - era * 400;
         doy = i64_div (153 * (if month > 2 then month - 3 else month + 9) + 2) 5 + day - 1;
         doe = yoe * 365 + i64_div yoe 4 - i64_div yoe 100 + doy
     in era * 146097 + doe - 719468)"

definition parse_iso_to_epoch_ms_inspect :: "string \<Rightarrow> int option" where
  "parse_iso_to_epoch_ms_inspect text =
    (if length text < 20 \<or> last text \<noteq> CHR ''Z'' then None
     else let field = (\<lambda>i j. Option.bind (str_get text i j) parse_i64) in
          Option.bind (field 0 4) (\<lambda>year.
          Option.bind (field 5 7) (\<lambda>month.
          Option.bind (field 8 10) (\<lambda>day.
          Option.bind (field 11 13) (\<lambda>hour.
          Option.bind (field 14 16) (\<lambda>minute.
          Option.bind (field 17 19) (\<lambda>second.
          Option.bind (if length text \<ge> 24 then field 20 23 else Some 0) (\<lambda>milli.
            Some ((days_from_civil_inspect year month day * 86400 + hour * 3600
                   + minute * 60 + second) * 1000 + milli)))))))))"

section \<open>The calendar specification\<close>

text \<open>Gregorian leap years and month lengths, independent of the algorithm.\<close>

definition leap_year :: "int \<Rightarrow> bool" where
  "leap_year y \<longleftrightarrow> y mod 4 = 0 \<and> (y mod 100 \<noteq> 0 \<or> y mod 400 = 0)"

definition days_in_month :: "int \<Rightarrow> int \<Rightarrow> int" where
  "days_in_month y m =
     (if m = 2 then (if leap_year y then 29 else 28)
      else if m = 4 \<or> m = 6 \<or> m = 9 \<or> m = 11 then 30 else 31)"

definition valid_date :: "int \<Rightarrow> int \<Rightarrow> int \<Rightarrow> bool" where
  "valid_date y m d \<longleftrightarrow> 1 \<le> m \<and> m \<le> 12 \<and> 1 \<le> d \<and> d \<le> days_in_month y m"

definition date_less :: "int \<times> int \<times> int \<Rightarrow> int \<times> int \<times> int \<Rightarrow> bool" where
  "date_less a b \<longleftrightarrow> (case (a, b) of ((y, m, d), (y', m', d')) \<Rightarrow>
     y < y' \<or> y = y' \<and> (m < m' \<or> m = m' \<and> d < d'))"

text \<open>Days before the first of March of year \<open>y\<close>, counted from the first of March of year 0,
  and the days of that count inside one 400-year era.\<close>

definition march_start :: "int \<Rightarrow> int" where
  "march_start y = 365 * y + y div 4 - y div 100 + y div 400"

definition era_start :: "int \<Rightarrow> int" where
  "era_start y = 365 * y + y div 4 - y div 100"

definition yoe_of :: "int \<Rightarrow> int" where
  "yoe_of doe = (doe - doe div 1460 + doe div 36524 - doe div 146096) div 365"

lemma era_start_succ_le: "era_start (y + 1) \<le> era_start y + 366"
proof -
  have gen: "365 * (y + 1) + a - c \<le> 365 * y + b - d + 366" if "a \<le> b + 1" "d \<le> c"
    for a b c d :: int using that by simp
  have "(y + 1) div 4 \<le> y div 4 + 1" by simp
  moreover have "y div 100 \<le> (y + 1) div 100" by (intro zdiv_mono1) simp_all
  ultimately show ?thesis unfolding era_start_def by (rule gen)
qed

lemma yoe_numerator_mono:
  fixes d e :: int
  assumes "0 \<le> d" "d \<le> e" "e < 146096"
  shows "d - d div 1460 + d div 36524 - d div 146096 \<le> e - e div 1460 + e div 36524 - e div 146096"
proof -
  have gen: "d - a + b - x \<le> e - a' + b' - x'" if "x = 0" "x' = 0" "b \<le> b'" "a' - a \<le> e - d"
    for a b x a' b' x' :: int using that by simp
  have "d div 146096 = 0" "e div 146096 = 0" using assms by simp_all
  moreover have "d div 36524 \<le> e div 36524" using assms by (intro zdiv_mono1) simp_all
  moreover have "e div 1460 - d div 1460 \<le> e - d"
  proof -
    have "e - d \<le> 1460 * (e - d)" using mult_right_mono [of 1 1460 "e - d"] assms(2) by simp
    then have "e \<le> d + 1460 * (e - d)" by simp
    then have "e div 1460 \<le> (d + 1460 * (e - d)) div 1460" by (rule zdiv_mono1) simp
    also have "\<dots> = d div 1460 + (e - d)" by (subst div_mult_self2) simp_all
    finally show ?thesis by simp
  qed
  ultimately show ?thesis by (rule gen)
qed

lemma yoe_of_mono: "0 \<le> d \<Longrightarrow> d \<le> e \<Longrightarrow> e < 146096 \<Longrightarrow> yoe_of d \<le> yoe_of e"
  unfolding yoe_of_def by (intro zdiv_mono1 yoe_numerator_mono) simp_all

lemma yoe_of_bounds_table:
  "\<forall>y \<in> set [0..399]. yoe_of (era_start y) = y \<and> yoe_of (era_start (y + 1) - 1) = y"
  by code_simp

lemma yoe_of_unique:
  assumes "0 \<le> y" "y < 400" "era_start y \<le> doe" "doe < era_start (y + 1)"
  shows "yoe_of doe = y"
proof -
  have tab: "yoe_of (era_start y) = y" "yoe_of (era_start (y + 1) - 1) = y"
    using yoe_of_bounds_table assms by auto
  have "y div 100 \<le> y div 1" using assms(1) by (intro zdiv_mono2) simp_all
  moreover have "0 \<le> y div 4" using assms(1) by (simp add: pos_imp_zdiv_nonneg_iff)
  ultimately have "0 \<le> era_start y" using assms(1) unfolding era_start_def by simp
  moreover have "era_start (y + 1) \<le> 146096"
  proof (cases "y = 399")
    case False
    with assms have "(y + 1) div 4 \<le> 400 div 4" "0 \<le> (y + 1) div 100"
      by (auto intro: zdiv_mono1 simp: pos_imp_zdiv_nonneg_iff)
    with False assms show ?thesis unfolding era_start_def by simp
  qed (simp add: era_start_def)
  ultimately have "yoe_of (era_start y) \<le> yoe_of doe" "yoe_of doe \<le> yoe_of (era_start (y + 1) - 1)"
    using assms by (auto intro!: yoe_of_mono)
  with tab show ?thesis by simp
qed

lemma era_start_bracket:
  assumes "0 \<le> doe"
  shows "doe < era_start (int n) \<Longrightarrow> \<exists>y. 0 \<le> y \<and> y < int n \<and> era_start y \<le> doe \<and> doe < era_start (y + 1)"
proof (induction n)
  case 0
  with assms show ?case by (simp add: era_start_def)
next
  case (Suc n)
  show ?case
  proof (cases "doe < era_start (int n)")
    case True
    from Suc.IH [OF True] show ?thesis by force
  next
    case False
    with Suc.prems show ?thesis by (intro exI [of _ "int n"]) (simp add: add.commute)
  qed
qed

lemma yoe_of_range:
  assumes "0 \<le> doe" "doe < 146097"
  shows "0 \<le> yoe_of doe \<and> yoe_of doe < 400 \<and> era_start (yoe_of doe) \<le> doe
    \<and> doe < era_start (yoe_of doe + 1) + (if yoe_of doe = 399 then 1 else 0)"
proof (cases "doe = 146096")
  case True
  then have "yoe_of doe = 399" by (simp add: yoe_of_def)
  with True show ?thesis by (simp add: era_start_def)
next
  case False
  then have "doe < era_start (int 400)" using assms by (simp add: era_start_def)
  from era_start_bracket [OF assms(1) this] obtain y where
    "0 \<le> y" "y < 400" "era_start y \<le> doe" "doe < era_start (y + 1)" by auto
  with yoe_of_unique show ?thesis by auto
qed

lemma int_div_succ:
  fixes y n :: int
  assumes "0 < n"
  shows "(y + 1) div n = y div n + (if (y + 1) mod n = 0 then 1 else 0)"
proof (cases "y mod n = n - 1")
  case True
  have "n * (y div n) + (n - 1) = y" using mult_div_mod_eq [of n y] unfolding True .
  then have eq: "y + 1 = n * (y div n + 1)" by (simp add: distrib_left)
  have "(y + 1) div n = y div n + 1" "(y + 1) mod n = 0"
    using assms by (simp_all add: eq)
  then show ?thesis by simp
next
  case False
  have "y mod n < n" using assms by simp
  with False have lt: "y mod n + 1 < n" by linarith
  have eq: "y + 1 = (y mod n + 1) + n * (y div n)" by simp
  have nn: "0 \<le> y mod n" using assms by simp
  have "(y + 1) div n = y div n" using assms lt nn by (subst eq, subst div_mult_self2) simp_all
  moreover have "(y + 1) mod n = y mod n + 1"
    using assms lt nn by (subst eq, subst mod_mult_self2) simp_all
  ultimately show ?thesis using nn by simp
qed

lemma march_start_succ:
  "march_start (y + 1) = march_start y + 365 + (if leap_year (y + 1) then 1 else 0)"
proof -
  have a: "(y + 1) mod 400 = 0 \<Longrightarrow> (y + 1) mod 100 = 0"
    using mod_mod_cancel [of 100 400 "y + 1"] by simp
  have b: "(y + 1) mod 100 = 0 \<Longrightarrow> (y + 1) mod 4 = 0"
    using mod_mod_cancel [of 4 100 "y + 1"] by simp
  have gen: "365 * (y + 1) + (u + (if p then 1 else 0)) - (v + (if q then 1 else 0))
        + (w + (if r then 1 else 0))
      = 365 * y + u - v + w + 365 + (if p \<and> (\<not> q \<or> r) then 1 else 0)"
    if "r \<Longrightarrow> q" "q \<Longrightarrow> p" for p q r and u v w :: int
    using that by auto
  have d: "(y + 1) div 4 = y div 4 + (if (y + 1) mod 4 = 0 then 1 else 0)"
    "(y + 1) div 100 = y div 100 + (if (y + 1) mod 100 = 0 then 1 else 0)"
    "(y + 1) div 400 = y div 400 + (if (y + 1) mod 400 = 0 then 1 else 0)"
    by (rule int_div_succ, simp)+
  show ?thesis unfolding march_start_def leap_year_def d by (rule gen [OF a b])
qed

lemma march_start_mono: "x \<le> y \<Longrightarrow> march_start x + 365 * (y - x) \<le> march_start y"
proof (induction y rule: int_ge_induct)
  case (step i)
  then show ?case unfolding march_start_succ by simp
qed simp

lemma march_start_era:
  assumes "0 \<le> yoe" "yoe < 400"
  shows "march_start (yoe + era * 400) = 146097 * era + era_start yoe"
proof -
  have "(yoe + era * 400) div 4 = yoe div 4 + era * 100"
    using div_mult_self1 [of 4 yoe "era * 100"] by (simp add: mult.commute)
  moreover have "(yoe + era * 400) div 100 = yoe div 100 + era * 4"
    using div_mult_self1 [of 100 yoe "era * 4"] by (simp add: mult.commute)
  moreover have "(yoe + era * 400) div 400 = era"
    using assms by simp
  ultimately show ?thesis by (simp add: march_start_def era_start_def algebra_simps)
qed

text \<open>A day number splits into a March year, a day of that year and a March month.\<close>

lemma month_split:
  fixes doy mp :: int
  assumes "0 \<le> doy" "doy \<le> 365" "mp = (5 * doy + 2) div 153"
  shows "0 \<le> mp" "mp \<le> 11" "1 \<le> doy - (153 * mp + 2) div 5 + 1"
    "doy - (153 * mp + 2) div 5 \<le> 30"
proof -
  show "0 \<le> mp" using assms by (simp add: pos_imp_zdiv_nonneg_iff)
  have "mp < 12" unfolding assms(3) using assms(2) by (simp add: div_less_iff_less_mult)
  then show "mp \<le> 11" by simp
  have *: "153 * mp \<le> 5 * doy + 2" "5 * doy + 2 < 153 * mp + 153"
    using assms(3) by simp_all
  obtain q where q: "q = (153 * mp + 2) div 5" by simp
  then have "5 * q \<le> 153 * mp + 2" "153 * mp + 2 < 5 * q + 5" by simp_all
  note qs = this
  show "1 \<le> doy - (153 * mp + 2) div 5 + 1" using * qs unfolding q [symmetric] by linarith
  show "doy - (153 * mp + 2) div 5 \<le> 30" using * qs unfolding q [symmetric] by linarith
qed

lemma civil_from_days_parts:
  obtains Y doy mp where
    "0 \<le> doy" "doy \<le> 365" "mp = (5 * doy + 2) div 153"
    "civil_from_days days = (Y + (if mp < 10 then 0 else 1), if mp < 10 then mp + 3 else mp - 9,
       doy - (153 * mp + 2) div 5 + 1)"
    "days + 719468 = march_start Y + doy" "doy = 365 \<Longrightarrow> leap_year (Y + 1)"
proof -
  define doe where "doe = (days + 719468) mod 146097"
  define era where "era = (days + 719468) div 146097"
  define yoe where "yoe = yoe_of doe"
  define doy where "doy = doe - era_start yoe"
  define mp where "mp = (5 * doy + 2) div 153"
  define Y where "Y = yoe + era * 400"
  have doe: "0 \<le> doe" "doe < 146097" by (simp_all add: doe_def)
  note r = yoe_of_range [OF doe, folded yoe_def]
  have "era_start 399 = 145731" by (simp add: era_start_def)
  with r doe have doy: "0 \<le> doy" "doy \<le> 365"
    using era_start_succ_le [of yoe] unfolding doy_def by (cases "yoe = 399"; simp)+
  note ms = month_split [OF doy mp_def]
  have num: "0 \<le> doe - doe div 1460 + doe div 36524 - doe div 146096"
    using doe yoe_numerator_mono [of 0 doe] by (cases "doe = 146096") simp_all
  have e1: "i64_div (doe - i64_div doe 1460 + i64_div doe 36524 - i64_div doe 146096) 365 = yoe"
    unfolding yoe_def yoe_of_def
    by (simp only: i64_div_nonneg [OF doe(1)] i64_div_nonneg [OF num] zero_less_numeral)
  have e2: "365 * yoe + i64_div yoe 4 - i64_div yoe 100 = era_start yoe"
    using r by (simp only: i64_div_nonneg zero_less_numeral era_start_def)
  have e3: "i64_div (5 * doy + 2) 153 = mp" using doy by (simp add: mp_def)
  have e4: "i64_div (153 * mp + 2) 5 = (153 * mp + 2) div 5" using ms(1) by simp
  have cfd: "civil_from_days days = (Y + (if mp < 10 then 0 else 1),
      if mp < 10 then mp + 3 else mp - 9, doy - (153 * mp + 2) div 5 + 1)"
    using ms(1,2)
    by (simp only: civil_from_days_def Let_def doe_def [symmetric] era_def [symmetric]
      e1 e2 doy_def [symmetric] e3 e4) (auto simp: Y_def)
  have day: "days + 719468 = march_start Y + doy"
    using march_start_era [of yoe era] r div_mult_mod_eq [of "days + 719468" 146097]
    by (simp add: Y_def doy_def doe_def era_def)
  have "leap_year (Y + 1)" if "doy = 365"
  proof (cases "yoe = 399")
    case True
    then have "Y + 1 = (era + 1) * 400" by (simp add: Y_def)
    then show ?thesis using mod_mult_self2_is_0 [of "(era + 1) * 100" 4]
      by (simp add: leap_year_def)
  next
    case False
    with r have "march_start (Y + 1) = 146097 * era + era_start (yoe + 1)"
      using march_start_era [of "yoe + 1" era] by (simp add: Y_def algebra_simps)
    moreover have "march_start Y = 146097 * era + era_start yoe"
      using march_start_era r by (simp add: Y_def)
    ultimately show ?thesis using False r that march_start_succ [of Y]
      by (auto simp: doy_def split: if_splits)
  qed
  with that doy mp_def cfd day show ?thesis by blast
qed

section \<open>The civil calendar algorithm is a bijection on valid dates\<close>

definition march_year :: "int \<Rightarrow> int \<Rightarrow> int" where
  "march_year y m = (if m \<le> 2 then y - 1 else y)"

definition march_month :: "int \<Rightarrow> int" where
  "march_month m = (if m > 2 then m - 3 else m + 9)"

lemma days_from_civil_closed:
  assumes "1 \<le> m"
  shows "days_from_civil y m d =
    march_start (march_year y m) + (153 * march_month m + 2) div 5 + d - 1 - 719468"
proof -
  define Y where "Y = march_year y m"
  define yoe where "yoe = Y - Y div 400 * 400"
  have yoe: "0 \<le> yoe" "yoe < 400"
    by (simp_all add: yoe_def minus_div_mult_eq_mod)
  have Y: "Y = yoe + Y div 400 * 400" by (simp add: yoe_def)
  have ms: "march_start Y = 146097 * (Y div 400) + era_start yoe"
    by (subst Y, subst march_start_era [OF yoe]) simp
  have mm: "0 \<le> 153 * march_month m + 2" using assms by (simp add: march_month_def)
  have e1: "i64_div yoe 4 = yoe div 4" "i64_div yoe 100 = yoe div 100" using yoe by simp_all
  have e2: "i64_div (153 * march_month m + 2) 5 = (153 * march_month m + 2) div 5"
    using mm by simp
  show ?thesis
    unfolding days_from_civil_def Let_def march_year_def [symmetric] march_month_def [symmetric]
      Y_def [symmetric] yoe_def [symmetric] e1 e2 ms era_start_def by (simp only: mult.commute)
qed

lemma days_from_civil_inspect_eq:
  "1 \<le> m \<Longrightarrow> days_from_civil_inspect y m d = days_from_civil y m d"
proof -
  have "i64_div (if Y \<ge> 0 then Y else Y - 399) 400 = Y div 400" for Y :: int
  proof (cases "0 \<le> Y")
    case False
    have "Y div 400 = - ((399 - Y) div 400)" by linarith
    with False show ?thesis by (simp add: i64_div_def)
  qed simp
  then show ?thesis by (simp add: days_from_civil_inspect_def days_from_civil_def)
qed

lemma month_cases:
  assumes "1 \<le> (m::int)" "m \<le> 12"
  shows "m = 1 \<or> m = 2 \<or> m = 3 \<or> m = 4 \<or> m = 5 \<or> m = 6 \<or> m = 7 \<or> m = 8 \<or> m = 9
    \<or> m = 10 \<or> m = 11 \<or> m = 12"
  using assms by presburger

lemma march_month_cases:
  assumes "0 \<le> (m::int)" "m \<le> 11"
  shows "m = 0 \<or> m = 1 \<or> m = 2 \<or> m = 3 \<or> m = 4 \<or> m = 5 \<or> m = 6 \<or> m = 7 \<or> m = 8
    \<or> m = 9 \<or> m = 10 \<or> m = 11"
  using assms by presburger

lemma civil_from_days_inverse:
  assumes "civil_from_days days = (y, m, d)"
  shows "days_from_civil y m d = days"
proof -
  obtain Y doy mp where p: "0 \<le> doy" "doy \<le> 365" "mp = (5 * doy + 2) div 153"
    and c: "civil_from_days days = (Y + (if mp < 10 then 0 else 1),
       if mp < 10 then mp + 3 else mp - 9, doy - (153 * mp + 2) div 5 + 1)"
    and day: "days + 719468 = march_start Y + doy"
    using civil_from_days_parts by blast
  note ms = month_split [OF p]
  from c assms have y: "y = Y + (if mp < 10 then 0 else 1)"
    and m: "m = (if mp < 10 then mp + 3 else mp - 9)"
    and d: "d = doy - (153 * mp + 2) div 5 + 1" by auto
  have "march_year y m = Y" "march_month m = mp" "1 \<le> m"
    using y m ms(1,2) by (auto simp: march_year_def march_month_def)
  then have "days_from_civil y m d = march_start Y + (153 * mp + 2) div 5 + d - 1 - 719468"
    by (simp add: days_from_civil_closed)
  then show ?thesis using d day by simp
qed

lemma civil_from_days_valid:
  assumes "civil_from_days days = (y, m, d)"
  shows "valid_date y m d"
proof -
  obtain Y doy mp where p: "0 \<le> doy" "doy \<le> 365" "mp = (5 * doy + 2) div 153"
    and c: "civil_from_days days = (Y + (if mp < 10 then 0 else 1),
       if mp < 10 then mp + 3 else mp - 9, doy - (153 * mp + 2) div 5 + 1)"
    and leap: "doy = 365 \<Longrightarrow> leap_year (Y + 1)"
    using civil_from_days_parts by blast
  note ms = month_split [OF p]
  have b: "153 * mp \<le> 5 * doy + 2" "5 * doy + 2 < 153 * mp + 153" using p(3) by simp_all
  from c assms have y: "y = Y + (if mp < 10 then 0 else 1)"
    and m: "m = (if mp < 10 then mp + 3 else mp - 9)"
    and d: "d = doy - (153 * mp + 2) div 5 + 1" by auto
  have "d \<le> days_in_month y m"
    using march_month_cases [OF ms(1,2)] b d y m p(2) leap
    by (elim disjE) (simp_all add: days_in_month_def, linarith+)
  with ms y m d show ?thesis by (auto simp: valid_date_def)
qed

text \<open>The March day number of a valid date lies in its month.\<close>

lemma days_from_civil_bounds:
  assumes "valid_date y m d"
  shows "march_start (y - 1) + 306 \<le> days_from_civil y m d + 719468"
    and "days_from_civil y m d + 719468 \<le> march_start y + 305"
proof -
  have m: "1 \<le> m" "m \<le> 12" and d: "1 \<le> d" "d \<le> days_in_month y m"
    using assms by (auto simp: valid_date_def)
  have s: "march_start y = march_start (y - 1) + 365 + (if leap_year y then 1 else 0)"
    using march_start_succ [of "y - 1"] by simp
  have "march_start (y - 1) + 306 \<le> march_start (march_year y m) + (153 * march_month m + 2) div 5 + d - 1
     \<and> march_start (march_year y m) + (153 * march_month m + 2) div 5 + d - 1 \<le> march_start y + 305"
    using month_cases [OF m] d s
    by (elim disjE) (auto simp: march_year_def march_month_def days_in_month_def split: if_splits)
  then show "march_start (y - 1) + 306 \<le> days_from_civil y m d + 719468"
    and "days_from_civil y m d + 719468 \<le> march_start y + 305"
    by (simp_all add: days_from_civil_closed [OF m(1)])
qed

lemma days_from_civil_next_month:
  assumes "valid_date y m d" "1 \<le> m" "m < 12"
  shows "days_from_civil y m d < days_from_civil y (m + 1) 1"
proof -
  have d: "1 \<le> d" "d \<le> days_in_month y m" and m: "1 \<le> m" "m \<le> 12" "1 \<le> m + 1"
    using assms by (auto simp: valid_date_def)
  have s: "march_start y = march_start (y - 1) + 365 + (if leap_year y then 1 else 0)"
    using march_start_succ [of "y - 1"] by simp
  show ?thesis unfolding days_from_civil_closed [OF m(1)] days_from_civil_closed [OF m(3)]
    using month_cases [OF m(1,2)] d s assms(3)
    by (elim disjE) (auto simp: march_year_def march_month_def days_in_month_def split: if_splits)
qed

lemma days_from_civil_month_mono:
  assumes "1 \<le> m" "m \<le> k"
  shows "k \<le> 12 \<Longrightarrow> days_from_civil y m 1 \<le> days_from_civil y k 1"
  using assms(2)
proof (induction k rule: int_ge_induct)
  case (step i)
  then have "valid_date y i 1" using assms by (auto simp: valid_date_def days_in_month_def)
  with step assms days_from_civil_next_month [of y i 1] show ?case by auto
qed simp

lemma days_from_civil_day: "days_from_civil y m d = days_from_civil y m 1 + d - 1"
  by (simp add: days_from_civil_def Let_def)

lemma days_from_civil_less:
  assumes "valid_date y m d" "valid_date y' m' d'" "date_less (y, m, d) (y', m', d')"
  shows "days_from_civil y m d < days_from_civil y' m' d'"
proof -
  consider "y < y'" | "y = y'" "m < m'" | "y = y'" "m = m'" "d < d'"
    using assms(3) by (auto simp: date_less_def)
  then show ?thesis
  proof cases
    case 1
    then have "march_start y \<le> march_start (y' - 1)"
      using march_start_mono [of y "y' - 1"] by simp
    with days_from_civil_bounds [OF assms(1)] days_from_civil_bounds [OF assms(2)]
    show ?thesis by linarith
  next
    case 2
    with assms(1,2) have m: "1 \<le> m" "m < 12" "m' \<le> 12" "1 \<le> d'" by (auto simp: valid_date_def)
    from days_from_civil_next_month [OF assms(1) m(1,2)]
    have "days_from_civil y m d < days_from_civil y (m + 1) 1" .
    also have "\<dots> \<le> days_from_civil y m' 1"
      using days_from_civil_month_mono [of "m + 1" m' y] m 2 by simp
    also have "\<dots> \<le> days_from_civil y' m' d'" using 2 m days_from_civil_day [of y' m' d'] by simp
    finally show ?thesis .
  next
    case 3
    then show ?thesis using days_from_civil_day [of y m d] days_from_civil_day [of y m d'] by simp
  qed
qed

lemma days_from_civil_inj:
  assumes "valid_date y m d" "valid_date y' m' d'" "days_from_civil y m d = days_from_civil y' m' d'"
  shows "(y, m, d) = (y', m', d')"
proof (rule ccontr)
  assume "\<not> ?thesis"
  then have "date_less (y, m, d) (y', m', d') \<or> date_less (y', m', d') (y, m, d)"
    by (auto simp: date_less_def)
  with days_from_civil_less [OF assms(1,2)] days_from_civil_less [OF assms(2,1)] assms(3)
  show False by auto
qed

lemma days_from_civil_inverse:
  assumes "valid_date y m d"
  shows "civil_from_days (days_from_civil y m d) = (y, m, d)"
proof -
  obtain y' m' d' where c: "civil_from_days (days_from_civil y m d) = (y', m', d')"
    by (metis prod_cases3)
  from civil_from_days_inverse [OF c] civil_from_days_valid [OF c] assms
  have "(y', m', d') = (y, m, d)" by (intro days_from_civil_inj) auto
  with c show ?thesis by simp
qed

end
