(* ===== verification/FrickIso.thy ===== *)
theory FrickIso
  imports FrickTime
begin

text \<open>
  The text side of timestamps: the five printers of \<open>FrickTime\<close> are one function, the strict
  and the lenient parser invert it, and the byte order of the text is the order of time.
\<close>

section \<open>One calendar, five copies\<close>

lemma to_u32_or_1_small: "0 \<le> x \<Longrightarrow> x \<le> 31 \<Longrightarrow> to_u32_or_1 x = x"
  by (simp add: to_u32_or_1_def)

lemma civil_from_days_blob_eq: "civil_from_days_blob = civil_from_days"
  by (rule ext) (simp only: civil_from_days_blob_def civil_from_days_def Let_def of_bool_def)

lemma add_if_one: "(x::int) + (if b then 1 else 0) = (if b then x + 1 else x)"
  by simp

lemma civil_from_days_migrations_eq: "civil_from_days_migrations = civil_from_days"
  by (rule ext) (simp only: civil_from_days_migrations_def civil_from_days_def Let_def add_if_one)

lemma civil_from_days_account_boot: "civil_from_days_account = civil_from_days_boot"
  by (rule ext) (simp only: civil_from_days_account_def civil_from_days_boot_def Let_def)

lemma civil_from_days_boot_eq: "civil_from_days_boot = civil_from_days"
proof
  fix days
  obtain y m d where c: "civil_from_days days = (y, m, d)" by (metis prod_cases3)
  define z era doe yoe doy mp where v:
    "z = days + 719468" "era = z div 146097" "doe = z mod 146097"
    "yoe = i64_div (doe - i64_div doe 1460 + i64_div doe 36524 - i64_div doe 146096) 365"
    "doy = doe - (365 * yoe + i64_div yoe 4 - i64_div yoe 100)"
    "mp = i64_div (5 * doy + 2) 153"
  have cd: "civil_from_days days = (yoe + era * 400 + (if (if mp < 10 then mp + 3 else mp - 9) \<le> 2
      then 1 else 0), if mp < 10 then mp + 3 else mp - 9, doy - i64_div (153 * mp + 2) 5 + 1)"
    unfolding civil_from_days_def Let_def v ..
  have cb: "civil_from_days_boot days = (if to_u32_or_1 (if mp < 10 then mp + 3 else mp - 9) \<le> 2
      then yoe + era * 400 + 1 else yoe + era * 400,
      to_u32_or_1 (if mp < 10 then mp + 3 else mp - 9),
      to_u32_or_1 (doy - i64_div (153 * mp + 2) 5 + 1))"
    unfolding civil_from_days_boot_def Let_def v ..
  have "days_in_month y m \<le> 31" by (simp add: days_in_month_def)
  with civil_from_days_valid [OF c] have "1 \<le> m" "m \<le> 12" "1 \<le> d" "d \<le> 31"
    by (auto simp: valid_date_def)
  with c cd show "civil_from_days_boot days = civil_from_days days"
    unfolding cb cd by (simp add: to_u32_or_1_small)
qed

lemmas civil_copies_eq = civil_from_days_blob_eq civil_from_days_migrations_eq
  civil_from_days_account_boot civil_from_days_boot_eq

section \<open>The clock part\<close>

definition valid_clock :: "int \<Rightarrow> int \<Rightarrow> int \<Rightarrow> int \<Rightarrow> bool" where
  "valid_clock h mi s ms \<longleftrightarrow> 0 \<le> h \<and> h < 24 \<and> 0 \<le> mi \<and> mi < 60 \<and> 0 \<le> s \<and> s < 60
     \<and> 0 \<le> ms \<and> ms < 1000"

definition clock_ms :: "int \<Rightarrow> int \<Rightarrow> int \<Rightarrow> int \<Rightarrow> int" where
  "clock_ms h mi s ms = h * 3600000 + mi * 60000 + s * 1000 + ms"

lemma clock_exists:
  assumes "0 \<le> t" "t < 86400000"
  obtains h mi s ms where "valid_clock h mi s ms" "t = clock_ms h mi s ms"
proof -
  define a b where "a = t div 1000" and "b = a div 60"
  have gen: "t = clock_ms c e f g" if "t = a * 1000 + g" "a = b * 60 + f" "b = c * 60 + e" for c e f g
    using that by (simp add: clock_ms_def)
  have "t = clock_ms (b div 60) (b mod 60) (a mod 60) (t mod 1000)"
    by (rule gen) (simp_all add: a_def b_def)
  moreover have q: "b div 60 = t div 3600000"
    by (simp add: a_def b_def zdiv_zmult2_eq [symmetric])
  have "t div 3600000 \<le> 86399999 div 3600000" using assms by (intro zdiv_mono1) simp_all
  moreover have "0 div 3600000 \<le> t div 3600000" using assms by (intro zdiv_mono1) simp_all
  ultimately show ?thesis unfolding q
    by (intro that [of "t div 3600000" "b mod 60" "a mod 60" "t mod 1000"])
      (simp_all add: valid_clock_def)
qed

lemma clock_range: "valid_clock h mi s ms \<Longrightarrow> 0 \<le> clock_ms h mi s ms \<and> clock_ms h mi s ms < 86400000"
  by (auto simp: valid_clock_def clock_ms_def)

lemma clock_fields:
  assumes "valid_clock h mi s ms"
  shows "clock_ms h mi s ms div 3600000 = h"
    "clock_ms h mi s ms mod 3600000 = mi * 60000 + s * 1000 + ms"
    "clock_ms h mi s ms mod 60000 = s * 1000 + ms"
    "clock_ms h mi s ms mod 1000 = ms"
    "clock_ms h mi s ms div 60000 = h * 60 + mi"
    "clock_ms h mi s ms div 1000 = (h * 60 + mi) * 60 + s"
    "(mi * 60000 + s * 1000 + ms) div 60000 = mi" "(s * 1000 + ms) div 1000 = s"
    "(h * 60 + mi) mod 60 = mi" "((h * 60 + mi) * 60 + s) mod 60 = s"
    "((h * 60 + mi) * 60 + s) div 3600 = h" "((h * 60 + mi) * 60 + s) mod 3600 = mi * 60 + s"
    "(mi * 60 + s) div 60 = mi" "((h * 60 + mi) * 60 + s) div 60 = h * 60 + mi"
proof -
  note v = assms [unfolded valid_clock_def]
  show "clock_ms h mi s ms div 3600000 = h"
    using v by (intro int_div_pos_eq [of _ _ _ "mi * 60000 + s * 1000 + ms"]) (auto simp: clock_ms_def)
  show "clock_ms h mi s ms mod 3600000 = mi * 60000 + s * 1000 + ms"
    using v by (intro int_mod_pos_eq [of _ _ h]) (auto simp: clock_ms_def)
  show "clock_ms h mi s ms mod 60000 = s * 1000 + ms"
    using v by (intro int_mod_pos_eq [of _ _ "h * 60 + mi"]) (auto simp: clock_ms_def)
  show "clock_ms h mi s ms mod 1000 = ms"
    using v by (intro int_mod_pos_eq [of _ _ "(h * 60 + mi) * 60 + s"]) (auto simp: clock_ms_def)
  show "clock_ms h mi s ms div 60000 = h * 60 + mi"
    using v by (intro int_div_pos_eq [of _ _ _ "s * 1000 + ms"]) (auto simp: clock_ms_def)
  show "clock_ms h mi s ms div 1000 = (h * 60 + mi) * 60 + s"
    using v by (intro int_div_pos_eq [of _ _ _ ms]) (auto simp: clock_ms_def)
  show "(mi * 60000 + s * 1000 + ms) div 60000 = mi"
    using v by (intro int_div_pos_eq [of _ _ _ "s * 1000 + ms"]) auto
  show "(s * 1000 + ms) div 1000 = s" using v by (intro int_div_pos_eq [of _ _ _ ms]) auto
  show "(h * 60 + mi) mod 60 = mi" using v by (intro int_mod_pos_eq [of _ _ h]) auto
  show "((h * 60 + mi) * 60 + s) mod 60 = s"
    using v by (intro int_mod_pos_eq [of _ _ "h * 60 + mi"]) auto
  show "((h * 60 + mi) * 60 + s) div 3600 = h"
    using v by (intro int_div_pos_eq [of _ _ _ "mi * 60 + s"]) auto
  show "((h * 60 + mi) * 60 + s) mod 3600 = mi * 60 + s"
    using v by (intro int_mod_pos_eq [of _ _ h]) auto
  show "(mi * 60 + s) div 60 = mi" using v by (intro int_div_pos_eq [of _ _ _ s]) auto
  show "((h * 60 + mi) * 60 + s) div 60 = h * 60 + mi"
    using v by (intro int_div_pos_eq [of _ _ _ s]) auto
qed

lemma day_clock_split:
  assumes "valid_clock h mi s ms" "t = days * 86400000 + clock_ms h mi s ms"
  shows "t div 86400000 = days" "t mod 86400000 = clock_ms h mi s ms"
    "t mod 1000 = ms" "t div 1000 div 86400 = days"
    "t div 1000 mod 86400 = (h * 60 + mi) * 60 + s"
proof -
  note v = assms(1) [unfolded valid_clock_def]
  note r = clock_range [OF assms(1)]
  show d: "t div 86400000 = days"
    using assms r by (intro int_div_pos_eq [of _ _ _ "clock_ms h mi s ms"]) auto
  show "t mod 86400000 = clock_ms h mi s ms"
    using assms r by (intro int_mod_pos_eq [of _ _ days]) auto
  have t1: "t div 1000 = days * 86400 + ((h * 60 + mi) * 60 + s)"
    using assms v by (intro int_div_pos_eq [of _ _ _ ms]) (auto simp: clock_ms_def)
  show "t mod 1000 = ms"
    using assms v by (intro int_mod_pos_eq [of _ _ "days * 86400 + ((h * 60 + mi) * 60 + s)"])
      (auto simp: clock_ms_def)
  show "t div 1000 div 86400 = days" unfolding t1
    using v by (intro int_div_pos_eq [of _ _ _ "(h * 60 + mi) * 60 + s"]) auto
  show "t div 1000 mod 86400 = (h * 60 + mi) * 60 + s" unfolding t1
    using v by (intro int_mod_pos_eq [of _ _ days]) auto
qed


section \<open>Printers, parsers and the order of their text\<close>

lemma epoch_ms_split:
  obtains y m d h mi s ms where "valid_date y m d" "valid_clock h mi s ms"
    "t = days_from_civil y m d * 86400000 + clock_ms h mi s ms"
proof -
  obtain y m d where c: "civil_from_days (t div 86400000) = (y, m, d)" by (metis prod_cases3)
  obtain h mi s ms where k: "valid_clock h mi s ms" "t mod 86400000 = clock_ms h mi s ms"
    by (rule clock_exists [of "t mod 86400000"]) simp_all
  have "t = days_from_civil y m d * 86400000 + clock_ms h mi s ms"
    using civil_from_days_inverse [OF c] k(2) div_mult_mod_eq [of t 86400000] by simp
  with that k civil_from_days_valid [OF c] show ?thesis by blast
qed

lemma printers_text:
  assumes "valid_date y m d" "valid_clock h mi s ms"
    "t = days_from_civil y m d * 86400000 + clock_ms h mi s ms"
  shows "epoch_ms_to_iso t = iso_text y m d h mi s ms"
    "iso_from_epoch_ms_blob t = iso_text y m d h mi s ms"
    "iso_from_epoch_ms_boot t = iso_text y m d h mi s ms"
    "iso_from_epoch_ms_account t = iso_text y m d h mi s ms"
    "epoch_ms_to_iso8601 t = iso_text y m d h mi s ms"
proof -
  note split = day_clock_split [OF assms(2,3)]
  note f = clock_fields [OF assms(2)]
  note c = days_from_civil_inverse [OF assms(1)]
  have n: "0 \<le> clock_ms h mi s ms" "0 \<le> mi * 60000 + s * 1000 + ms" "0 \<le> s * 1000 + ms"
    "0 \<le> h * 60 + mi" "0 \<le> (h * 60 + mi) * 60 + s" "0 \<le> mi * 60 + s"
    using assms(2) by (auto simp: valid_clock_def clock_ms_def)
  note rules = Let_def split c f n i64_div_nonneg i64_rem_nonneg zero_less_numeral prod.case
    civil_copies_eq
  show "epoch_ms_to_iso t = iso_text y m d h mi s ms"
    by (simp only: epoch_ms_to_iso_def rules)
  show "iso_from_epoch_ms_blob t = iso_text y m d h mi s ms"
    by (simp only: iso_from_epoch_ms_blob_def rules)
  show "iso_from_epoch_ms_boot t = iso_text y m d h mi s ms"
    by (simp only: iso_from_epoch_ms_boot_def rules)
  show "iso_from_epoch_ms_account t = iso_text y m d h mi s ms"
    by (simp only: iso_from_epoch_ms_account_def rules)
  show "epoch_ms_to_iso8601 t = iso_text y m d h mi s ms"
    by (simp only: epoch_ms_to_iso8601_def rules)
qed

text \<open>The instants whose year has four digits.\<close>

definition iso_range :: "int \<Rightarrow> bool" where
  "iso_range t \<longleftrightarrow> - 62167219200000 \<le> t \<and> t \<le> 253402300799999"

lemma iso_range_year:
  assumes "valid_date y m d" "valid_clock h mi s ms"
    "t = days_from_civil y m d * 86400000 + clock_ms h mi s ms" "iso_range t"
  shows "0 \<le> y \<and> y \<le> 9999"
proof (rule ccontr)
  have e: "days_from_civil 0 1 1 = - 719528" "days_from_civil 9999 12 31 = 2932896"
    by code_simp+
  have v: "valid_date 0 1 1" "valid_date 9999 12 31" by code_simp+
  have r: "0 \<le> clock_ms h mi s ms" "clock_ms h mi s ms < 86400000"
    using clock_range [OF assms(2)] by simp_all
  assume "\<not> (0 \<le> y \<and> y \<le> 9999)"
  then consider "date_less (y, m, d) (0, 1, 1)" | "date_less (9999, 12, 31) (y, m, d)"
    by (auto simp: date_less_def)
  then show False
  proof cases
    case 1
    from days_from_civil_less [OF assms(1) v(1) 1] e(1) have "days_from_civil y m d \<le> - 719529" by simp
    then show False using assms(3,4) r by (simp add: iso_range_def)
  next
    case 2
    from days_from_civil_less [OF v(2) assms(1) 2] e(2) have "2932897 \<le> days_from_civil y m d" by simp
    then show False using assms(3,4) r by (simp add: iso_range_def)
  qed
qed

lemma iso_text_fixed:
  assumes "valid_date y m d" "valid_clock h mi s ms" "0 \<le> y" "y \<le> 9999"
  shows "iso_text y m d h mi s ms =
     fixed_dec 4 (nat y) @ ''-'' @ fixed_dec 2 (nat m) @ ''-'' @ fixed_dec 2 (nat d) @ ''T'' @
     fixed_dec 2 (nat h) @ '':'' @ fixed_dec 2 (nat mi) @ '':'' @ fixed_dec 2 (nat s) @ ''.'' @
     fixed_dec 3 (nat ms) @ ''Z''"
proof -
  have "days_in_month y m \<le> 31" by (simp add: days_in_month_def)
  with assms have b: "0 \<le> m" "m < 10 ^ 2" "0 \<le> d" "d < 10 ^ 2" "y < 10 ^ 4"
    "0 \<le> h" "h < 10 ^ 2" "0 \<le> mi" "mi < 10 ^ 2" "0 \<le> s" "s < 10 ^ 2" "0 \<le> ms" "ms < 10 ^ 3"
    by (auto simp: valid_date_def valid_clock_def)
  show ?thesis unfolding iso_text_def using b assms(3) by (simp only: pad_int_nonneg zero_less_numeral)
qed

lemma parse_digits_loop_append:
  "parse_digits_loop v (xs @ ys) = Option.bind (parse_digits_loop v xs) (\<lambda>u. parse_digits_loop u ys)"
  by (induction xs arbitrary: v) auto

lemma of_char_digit_char_int: "d < 10 \<Longrightarrow> (of_char (digit_char d) :: int) = 48 + int d"
  using of_char_digit_char [of d] by (metis of_nat_of_char of_nat_add of_nat_numeral)

lemma parse_digits_fixed_dec: "n < 10 ^ w \<Longrightarrow> parse_digits (fixed_dec w n) = Some (int n)"
proof (induction w arbitrary: n)
  case 0
  then show ?case by (simp add: parse_digits_def)
next
  case (Suc w)
  from Suc.prems have "n div 10 < 10 ^ w" by (simp add: less_mult_imp_div_less mult.commute)
  moreover have "int (n div 10) * 10 + int (n mod 10) = int n"
    using div_mult_mod_eq [of "int n" 10] by (simp only: zdiv_int zmod_int of_nat_numeral)
  ultimately show ?case using Suc.IH
    by (simp add: parse_digits_def parse_digits_loop_append of_char_digit_char_int)
qed


lemma parse_iso_text:
  assumes "valid_date y m d" "valid_clock h mi s ms" "0 \<le> y" "y \<le> 9999"
  shows "parse_iso_ms_opt (iso_text y m d h mi s ms) =
     Some (days_from_civil y m d * 86400000 + clock_ms h mi s ms)"
proof -
  have dm: "days_in_month y m \<le> 31" by (simp add: days_in_month_def)
  with assms have b: "nat m < 10 ^ 2" "nat d < 10 ^ 2" "nat y < 10 ^ 4" "nat h < 10 ^ 2"
    "nat mi < 10 ^ 2" "nat s < 10 ^ 2" "nat ms < 10 ^ 3"
    by (auto simp: valid_date_def valid_clock_def)
  have n: "int (nat y) = y" "int (nat m) = m" "int (nat d) = d" "int (nat h) = h"
    "int (nat mi) = mi" "int (nat s) = s" "int (nat ms) = ms"
    using assms by (auto simp: valid_date_def valid_clock_def)
  have r: "1 \<le> m" "m \<le> 12" "1 \<le> d" "d \<le> 31" using assms(1) dm by (auto simp: valid_date_def)
  let ?t = "iso_text y m d h mi s ms"
  note tx = iso_text_fixed [OF assms]
  have sl: "slice 0 4 ?t = fixed_dec 4 (nat y)" "slice 5 7 ?t = fixed_dec 2 (nat m)"
    "slice 8 10 ?t = fixed_dec 2 (nat d)" "slice 11 13 ?t = fixed_dec 2 (nat h)"
    "slice 14 16 ?t = fixed_dec 2 (nat mi)" "slice 17 19 ?t = fixed_dec 2 (nat s)"
    "slice 20 23 ?t = fixed_dec 3 (nat ms)"
    unfolding tx by (simp_all add: slice_def)
  have sep: "length ?t = 24" "?t ! 4 = CHR ''-''" "?t ! 7 = CHR ''-''" "?t ! 10 = CHR ''T''"
    "?t ! 13 = CHR '':''" "?t ! 16 = CHR '':''" "?t ! 19 = CHR ''.''" "?t ! 23 = CHR ''Z''"
    unfolding tx by (simp_all add: nth_append)
  show ?thesis
    using r by (simp add: parse_iso_ms_opt_def sep sl b [THEN parse_digits_fixed_dec, unfolded n] clock_ms_def)
qed

lemma clock_ms_less_iff:
  assumes "valid_clock h mi s ms" "valid_clock h' mi' s' ms'"
  shows "clock_ms h mi s ms < clock_ms h' mi' s' ms' \<longleftrightarrow>
    h < h' \<or> h = h' \<and> (mi < mi' \<or> mi = mi' \<and> (s < s' \<or> s = s' \<and> ms < ms'))"
  using assms unfolding valid_clock_def clock_ms_def by linarith

lemma iso_text_less_iff:
  assumes "valid_date y m d" "valid_clock h mi s ms" "0 \<le> y" "y \<le> 9999"
    and "valid_date y' m' d'" "valid_clock h' mi' s' ms'" "0 \<le> y'" "y' \<le> 9999"
  shows "iso_text y m d h mi s ms < iso_text y' m' d' h' mi' s' ms' \<longleftrightarrow>
    date_less (y, m, d) (y', m', d') \<or> (y, m, d) = (y', m', d') \<and>
    clock_ms h mi s ms < clock_ms h' mi' s' ms'"
proof -
  have less: "fixed_dec w (nat a) < fixed_dec w (nat b) \<longleftrightarrow> a < b"
    and eq: "fixed_dec w (nat a) = fixed_dec w (nat b) \<longleftrightarrow> a = b"
    if "0 \<le> a" "a < 10 ^ w" "0 \<le> b" "b < 10 ^ w" for w a b
    using that fixed_dec_less_iff [of "nat a" w "nat b"] fixed_dec_eq_iff [of "nat a" w "nat b"]
    by (auto simp: nat_less_iff)
  have dm: "days_in_month y m \<le> 31" "days_in_month y' m' \<le> 31" by (simp_all add: days_in_month_def)
  have b: "y < 10 ^ 4" "0 \<le> m" "m < 10 ^ 2" "0 \<le> d" "d < 10 ^ 2"
      "0 \<le> h" "h < 10 ^ 2" "0 \<le> mi" "mi < 10 ^ 2" "0 \<le> s" "s < 10 ^ 2" "0 \<le> ms" "ms < 10 ^ 3"
    using assms(1-4) dm by (auto simp: valid_date_def valid_clock_def)
  have b': "y' < 10 ^ 4" "0 \<le> m'" "m' < 10 ^ 2" "0 \<le> d'" "d' < 10 ^ 2"
      "0 \<le> h'" "h' < 10 ^ 2" "0 \<le> mi'" "mi' < 10 ^ 2" "0 \<le> s'" "s' < 10 ^ 2"
      "0 \<le> ms'" "ms' < 10 ^ 3"
    using assms(5-8) dm by (auto simp: valid_date_def valid_clock_def)
  show ?thesis
    unfolding iso_text_fixed [OF assms(1-4)] iso_text_fixed [OF assms(5-8)]
      clock_ms_less_iff [OF assms(2,6)] date_less_def
    using assms(3,7) b b'
    by (simp add: append_less_same_length less eq) blast
qed

text \<open>The text order is the order of instants.\<close>

lemma epoch_ms_to_iso_less_iff:
  assumes "iso_range t" "iso_range u"
  shows "epoch_ms_to_iso t < epoch_ms_to_iso u \<longleftrightarrow> t < u"
proof -
  obtain y m d h mi s ms where t: "valid_date y m d" "valid_clock h mi s ms"
    "t = days_from_civil y m d * 86400000 + clock_ms h mi s ms" by (rule epoch_ms_split)
  obtain y' m' d' h' mi' s' ms' where u: "valid_date y' m' d'" "valid_clock h' mi' s' ms'"
    "u = days_from_civil y' m' d' * 86400000 + clock_ms h' mi' s' ms'" by (rule epoch_ms_split)
  have yr: "0 \<le> y" "y \<le> 9999" "0 \<le> y'" "y' \<le> 9999"
    using iso_range_year [OF t assms(1)] iso_range_year [OF u assms(2)] by simp_all
  let ?D = "days_from_civil y m d" and ?D' = "days_from_civil y' m' d'"
  have tri: "date_less (y, m, d) (y', m', d') \<or> (y, m, d) = (y', m', d')
      \<or> date_less (y', m', d') (y, m, d)"
    by (auto simp: date_less_def)
  then have dless: "date_less (y, m, d) (y', m', d') \<longleftrightarrow> ?D < ?D'"
    and deq: "(y, m, d) = (y', m', d') \<longleftrightarrow> ?D = ?D'"
    using days_from_civil_less [OF t(1) u(1)] days_from_civil_less [OF u(1) t(1)] by fastforce+
  have gen: "(D < D' \<or> D = D' \<and> c < c') \<longleftrightarrow> D * 86400000 + c < D' * 86400000 + c'"
    if "0 \<le> c" "c < 86400000" "0 \<le> c'" "c' < 86400000" for D D' c c' :: int
    using that by linarith
  have "epoch_ms_to_iso t < epoch_ms_to_iso u \<longleftrightarrow>
      ?D < ?D' \<or> ?D = ?D' \<and> clock_ms h mi s ms < clock_ms h' mi' s' ms'"
    unfolding printers_text(1) [OF t] printers_text(1) [OF u]
      iso_text_less_iff [OF t(1,2) yr(1,2) u(1,2) yr(3,4)] dless deq ..
  also have "\<dots> \<longleftrightarrow> t < u" unfolding t(3) u(3)
    by (rule gen) (use clock_range [OF t(2)] clock_range [OF u(2)] in simp_all)
  finally show ?thesis .
qed

section \<open>The lenient parser of the inspection routes\<close>

lemma parse_digits_loop_Some:
  "parse_digits_loop v xs = Some r \<Longrightarrow> 0 \<le> v \<Longrightarrow>
     (\<forall>c \<in> set xs. is_digit c) \<and> 0 \<le> r \<and> r < (v + 1) * 10 ^ length xs"
proof (induction xs arbitrary: v)
  case Nil
  then show ?case by simp
next
  case (Cons b xs)
  then have d: "is_digit b" and r: "parse_digits_loop (v * 10 + (of_char b - 48)) xs = Some r"
    by (auto split: if_splits)
  have "(of_char b :: int) = int (of_char b)" by (metis of_nat_of_char)
  moreover from d have "48 \<le> int (of_char b)" "int (of_char b) \<le> 57" by (simp_all add: is_digit_def)
  ultimately have b: "0 \<le> (of_char b :: int) - 48" "(of_char b :: int) - 48 \<le> 9" by linarith+
  with Cons.IH [OF r] Cons.prems have IH: "\<forall>c \<in> set xs. is_digit c" "0 \<le> r"
    "r < (v * 10 + (of_char b - 48) + 1) * 10 ^ length xs" by auto
  have "(v * 10 + (of_char b - 48) + 1) * 10 ^ length xs \<le> ((v + 1) * 10) * 10 ^ length xs"
    using b by (intro mult_right_mono) simp_all
  with IH(3) have "r < ((v + 1) * 10) * 10 ^ length xs" by linarith
  then have "r < (v + 1) * 10 ^ length (b # xs)" by (simp only: length_Cons power_Suc mult.assoc)
  with IH d show ?case by (simp del: length_Cons)
qed

lemma parse_i64_digits:
  assumes "parse_digits ds = Some n" "ds \<noteq> []" "length ds \<le> 4"
  shows "parse_i64 ds = Some n"
proof -
  have p: "\<forall>c \<in> set ds. is_digit c" "0 \<le> n" "n < 10 ^ length ds"
    using parse_digits_loop_Some [of 0 ds n] assms(1) by (auto simp: parse_digits_def)
  have "(10::int) ^ length ds \<le> 10 ^ 4" using assms(3) by (intro power_increasing) simp_all
  with p have n: "n < 2 ^ 63" by simp
  obtain c cs where ds: "ds = c # cs" using assms(2) by (cases ds) auto
  with p have "is_digit c" by simp
  then have "c \<noteq> CHR ''-''" "c \<noteq> CHR ''+''" by (auto simp: is_digit_def)
  with ds assms p n show ?thesis by (simp add: parse_i64_def Let_def)
qed

lemma is_digit_ascii: "is_digit c \<Longrightarrow> (of_char c :: nat) < 128"
  by (simp add: is_digit_def)

lemma parse_digits_slice_digit:
  assumes "parse_digits (slice i j s) = Some n" "i < j" "j \<le> length s"
  shows "is_digit (s ! i)"
proof -
  have "s ! i \<in> set (slice i j s)"
    using assms(2,3) by (auto simp: slice_def in_set_conv_nth intro!: exI [of _ 0])
  then show ?thesis using parse_digits_loop_Some assms(1) unfolding parse_digits_def by fastforce
qed

lemma inspect_field:
  assumes "parse_digits (slice i j s) = Some n" "i < j" "j < length s" "j \<le> i + 4"
    "(of_char (s ! j) :: nat) < 128"
  shows "Option.bind (str_get s i j) parse_i64 = Some n"
proof -
  have "is_digit (s ! i)" using parse_digits_slice_digit [OF assms(1,2)] assms(3) by simp
  then have "str_get s i j = Some (slice i j s)"
    using assms is_digit_ascii by (auto simp: str_get_def is_char_boundary_def)
  moreover have "parse_i64 (slice i j s) = Some n"
    using assms by (intro parse_i64_digits) (auto simp: slice_def)
  ultimately show ?thesis by simp
qed

lemma parse_inspect_of_canonical:
  assumes "parse_iso_ms_opt s = Some t"
  shows "parse_iso_to_epoch_ms_inspect s = Some t"
proof -
  have len: "length s = 24" and sep: "s ! 4 = CHR ''-''" "s ! 7 = CHR ''-''" "s ! 10 = CHR ''T''"
    "s ! 13 = CHR '':''" "s ! 16 = CHR '':''" "s ! 19 = CHR ''.''" "s ! 23 = CHR ''Z''"
    using assms by (auto simp: parse_iso_ms_opt_def split: if_splits)
  from assms obtain y m d h mi sc ms where f: "parse_digits (slice 0 4 s) = Some y"
      "parse_digits (slice 5 7 s) = Some m" "parse_digits (slice 8 10 s) = Some d"
      "parse_digits (slice 11 13 s) = Some h" "parse_digits (slice 14 16 s) = Some mi"
      "parse_digits (slice 17 19 s) = Some sc" "parse_digits (slice 20 23 s) = Some ms"
    and m: "1 \<le> m"
    and t: "t = days_from_civil y m d * 86400000 + h * 3600000 + mi * 60000 + sc * 1000 + ms"
    unfolding parse_iso_ms_opt_def by (auto simp: bind_eq_Some_conv split: if_splits)
  note field = f [THEN inspect_field]
  have "last s = CHR ''Z''" using len sep(7) by (subst last_conv_nth) auto
  then show ?thesis
    using m by (simp add: parse_iso_to_epoch_ms_inspect_def Let_def len sep field
      days_from_civil_inspect_eq t)
qed

lemma iso_blob_eq: "iso_from_epoch_ms_blob t = epoch_ms_to_iso t"
proof -
  obtain y m d h mi s ms where "valid_date y m d" "valid_clock h mi s ms"
    "t = days_from_civil y m d * 86400000 + clock_ms h mi s ms" by (rule epoch_ms_split)
  from printers_text [OF this] show ?thesis by simp
qed

lemma parse_printed_now: "iso_range t \<Longrightarrow> parse_iso_ms_opt (iso_from_epoch_ms_blob t) = Some t"
proof -
  assume r: "iso_range t"
  obtain y m d h mi s ms where t: "valid_date y m d" "valid_clock h mi s ms"
    "t = days_from_civil y m d * 86400000 + clock_ms h mi s ms" by (rule epoch_ms_split)
  have "0 \<le> y" "y \<le> 9999" using iso_range_year [OF t r] by simp_all
  then show ?thesis using parse_iso_text [OF t(1,2)] printers_text(2) [OF t] t(3) by simp
qed

section \<open>Properties\<close>

text \<open>The five copies of the epoch-to-ISO printer (job store, blob store, server boot,
  account store, migrations) are the same function on every instant.\<close>

theorem iso_printers_agree:
  "iso_from_epoch_ms_blob t = epoch_ms_to_iso t \<and> iso_from_epoch_ms_boot t = epoch_ms_to_iso t
   \<and> iso_from_epoch_ms_account t = epoch_ms_to_iso t \<and> epoch_ms_to_iso8601 t = epoch_ms_to_iso t"
proof -
  obtain y m d h mi s ms where "valid_date y m d" "valid_clock h mi s ms"
    "t = days_from_civil y m d * 86400000 + clock_ms h mi s ms" by (rule epoch_ms_split)
  from printers_text [OF this] show ?thesis by simp
qed

text \<open>C9: for every instant of the years 0 to 9999 the strict parser of the stream store and the
  lenient parser of the inspection routes both read back the instant the printer wrote.\<close>

theorem iso_print_parse_roundtrip:
  assumes "iso_range t"
  shows "parse_iso_ms_opt (epoch_ms_to_iso t) = Some t
    \<and> parse_iso_to_epoch_ms_inspect (epoch_ms_to_iso t) = Some t"
proof -
  obtain y m d h mi s ms where t: "valid_date y m d" "valid_clock h mi s ms"
    "t = days_from_civil y m d * 86400000 + clock_ms h mi s ms" by (rule epoch_ms_split)
  have "0 \<le> y" "y \<le> 9999" using iso_range_year [OF t assms] by simp_all
  then have "parse_iso_ms_opt (epoch_ms_to_iso t) = Some t"
    using parse_iso_text [OF t(1,2)] printers_text(1) [OF t] t(3) by simp
  with parse_inspect_of_canonical show ?thesis by blast
qed

theorem iso_print_parse_roundtrip_witness:
  "iso_range 1700000000123 \<and>
   parse_iso_ms_opt (epoch_ms_to_iso 1700000000123) = Some 1700000000123
    \<and> parse_iso_to_epoch_ms_inspect (epoch_ms_to_iso 1700000000123) = Some 1700000000123"
  using iso_print_parse_roundtrip [of 1700000000123] by (simp add: iso_range_def)

text \<open>On instants of the years 0 to 9999 the byte order of the printed text is the order of
  time, in both directions, which the textual comparisons of the claim, expiry and retention
  queries rely on.\<close>

theorem iso_text_order_is_time_order:
  assumes "iso_range t" "iso_range u"
  shows "(epoch_ms_to_iso t < epoch_ms_to_iso u \<longleftrightarrow> t < u)
    \<and> (epoch_ms_to_iso t \<le> epoch_ms_to_iso u \<longleftrightarrow> t \<le> u)
    \<and> (epoch_ms_to_iso t = epoch_ms_to_iso u \<longleftrightarrow> t = u)"
  using epoch_ms_to_iso_less_iff [OF assms] epoch_ms_to_iso_less_iff [OF assms(2,1)]
  by (metis less_le_not_le linorder_less_linear order.order_iff_strict)

theorem iso_text_order_is_time_order_witness:
  "iso_range 951782400000 \<and> iso_range 951868800000 \<and>
   epoch_ms_to_iso 951782400000 = ''2000-02-29T00:00:00.000Z'' \<and>
   epoch_ms_to_iso 951782400000 < epoch_ms_to_iso 951868800000"
proof -
  have "epoch_ms_to_iso 951782400000 = ''2000-02-29T00:00:00.000Z''" by code_simp
  then show ?thesis using iso_text_order_is_time_order [of 951782400000 951868800000]
    by (simp add: iso_range_def)
qed

text \<open>The day-number algorithm is a bijection between all integers and the valid proleptic
  Gregorian dates: every day number gives a valid date that converts back to it, and every valid
  date is the date of its day number.\<close>

theorem civil_calendar_bijection:
  "(case civil_from_days n of (y, m, d) \<Rightarrow> valid_date y m d \<and> days_from_civil y m d = n)
   \<and> (valid_date y m d \<longrightarrow> civil_from_days (days_from_civil y m d) = (y, m, d))"
  using civil_from_days_valid [of n] civil_from_days_inverse [of n] days_from_civil_inverse [of y m d]
  by (auto split: prod.splits)

theorem civil_calendar_bijection_witness:
  "valid_date 2024 2 29 \<and> civil_from_days (days_from_civil 2024 2 29) = (2024, 2, 29)"
proof -
  have "valid_date 2024 2 29" by code_simp
  then show ?thesis using civil_calendar_bijection [of 0 2024 2 29] by simp
qed

end
