(* ===== verification/FrickValue.thy ===== *)
theory FrickValue
  imports FrickPrelude "HOL-Library.Word" "HOL-Library.Multiset"
begin

text \<open>
  Dynamic msgpack values (\<open>frick-protocol/src/value.rs\<close>): the value type of the wire, its
  accessors, and the key-sorted normal form \<open>stable_value\<close> that schemas are serialized in.

  \<open>value\<close> has one constructor per msgpack family.  \<open>VStringErr\<close> is a \<open>str\<close> whose bytes are not
  UTF-8 (kept by the decoder, but \<open>as_str\<close> misses); floats are their IEEE bit patterns.
\<close>

datatype "value" =
    VNil
  | VBoolean bool
  | VInteger int
  | VF32 "32 word"
  | VF64 "64 word"
  | VString string
  | VStringErr string
  | VBinary string
  | VArray "value list"
  | VMap "(value \<times> value) list"
  | VExt int string

section \<open>Accessors\<close>

fun as_str :: "value \<Rightarrow> string option" where
  "as_str (VString s) = Some s"
| "as_str _ = None"

fun as_bool :: "value \<Rightarrow> bool option" where
  "as_bool (VBoolean b) = Some b"
| "as_bool _ = None"

fun as_i64 :: "value \<Rightarrow> int option" where
  "as_i64 (VInteger i) = (if - (2 ^ 63) \<le> i \<and> i < 2 ^ 63 then Some i else None)"
| "as_i64 _ = None"

fun as_u64 :: "value \<Rightarrow> int option" where
  "as_u64 (VInteger i) = (if 0 \<le> i \<and> i < 2 ^ 64 then Some i else None)"
| "as_u64 _ = None"

fun as_array :: "value \<Rightarrow> value list option" where
  "as_array (VArray xs) = Some xs"
| "as_array _ = None"

fun as_map :: "value \<Rightarrow> (value \<times> value) list option" where
  "as_map (VMap es) = Some es"
| "as_map _ = None"

lemma as_str_Some [simp]: "as_str v = Some s \<longleftrightarrow> v = VString s"
  by (cases v) auto

lemma as_map_Some [simp]: "as_map v = Some es \<longleftrightarrow> v = VMap es"
  by (cases v) auto

lemma as_array_Some [simp]: "as_array v = Some xs \<longleftrightarrow> v = VArray xs"
  by (cases v) auto

lemma as_bool_Some [simp]: "as_bool v = Some b \<longleftrightarrow> v = VBoolean b"
  by (cases v) auto

section \<open>UTF-16 code units\<close>

text \<open>\<open>str::encode_utf16\<close>: decode the UTF-8 bytes to scalar values, one unit below \<open>0x10000\<close>,
  a surrogate pair above.\<close>

definition cont_bits :: "string \<Rightarrow> nat \<Rightarrow> nat" where
  "cont_bits bs i = (if i < length bs then (of_char (bs ! i) :: nat) mod 64 else 0)"

fun encode_utf16 :: "string \<Rightarrow> nat list" where
  "encode_utf16 [] = []"
| "encode_utf16 (b # bs) =
    (let n = (of_char b :: nat) in
     if n < 128 then n # encode_utf16 bs
     else if n < 224 then ((n mod 32) * 64 + cont_bits bs 0) # encode_utf16 (drop 1 bs)
     else if n < 240 then
       ((n mod 16) * 4096 + cont_bits bs 0 * 64 + cont_bits bs 1) # encode_utf16 (drop 2 bs)
     else let c = (n mod 8) * 262144 + cont_bits bs 0 * 4096 + cont_bits bs 1 * 64
                  + cont_bits bs 2 - 65536
          in (55296 + c div 1024) # (56320 + c mod 1024) # encode_utf16 (drop 3 bs))"

text \<open>\<open>str::chars\<close> as the byte groups of the characters, and \<open>str::trim\<close>.\<close>

definition utf8_more :: "char \<Rightarrow> nat" where
  "utf8_more b = (if (of_char b :: nat) < 128 then 0 else if (of_char b :: nat) < 224 then 1
     else if (of_char b :: nat) < 240 then 2 else 3)"

fun utf8_chars :: "string \<Rightarrow> string list" where
  "utf8_chars [] = []"
| "utf8_chars (b # bs) = (b # take (utf8_more b) bs) # utf8_chars (drop (utf8_more b) bs)"

definition is_whitespace_unit :: "nat \<Rightarrow> bool" where
  "is_whitespace_unit u \<longleftrightarrow> (9 \<le> u \<and> u \<le> 13) \<or> u = 32 \<or> u = 133 \<or> u = 160 \<or> u = 5760
     \<or> (8192 \<le> u \<and> u \<le> 8202) \<or> u = 8232 \<or> u = 8233 \<or> u = 8239 \<or> u = 8287 \<or> u = 12288"

definition is_whitespace_char :: "string \<Rightarrow> bool" where
  "is_whitespace_char c = list_all is_whitespace_unit (encode_utf16 c)"

definition str_trim :: "string \<Rightarrow> string" where
  "str_trim s = concat (rev (dropWhile is_whitespace_char (rev (dropWhile is_whitespace_char (utf8_chars s)))))"

section \<open>The stable form\<close>

definition stable_key :: "value \<times> value \<Rightarrow> nat list" where
  "stable_key e = encode_utf16 (case as_str (fst e) of None \<Rightarrow> [] | Some s \<Rightarrow> s)"

lemma size_snd_entry: "e \<in> set entries \<Longrightarrow> size (snd e) < Suc (size_list (size_prod size size) entries)"
  by (induction entries) auto

lemma size_item: "v \<in> set items \<Longrightarrow> size v < Suc (size_list size items)"
  by (induction items) auto

function stable_value :: "value \<Rightarrow> value" where
  "stable_value (VArray items) = VArray (map stable_value items)"
| "stable_value (VMap entries) =
     VMap (sort_key stable_key (map (\<lambda>e. (fst e, stable_value (snd e))) entries))"
| "stable_value VNil = VNil"
| "stable_value (VBoolean b) = VBoolean b"
| "stable_value (VInteger i) = VInteger i"
| "stable_value (VF32 w) = VF32 w"
| "stable_value (VF64 w) = VF64 w"
| "stable_value (VString s) = VString s"
| "stable_value (VStringErr s) = VStringErr s"
| "stable_value (VBinary s) = VBinary s"
| "stable_value (VExt t s) = VExt t s"
  by pat_completeness auto

termination
  by (relation "measure size") (auto intro: size_snd_entry size_item)

text \<open>Normal forms: at every depth the entries of a map are in key order.\<close>

inductive stable_form :: "value \<Rightarrow> bool" where
  leaf: "as_array v = None \<Longrightarrow> as_map v = None \<Longrightarrow> stable_form v"
| items: "(\<And>v. v \<in> set vs \<Longrightarrow> stable_form v) \<Longrightarrow> stable_form (VArray vs)"
| entries: "(\<And>e. e \<in> set es \<Longrightarrow> stable_form (snd e)) \<Longrightarrow> sorted (map stable_key es)
    \<Longrightarrow> stable_form (VMap es)"

lemma stable_form_stable_value: "stable_form (stable_value v)"
proof (induction v rule: stable_value.induct)
  case (1 items)
  then show ?case by (auto intro!: stable_form.items)
next
  case (2 entries)
  then show ?case by (auto intro!: stable_form.entries)
qed (auto intro: stable_form.leaf)

lemma stable_value_of_form: "stable_form v \<Longrightarrow> stable_value v = v"
proof (induction rule: stable_form.induct)
  case (leaf v)
  then show ?case by (cases v) auto
next
  case (items vs)
  then show ?case by (simp add: map_idI)
next
  case (entries es)
  have "map (\<lambda>e. (fst e, stable_value (snd e))) es = es"
    by (intro map_idI) (simp add: entries.IH)
  moreover have "sort_key stable_key es = es"
    using entries.hyps(2) by (simp add: sort_key_id_if_sorted)
  ultimately show ?case by simp
qed

text \<open>Two values that differ only in the order of map entries.  Keys of one map must be
  different in the sort order, as the keys of a schema are.\<close>

inductive same_up_to_order :: "value \<Rightarrow> value \<Rightarrow> bool" where
  same: "same_up_to_order v v"
| items: "list_all2 same_up_to_order vs ws \<Longrightarrow> same_up_to_order (VArray vs) (VArray ws)"
| entries: "list_all2 (\<lambda>e e'. fst e = fst e' \<and> same_up_to_order (snd e) (snd e')) es es'
    \<Longrightarrow> mset es' = mset es'' \<Longrightarrow> distinct (map stable_key es')
    \<Longrightarrow> same_up_to_order (VMap es) (VMap es'')"

lemma sort_key_perm:
  assumes "mset xs = mset ys" "distinct (map f xs)"
  shows "sort_key f xs = sort_key f ys"
proof -
  have "inj_on f (set xs)" using assms(2) by (simp add: distinct_map)
  moreover have "mset xs = mset (sort_key f ys)" using assms(1) by simp
  ultimately show ?thesis by (intro sort_key_inj_key_eq) auto
qed

lemma stable_value_order_independent:
  "same_up_to_order v w \<Longrightarrow> stable_value v = stable_value w"
proof (induction rule: same_up_to_order.induct)
  case (items vs ws)
  then have "map stable_value vs = map stable_value ws"
    by (induction rule: list_all2_induct) auto
  then show ?case by simp
next
  case (entries es es' es'')
  let ?st = "\<lambda>e. (fst e, stable_value (snd e))"
  from entries.IH have m: "map ?st es = map ?st es'"
    by (induction rule: list_all2_induct) auto
  have "mset (map ?st es') = mset (map ?st es'')" using entries.hyps(1) by simp
  moreover have "map stable_key (map ?st es') = map stable_key es'"
    by (simp add: stable_key_def)
  then have "distinct (map stable_key (map ?st es'))" using entries.hyps(2) by (simp only:)
  ultimately have "sort_key stable_key (map ?st es') = sort_key stable_key (map ?st es'')"
    by (rule sort_key_perm)
  with m show ?case by simp
qed simp

section \<open>Properties\<close>

text \<open>\<open>stable_value\<close> is a normal form of map order: its result is key-sorted at every depth,
  applying it again changes nothing, and two values that differ only in the order of the entries
  of their maps have the same stable form.\<close>

theorem stable_value_normal_form:
  "stable_form (stable_value v) \<and> stable_value (stable_value v) = stable_value v
   \<and> (same_up_to_order v w \<longrightarrow> stable_value v = stable_value w)"
  using stable_form_stable_value stable_value_of_form stable_value_order_independent by blast

theorem stable_value_normal_form_witness:
  "stable_value (VMap [(VString ''b'', VInteger 1), (VString ''a'', VNil)])
   = stable_value (VMap [(VString ''a'', VNil), (VString ''b'', VInteger 1)])"
proof -
  let ?es = "[(VString ''b'', VInteger 1), (VString ''a'', VNil)]"
  have "distinct (map stable_key ?es)" by code_simp
  then have "same_up_to_order (VMap ?es) (VMap (rev ?es))"
    by (intro same_up_to_order.entries [of _ ?es]) (auto intro: same_up_to_order.same)
  with stable_value_normal_form [of "VMap ?es" "VMap (rev ?es)"] show ?thesis by simp
qed

end
