(* ===== verification/FrickSchema.thy ===== *)
theory FrickSchema
  imports FrickValue
begin

text \<open>
  The schema AST of \<open>frick-protocol/src/schema.rs\<close>: its types, \<open>validate_schema\<close> with every error
  message in the order the code raises them, and the lookups.

  \<open>str::to_lowercase\<close> (Unicode case mapping) is the argument \<open>lc\<close> of the definitions that call it;
  nothing is assumed of it.  \<open>trim().is_empty()\<close> is \<open>blank\<close>: only Unicode white space.
\<close>

type_synonym protocol_error = string
type_synonym lowercase = "string \<Rightarrow> string"

section \<open>Types\<close>

datatype field_kind = FK_Id | FK_Ref | FK_String | FK_Bool | FK_Timestamp | FK_Int | FK_Bytes
  | FK_Enum | FK_Json

fun field_kind_as_str :: "field_kind \<Rightarrow> string" where
  "field_kind_as_str FK_Id = ''id''"
| "field_kind_as_str FK_Ref = ''ref''"
| "field_kind_as_str FK_String = ''string''"
| "field_kind_as_str FK_Bool = ''bool''"
| "field_kind_as_str FK_Timestamp = ''timestamp''"
| "field_kind_as_str FK_Int = ''int''"
| "field_kind_as_str FK_Bytes = ''bytes''"
| "field_kind_as_str FK_Enum = ''enum''"
| "field_kind_as_str FK_Json = ''json''"

datatype field_sensitivity = FS_Public | FS_Private | FS_Pii | FS_Secret | FS_Content

fun field_sensitivity_as_str :: "field_sensitivity \<Rightarrow> string" where
  "field_sensitivity_as_str FS_Public = ''public''"
| "field_sensitivity_as_str FS_Private = ''private''"
| "field_sensitivity_as_str FS_Pii = ''pii''"
| "field_sensitivity_as_str FS_Secret = ''secret''"
| "field_sensitivity_as_str FS_Content = ''content''"

definition parse_field_sensitivity :: "string \<Rightarrow> field_sensitivity option" where
  "parse_field_sensitivity t =
     (if t = ''public'' then Some FS_Public else if t = ''private'' then Some FS_Private
      else if t = ''pii'' then Some FS_Pii else if t = ''secret'' then Some FS_Secret
      else if t = ''content'' then Some FS_Content else None)"

definition default_field_sensitivity :: field_sensitivity where
  "default_field_sensitivity = FS_Private"

datatype merge_policy = LastWriteWins | VersionPrecondition

record field_def =
  fd_id :: int
  fd_name :: string
  fd_kind :: field_kind
  fd_required :: bool
  fd_ref :: "string option"
  fd_enum_values :: "string list option"
  fd_sensitivity :: "string option"

record index_def =
  ix_id :: int
  ix_name :: string
  ix_fields :: "string list"

record object_def =
  ob_id :: int
  ob_name :: string
  ob_fields :: "field_def list"
  ob_indexes :: "index_def list"
  ob_merge_policy :: "merge_policy option"

record stream_def =
  sm_id :: int
  sm_name :: string
  sm_key_fields :: "field_def list"
  sm_events :: "string list"

record event_def =
  ev_id :: int
  ev_name :: string
  ev_fields :: "field_def list"

record presence_def =
  pr_id :: int
  pr_name :: string
  pr_key_fields :: "field_def list"
  pr_fields :: "field_def list"
  pr_ttl_ms :: int

record signal_def =
  sg_id :: int
  sg_name :: string
  sg_key_fields :: "field_def list"
  sg_fields :: "field_def list"
  sg_ttl_ms :: int

record blob_def =
  bl_id :: int
  bl_name :: string
  bl_metadata_fields :: "field_def list"

record job_def =
  jd_id :: int
  jd_name :: string
  jd_fields :: "field_def list"

record projection_def =
  pj_id :: int
  pj_name :: string
  pj_source :: string
  pj_fields :: "field_def list"
  pj_indexes :: "index_def list"

record frick_schema =
  sc_name :: string
  sc_schema_id :: string
  sc_schema_version :: string
  sc_schema_revision :: int
  sc_minimum_client_revision :: int
  sc_minimum_server_revision :: int
  sc_protocol :: string
  sc_protocol_version :: int
  sc_compatibility :: string
  sc_hash :: string
  sc_objects :: "object_def list"
  sc_streams :: "stream_def list"
  sc_events :: "event_def list"
  sc_presences :: "presence_def list"
  sc_signals :: "signal_def list"
  sc_blobs :: "blob_def list"
  sc_jobs :: "job_def list"
  sc_projections :: "projection_def list"

definition resolve_sensitivity :: "field_def \<Rightarrow> field_sensitivity" where
  "resolve_sensitivity f =
     (case Option.bind (fd_sensitivity f) parse_field_sensitivity of
        None \<Rightarrow> default_field_sensitivity | Some s \<Rightarrow> s)"

section \<open>Validation\<close>

definition blank :: "string \<Rightarrow> bool" where
  "blank s \<longleftrightarrow> str_trim s = []"

definition validate_schema_identity :: "frick_schema \<Rightarrow> (protocol_error, unit) result" where
  "validate_schema_identity schema =
    (if blank (sc_schema_id schema) then Err ''schemaId must be a non-empty string''
     else if blank (sc_schema_version schema) then Err ''schemaVersion must be a non-empty string''
     else if sc_schema_revision schema \<le> 0 then Err ''schemaRevision must be a positive integer''
     else if sc_minimum_client_revision schema \<le> 0
       then Err ''minimumClientRevision must be a positive integer''
     else if sc_minimum_server_revision schema \<le> 0
       then Err ''minimumServerRevision must be a positive integer''
     else Ok ())"

fun validate_type_set_loop ::
  "lowercase \<Rightarrow> string \<Rightarrow> int list \<Rightarrow> string list \<Rightarrow> (int \<times> string) list \<Rightarrow> (protocol_error, unit) result"
where
  "validate_type_set_loop lc label ids names [] = Ok ()"
| "validate_type_set_loop lc label ids names ((i, name) # types) =
    (if i \<in> set ids then Err (''Duplicate '' @ label @ '' id '' @ dec_int i)
     else if lc name \<in> set names then Err (''Duplicate '' @ label @ '' name '' @ name)
     else validate_type_set_loop lc label (i # ids) (lc name # names) types)"

definition validate_type_set ::
  "lowercase \<Rightarrow> (int \<times> string) list \<Rightarrow> string \<Rightarrow> (protocol_error, unit) result" where
  "validate_type_set lc types label = validate_type_set_loop lc label [] [] types"

record ref_targets =
  rt_object_names :: "string list"
  rt_blob_names :: "string list"

definition validate_field :: "string \<Rightarrow> ref_targets \<Rightarrow> field_def \<Rightarrow> (protocol_error, unit) result" where
  "validate_field owner refs field =
    rbind (case fd_ref field of
        Some target \<Rightarrow>
          if fd_kind field = FK_Ref \<and> target \<noteq> [] \<and> target \<notin> set (rt_object_names refs)
             \<and> target \<notin> set (rt_blob_names refs)
          then Err (''Unknown ref target '' @ target @ '' in '' @ owner @ ''.'' @ fd_name field)
          else Ok ()
      | None \<Rightarrow> Ok ()) (\<lambda>_.
    rbind (if fd_kind field = FK_Enum
              \<and> (case fd_enum_values field of None \<Rightarrow> True | Some vs \<Rightarrow> vs = [])
           then Err (''Enum field '' @ owner @ ''.'' @ fd_name field @ '' must declare enumValues'')
           else Ok ()) (\<lambda>_.
    case fd_sensitivity field of
        Some s \<Rightarrow>
          if parse_field_sensitivity s = None
          then Err (''Unknown sensitivity \"'' @ s @ ''\" for field '' @ owner @ ''.'' @ fd_name field)
          else Ok ()
      | None \<Rightarrow> Ok ()))"

fun validate_fields_loop ::
  "lowercase \<Rightarrow> string \<Rightarrow> ref_targets \<Rightarrow> int list \<Rightarrow> string list \<Rightarrow> field_def list
    \<Rightarrow> (protocol_error, unit) result"
where
  "validate_fields_loop lc owner refs ids names [] = Ok ()"
| "validate_fields_loop lc owner refs ids names (field # fds) =
    (if fd_id field \<in> set ids
       then Err (''Duplicate field id '' @ dec_int (fd_id field) @ '' in '' @ owner)
     else if lc (fd_name field) \<in> set names
       then Err (''Duplicate field name '' @ owner @ ''.'' @ fd_name field)
     else rbind (validate_field owner refs field) (\<lambda>_.
       validate_fields_loop lc owner refs (fd_id field # ids) (lc (fd_name field) # names) fds))"

definition validate_fields ::
  "lowercase \<Rightarrow> string \<Rightarrow> field_def list \<Rightarrow> ref_targets \<Rightarrow> (protocol_error, unit) result" where
  "validate_fields lc owner fds refs = validate_fields_loop lc owner refs [] [] fds"

definition validate_indexes ::
  "lowercase \<Rightarrow> string \<Rightarrow> field_def list \<Rightarrow> index_def list \<Rightarrow> (protocol_error, unit) result" where
  "validate_indexes lc owner fds indexes =
    rbind (validate_type_set lc (map (\<lambda>x. (ix_id x, ix_name x)) indexes) (owner @ '' index'')) (\<lambda>_.
      rfor (\<lambda>index. rfor (\<lambda>field_name.
          if field_name \<notin> set (map fd_name fds)
          then Err (''Unknown index field '' @ owner @ ''.'' @ ix_name index @ ''.'' @ field_name)
          else Ok ()) (ix_fields index)) indexes)"

definition validate_schema :: "lowercase \<Rightarrow> frick_schema \<Rightarrow> (protocol_error, unit) result" where
  "validate_schema lc schema =
    (if sc_protocol schema \<noteq> ''frick.realtime''
       then Err (''Unsupported protocol: '' @ sc_protocol schema)
     else if sc_compatibility schema \<noteq> ''greenfield-cutover''
       then Err (''Unsupported compatibility mode: '' @ sc_compatibility schema)
     else
      rbind (validate_schema_identity schema) (\<lambda>_.
      rbind (validate_type_set lc (map (\<lambda>t. (ob_id t, ob_name t)) (sc_objects schema)) ''object'') (\<lambda>_.
      rbind (validate_type_set lc (map (\<lambda>t. (sm_id t, sm_name t)) (sc_streams schema)) ''stream'') (\<lambda>_.
      rbind (validate_type_set lc (map (\<lambda>t. (ev_id t, ev_name t)) (sc_events schema)) ''event'') (\<lambda>_.
      rbind (validate_type_set lc (map (\<lambda>t. (pr_id t, pr_name t)) (sc_presences schema)) ''presence'') (\<lambda>_.
      rbind (validate_type_set lc (map (\<lambda>t. (sg_id t, sg_name t)) (sc_signals schema)) ''signal'') (\<lambda>_.
      rbind (validate_type_set lc (map (\<lambda>t. (bl_id t, bl_name t)) (sc_blobs schema)) ''blob'') (\<lambda>_.
      rbind (validate_type_set lc (map (\<lambda>t. (jd_id t, jd_name t)) (sc_jobs schema)) ''job'') (\<lambda>_.
      rbind (validate_type_set lc (map (\<lambda>t. (pj_id t, pj_name t)) (sc_projections schema)) ''projection'') (\<lambda>_.
      let object_names = map ob_name (sc_objects schema);
          event_names = map ev_name (sc_events schema);
          stream_names = map sm_name (sc_streams schema);
          blob_names = map bl_name (sc_blobs schema);
          refs = \<lparr>rt_object_names = object_names, rt_blob_names = blob_names\<rparr>
      in
      rbind (rfor (\<lambda>object.
          rbind (validate_fields lc (ob_name object) (ob_fields object) refs) (\<lambda>_.
          validate_indexes lc (ob_name object) (ob_fields object) (ob_indexes object)))
        (sc_objects schema)) (\<lambda>_.
      rbind (rfor (\<lambda>stream.
          rbind (validate_fields lc (sm_name stream @ ''.key'') (sm_key_fields stream) refs) (\<lambda>_.
          rfor (\<lambda>event. if event \<notin> set event_names
              then Err (''Unknown stream event '' @ event @ '' in '' @ sm_name stream)
              else Ok ()) (sm_events stream)))
        (sc_streams schema)) (\<lambda>_.
      rbind (rfor (\<lambda>event. validate_fields lc (ev_name event) (ev_fields event) refs)
        (sc_events schema)) (\<lambda>_.
      rbind (rfor (\<lambda>presence.
          rbind (validate_fields lc (pr_name presence @ ''.key'') (pr_key_fields presence) refs) (\<lambda>_.
          validate_fields lc (pr_name presence) (pr_fields presence) refs))
        (sc_presences schema)) (\<lambda>_.
      rbind (rfor (\<lambda>signal.
          rbind (validate_fields lc (sg_name signal @ ''.key'') (sg_key_fields signal) refs) (\<lambda>_.
          validate_fields lc (sg_name signal) (sg_fields signal) refs))
        (sc_signals schema)) (\<lambda>_.
      rbind (rfor (\<lambda>blob. validate_fields lc (bl_name blob) (bl_metadata_fields blob) refs)
        (sc_blobs schema)) (\<lambda>_.
      rbind (rfor (\<lambda>job. validate_fields lc (jd_name job) (jd_fields job) refs)
        (sc_jobs schema)) (\<lambda>_.
      rfor (\<lambda>projection.
          if pj_source projection \<notin> set stream_names \<and> pj_source projection \<notin> set object_names
          then Err (''Unknown projection source '' @ pj_source projection @ '' in ''
                    @ pj_name projection)
          else rbind (validate_fields lc (pj_name projection) (pj_fields projection) refs) (\<lambda>_.
            validate_indexes lc (pj_name projection) (pj_fields projection) (pj_indexes projection)))
        (sc_projections schema))))))))))))))))))"

section \<open>Lookups\<close>

definition find_by_name :: "('t \<Rightarrow> string) \<Rightarrow> 't list \<Rightarrow> string \<Rightarrow> string \<Rightarrow> (protocol_error, 't) result" where
  "find_by_name get_name types label name =
     ok_or (''Unknown '' @ label @ '': '' @ name) (find (\<lambda>candidate. get_name candidate = name) types)"

definition find_by_id :: "('t \<Rightarrow> int) \<Rightarrow> 't list \<Rightarrow> string \<Rightarrow> int \<Rightarrow> (protocol_error, 't) result" where
  "find_by_id get_id types label i =
     ok_or (''Unknown '' @ label @ '' id: '' @ dec_int i) (find (\<lambda>candidate. get_id candidate = i) types)"

definition object_by_name where
  "object_by_name schema name = find_by_name ob_name (sc_objects schema) ''object'' name"
definition object_by_id where
  "object_by_id schema i = find_by_id ob_id (sc_objects schema) ''object'' i"
definition stream_by_name where
  "stream_by_name schema name = find_by_name sm_name (sc_streams schema) ''stream'' name"
definition stream_by_id where
  "stream_by_id schema i = find_by_id sm_id (sc_streams schema) ''stream'' i"
definition event_by_name where
  "event_by_name schema name = find_by_name ev_name (sc_events schema) ''event'' name"
definition event_by_id where
  "event_by_id schema i = find_by_id ev_id (sc_events schema) ''event'' i"
definition presence_by_name where
  "presence_by_name schema name = find_by_name pr_name (sc_presences schema) ''presence'' name"
definition presence_by_id where
  "presence_by_id schema i = find_by_id pr_id (sc_presences schema) ''presence'' i"
definition signal_by_name where
  "signal_by_name schema name = find_by_name sg_name (sc_signals schema) ''signal'' name"
definition signal_by_id where
  "signal_by_id schema i = find_by_id sg_id (sc_signals schema) ''signal'' i"
definition blob_by_name where
  "blob_by_name schema name = find_by_name bl_name (sc_blobs schema) ''blob'' name"
definition job_by_name where
  "job_by_name schema name = find_by_name jd_name (sc_jobs schema) ''job'' name"
definition projection_by_name where
  "projection_by_name schema name = find_by_name pj_name (sc_projections schema) ''projection'' name"

definition resolve_object_merge_policy :: "frick_schema \<Rightarrow> string \<Rightarrow> merge_policy" where
  "resolve_object_merge_policy schema name =
     (case Option.bind (find (\<lambda>candidate. ob_name candidate = name) (sc_objects schema)) ob_merge_policy of
        None \<Rightarrow> LastWriteWins | Some p \<Rightarrow> p)"

definition field_by_name :: "field_def list \<Rightarrow> string \<Rightarrow> (protocol_error, field_def) result" where
  "field_by_name fds name =
     ok_or (''Unknown field '' @ name) (find (\<lambda>candidate. fd_name candidate = name) fds)"

definition field_by_id :: "field_def list \<Rightarrow> int \<Rightarrow> (protocol_error, field_def) result" where
  "field_by_id fds i =
     ok_or (''Unknown field id '' @ dec_int i) (find (\<lambda>candidate. fd_id candidate = i) fds)"

record blob_ref_field =
  brf_object_name :: string
  brf_field :: field_def
  brf_blob_name :: string

definition blob_ref_fields :: "frick_schema \<Rightarrow> blob_ref_field list" where
  "blob_ref_fields schema =
    (let blob_names = map bl_name (sc_blobs schema) in
     concat (map (\<lambda>object. concat (map (\<lambda>field.
       if fd_kind field = FK_Ref then
         (case fd_ref field of
            Some target \<Rightarrow> if target \<in> set blob_names
              then [\<lparr>brf_object_name = ob_name object, brf_field = field, brf_blob_name = target\<rparr>]
              else []
          | None \<Rightarrow> [])
       else []) (ob_fields object))) (sc_objects schema)))"

lemmas lookup_defs = object_by_name_def object_by_id_def stream_by_name_def stream_by_id_def
  event_by_name_def event_by_id_def presence_by_name_def presence_by_id_def
  signal_by_name_def signal_by_id_def blob_by_name_def job_by_name_def projection_by_name_def
  find_by_name_def find_by_id_def

section \<open>The foundation schema and a sample\<close>

definition foundation_schema :: frick_schema where
  "foundation_schema =
    \<lparr>sc_name = ''frick-foundation'', sc_schema_id = ''frick-foundation'', sc_schema_version = ''0.1.0'',
     sc_schema_revision = 1, sc_minimum_client_revision = 1, sc_minimum_server_revision = 1,
     sc_protocol = ''frick.realtime'', sc_protocol_version = 1,
     sc_compatibility = ''greenfield-cutover'', sc_hash = ''frick-foundation-empty-0.1.0'',
     sc_objects = [], sc_streams = [], sc_events = [], sc_presences = [], sc_signals = [],
     sc_blobs = [], sc_jobs = [], sc_projections = []\<rparr>"

text \<open>A small schema with one type of every wire family, used by the concrete instances below,
  and ASCII lower-casing as the case mapping.\<close>

definition plain_field :: "int \<Rightarrow> string \<Rightarrow> field_kind \<Rightarrow> field_def" where
  "plain_field i n k = \<lparr>fd_id = i, fd_name = n, fd_kind = k, fd_required = True, fd_ref = None,
     fd_enum_values = None, fd_sensitivity = None\<rparr>"

definition sample_schema :: frick_schema where
  "sample_schema = foundation_schema\<lparr>
     sc_objects := [\<lparr>ob_id = 1, ob_name = ''User'',
        ob_fields = [plain_field 1 ''displayName'' FK_String, plain_field 2 ''age'' FK_Int],
        ob_indexes = [], ob_merge_policy = None\<rparr>],
     sc_streams := [\<lparr>sm_id = 3, sm_name = ''Room'', sm_key_fields = [plain_field 1 ''roomId'' FK_Id],
        sm_events = [''Message'']\<rparr>],
     sc_events := [\<lparr>ev_id = 4, ev_name = ''Message'', ev_fields = [plain_field 1 ''text'' FK_String]\<rparr>],
     sc_presences := [\<lparr>pr_id = 5, pr_name = ''Typing'', pr_key_fields = [],
        pr_fields = [plain_field 1 ''on'' FK_Bool], pr_ttl_ms = 5000\<rparr>],
     sc_signals := [\<lparr>sg_id = 6, sg_name = ''Offer'', sg_key_fields = [],
        sg_fields = [plain_field 1 ''sdp'' FK_String], sg_ttl_ms = 5000\<rparr>]\<rparr>"

definition ascii_lower :: lowercase where
  "ascii_lower s = map (\<lambda>c. let n = (of_char c :: nat) in if 65 \<le> n \<and> n \<le> 90 then char_of (n + 32) else c) s"

section \<open>What a validated schema guarantees\<close>

text \<open>Well-formedness, stated without the checking order and the accumulators.\<close>

definition type_set_ok :: "lowercase \<Rightarrow> (int \<times> string) list \<Rightarrow> bool" where
  "type_set_ok lc ts \<longleftrightarrow> distinct (map fst ts) \<and> distinct (map (\<lambda>t. lc (snd t)) ts)"

definition field_ok :: "string set \<Rightarrow> field_def \<Rightarrow> bool" where
  "field_ok targets f \<longleftrightarrow>
     (fd_kind f = FK_Ref \<longrightarrow> (\<forall>t. fd_ref f = Some t \<longrightarrow> t = [] \<or> t \<in> targets))
   \<and> (fd_kind f = FK_Enum \<longrightarrow> (\<exists>v vs. fd_enum_values f = Some (v # vs)))
   \<and> (\<forall>s. fd_sensitivity f = Some s \<longrightarrow> s \<in> range field_sensitivity_as_str)"

definition fields_ok :: "lowercase \<Rightarrow> string set \<Rightarrow> field_def list \<Rightarrow> bool" where
  "fields_ok lc targets fs \<longleftrightarrow> distinct (map fd_id fs) \<and> distinct (map (\<lambda>f. lc (fd_name f)) fs)
     \<and> (\<forall>f \<in> set fs. field_ok targets f)"

definition indexes_ok :: "lowercase \<Rightarrow> field_def list \<Rightarrow> index_def list \<Rightarrow> bool" where
  "indexes_ok lc fs xs \<longleftrightarrow> type_set_ok lc (map (\<lambda>x. (ix_id x, ix_name x)) xs)
     \<and> (\<forall>x \<in> set xs. set (ix_fields x) \<subseteq> fd_name ` set fs)"

definition ref_names :: "frick_schema \<Rightarrow> string set" where
  "ref_names s = ob_name ` set (sc_objects s) \<union> bl_name ` set (sc_blobs s)"

definition identity_ok :: "frick_schema \<Rightarrow> bool" where
  "identity_ok s \<longleftrightarrow> sc_protocol s = ''frick.realtime'' \<and> sc_compatibility s = ''greenfield-cutover''
     \<and> \<not> blank (sc_schema_id s) \<and> \<not> blank (sc_schema_version s) \<and> 0 < sc_schema_revision s
     \<and> 0 < sc_minimum_client_revision s \<and> 0 < sc_minimum_server_revision s"

definition types_ok :: "lowercase \<Rightarrow> frick_schema \<Rightarrow> bool" where
  "types_ok lc s \<longleftrightarrow>
     type_set_ok lc (map (\<lambda>t. (ob_id t, ob_name t)) (sc_objects s))
   \<and> type_set_ok lc (map (\<lambda>t. (sm_id t, sm_name t)) (sc_streams s))
   \<and> type_set_ok lc (map (\<lambda>t. (ev_id t, ev_name t)) (sc_events s))
   \<and> type_set_ok lc (map (\<lambda>t. (pr_id t, pr_name t)) (sc_presences s))
   \<and> type_set_ok lc (map (\<lambda>t. (sg_id t, sg_name t)) (sc_signals s))
   \<and> type_set_ok lc (map (\<lambda>t. (bl_id t, bl_name t)) (sc_blobs s))
   \<and> type_set_ok lc (map (\<lambda>t. (jd_id t, jd_name t)) (sc_jobs s))
   \<and> type_set_ok lc (map (\<lambda>t. (pj_id t, pj_name t)) (sc_projections s))"

definition members_ok :: "lowercase \<Rightarrow> frick_schema \<Rightarrow> bool" where
  "members_ok lc s \<longleftrightarrow>
     (\<forall>t \<in> set (sc_objects s). fields_ok lc (ref_names s) (ob_fields t)
        \<and> indexes_ok lc (ob_fields t) (ob_indexes t))
   \<and> (\<forall>t \<in> set (sc_streams s). fields_ok lc (ref_names s) (sm_key_fields t)
        \<and> set (sm_events t) \<subseteq> ev_name ` set (sc_events s))
   \<and> (\<forall>t \<in> set (sc_events s). fields_ok lc (ref_names s) (ev_fields t))
   \<and> (\<forall>t \<in> set (sc_presences s). fields_ok lc (ref_names s) (pr_key_fields t)
        \<and> fields_ok lc (ref_names s) (pr_fields t))
   \<and> (\<forall>t \<in> set (sc_signals s). fields_ok lc (ref_names s) (sg_key_fields t)
        \<and> fields_ok lc (ref_names s) (sg_fields t))
   \<and> (\<forall>t \<in> set (sc_blobs s). fields_ok lc (ref_names s) (bl_metadata_fields t))
   \<and> (\<forall>t \<in> set (sc_jobs s). fields_ok lc (ref_names s) (jd_fields t))
   \<and> (\<forall>t \<in> set (sc_projections s).
        pj_source t \<in> sm_name ` set (sc_streams s) \<union> ob_name ` set (sc_objects s)
        \<and> fields_ok lc (ref_names s) (pj_fields t) \<and> indexes_ok lc (pj_fields t) (pj_indexes t))"

definition schema_wf :: "lowercase \<Rightarrow> frick_schema \<Rightarrow> bool" where
  "schema_wf lc s \<longleftrightarrow> identity_ok s \<and> types_ok lc s \<and> members_ok lc s"

lemma validate_type_set_loop_iff:
  "validate_type_set_loop lc label ids names ts = Inr u \<longleftrightarrow>
     distinct (map fst ts) \<and> distinct (map (\<lambda>t. lc (snd t)) ts)
     \<and> fst ` set ts \<inter> set ids = {} \<and> (\<lambda>t. lc (snd t)) ` set ts \<inter> set names = {}"
  by (induction lc label ids names ts rule: validate_type_set_loop.induct) auto

lemma validate_type_set_iff: "validate_type_set lc ts label = Inr u \<longleftrightarrow> type_set_ok lc ts"
  by (simp add: validate_type_set_def validate_type_set_loop_iff type_set_ok_def)

lemma parse_field_sensitivity_None:
  "parse_field_sensitivity s = None \<longleftrightarrow> s \<notin> range field_sensitivity_as_str"
proof -
  have U: "(UNIV :: field_sensitivity set) = {FS_Public, FS_Private, FS_Pii, FS_Secret, FS_Content}"
    using field_sensitivity.exhaust by auto
  have "range field_sensitivity_as_str = {''public'', ''private'', ''pii'', ''secret'', ''content''}"
    unfolding U by simp
  then show ?thesis by (simp add: parse_field_sensitivity_def)
qed

lemma validate_field_iff:
  "validate_field owner refs f = Inr u \<longleftrightarrow>
     field_ok (set (rt_object_names refs) \<union> set (rt_blob_names refs)) f"
  by (auto simp: validate_field_def field_ok_def parse_field_sensitivity_None neq_Nil_conv
      split: option.splits if_splits)

lemma validate_fields_loop_iff:
  "validate_fields_loop lc owner refs ids names fs = Inr u \<longleftrightarrow>
     distinct (map fd_id fs) \<and> distinct (map (\<lambda>f. lc (fd_name f)) fs)
     \<and> fd_id ` set fs \<inter> set ids = {} \<and> (\<lambda>f. lc (fd_name f)) ` set fs \<inter> set names = {}
     \<and> (\<forall>f \<in> set fs. field_ok (set (rt_object_names refs) \<union> set (rt_blob_names refs)) f)"
  by (induction lc owner refs ids names fs rule: validate_fields_loop.induct)
    (auto simp: validate_field_iff)

lemma validate_fields_iff:
  "validate_fields lc owner fs refs = Inr u \<longleftrightarrow>
     fields_ok lc (set (rt_object_names refs) \<union> set (rt_blob_names refs)) fs"
  by (simp add: validate_fields_def validate_fields_loop_iff fields_ok_def)

lemma guarded_Inr [simp]: "(if b then Inl e else Inr ()) = Inr u \<longleftrightarrow> \<not> b"
  by simp

lemma validate_indexes_iff: "validate_indexes lc owner fs xs = Inr u \<longleftrightarrow> indexes_ok lc fs xs"
  by (auto simp: validate_indexes_def validate_type_set_iff rfor_Inr_iff indexes_ok_def)

lemma validate_schema_identity_iff:
  "validate_schema_identity s = Inr u \<longleftrightarrow> \<not> blank (sc_schema_id s) \<and> \<not> blank (sc_schema_version s)
     \<and> 0 < sc_schema_revision s \<and> 0 < sc_minimum_client_revision s \<and> 0 < sc_minimum_server_revision s"
  by (auto simp: validate_schema_identity_def)

lemma validate_schema_iff: "validate_schema lc s = Inr u \<longleftrightarrow> schema_wf lc s"
  by (auto simp: validate_schema_def Let_def validate_schema_identity_iff validate_type_set_iff
      validate_fields_iff validate_indexes_iff rfor_Inr_iff schema_wf_def identity_ok_def types_ok_def
      members_ok_def ref_names_def)

lemma sample_schema_valid: "validate_schema ascii_lower sample_schema = Inr ()"
proof -
  have "\<not> blank ''frick-foundation''" "\<not> blank ''0.1.0''" by code_simp+
  moreover have "ascii_lower ''displayName'' \<noteq> ascii_lower ''age''" by code_simp
  ultimately show ?thesis
    by (simp add: validate_schema_iff schema_wf_def identity_ok_def types_ok_def members_ok_def
      sample_schema_def foundation_schema_def type_set_ok_def fields_ok_def indexes_ok_def
      field_ok_def plain_field_def)
qed

section \<open>Lookups of a validated schema\<close>

lemma find_by_name_of_id:
  assumes "distinct (map get_id ts)" "find_by_name get_name ts l n = Inr t"
  shows "find_by_id get_id ts l' (get_id t) = Inr t \<and> get_name t = n"
proof -
  from assms(2) have f: "find (\<lambda>c. get_name c = n) ts = Some t" by (simp add: find_by_name_def)
  from find_Some_set [OF f] find_distinct_key [OF assms(1), of t]
  show ?thesis by (simp add: find_by_id_def)
qed

lemma find_by_id_of_name:
  assumes "distinct (map get_name ts)" "find_by_id get_id ts l i = Inr t"
  shows "find_by_name get_name ts l' (get_name t) = Inr t \<and> get_id t = i"
proof -
  from assms(2) have f: "find (\<lambda>c. get_id c = i) ts = Some t" by (simp add: find_by_id_def)
  from find_Some_set [OF f] find_distinct_key [OF assms(1), of t]
  show ?thesis by (simp add: find_by_name_def)
qed

lemma distinct_map_lc: "distinct (map (\<lambda>t. lc (f t)) ts) \<Longrightarrow> distinct (map f ts)"
  by (induction ts) (auto simp: image_iff)

lemma type_set_ok_distinct:
  assumes "type_set_ok lc (map (\<lambda>t. (get_id t, get_name t)) ts)"
  shows "distinct (map get_id ts)" "distinct (map get_name ts)"
  using assms distinct_map_lc [of lc get_name ts] by (simp_all add: type_set_ok_def comp_def)

lemma lookup_inverse:
  assumes "type_set_ok lc (map (\<lambda>t. (get_id t, get_name t)) ts)"
  shows "(find_by_name get_name ts l n = Inr t \<longrightarrow> find_by_id get_id ts l (get_id t) = Inr t \<and> get_name t = n)
    \<and> (find_by_id get_id ts l i = Inr t \<longrightarrow> find_by_name get_name ts l (get_name t) = Inr t \<and> get_id t = i)"
  using find_by_name_of_id [of get_id ts get_name l n t l] find_by_id_of_name [of get_name ts get_id l i t l]
    type_set_ok_distinct [OF assms] by blast

lemma fields_ok_distinct:
  assumes "fields_ok lc targets fs"
  shows "distinct (map fd_id fs)" "distinct (map fd_name fs)"
  using assms distinct_map_lc [of lc fd_name fs] by (simp_all add: fields_ok_def)

section \<open>Properties\<close>

text \<open>C15: \<open>validate_schema\<close> accepts exactly the well-formed schemas: supported protocol and
  compatibility mode, non-blank identity and positive revisions, pairwise different ids and
  case-folded names in every type set, field list and index list, reference targets, index fields,
  stream events and projection sources that exist, enum fields with values, and known
  sensitivities.\<close>

theorem validate_schema_accepts_exactly_wf:
  "validate_schema lc s = Inr () \<longleftrightarrow> schema_wf lc s"
  by (rule validate_schema_iff)

text \<open>In a validated schema the lookups by name and by id are inverse to each other for every
  family of types that crosses the wire.\<close>

theorem validated_lookups_inverse:
  assumes "validate_schema lc s = Inr ()"
  shows "(object_by_name s n = Inr ob \<longrightarrow> object_by_id s (ob_id ob) = Inr ob \<and> ob_name ob = n)
    \<and> (object_by_id s i = Inr ob \<longrightarrow> object_by_name s (ob_name ob) = Inr ob \<and> ob_id ob = i)
    \<and> (stream_by_name s n = Inr st \<longrightarrow> stream_by_id s (sm_id st) = Inr st \<and> sm_name st = n)
    \<and> (stream_by_id s i = Inr st \<longrightarrow> stream_by_name s (sm_name st) = Inr st \<and> sm_id st = i)
    \<and> (event_by_name s n = Inr ev \<longrightarrow> event_by_id s (ev_id ev) = Inr ev \<and> ev_name ev = n)
    \<and> (event_by_id s i = Inr ev \<longrightarrow> event_by_name s (ev_name ev) = Inr ev \<and> ev_id ev = i)
    \<and> (presence_by_name s n = Inr pr \<longrightarrow> presence_by_id s (pr_id pr) = Inr pr \<and> pr_name pr = n)
    \<and> (presence_by_id s i = Inr pr \<longrightarrow> presence_by_name s (pr_name pr) = Inr pr \<and> pr_id pr = i)
    \<and> (signal_by_name s n = Inr sg \<longrightarrow> signal_by_id s (sg_id sg) = Inr sg \<and> sg_name sg = n)
    \<and> (signal_by_id s i = Inr sg \<longrightarrow> signal_by_name s (sg_name sg) = Inr sg \<and> sg_id sg = i)"
proof -
  have "types_ok lc s" using assms by (simp add: validate_schema_iff schema_wf_def)
  then have t: "type_set_ok lc (map (\<lambda>t. (ob_id t, ob_name t)) (sc_objects s))"
    "type_set_ok lc (map (\<lambda>t. (sm_id t, sm_name t)) (sc_streams s))"
    "type_set_ok lc (map (\<lambda>t. (ev_id t, ev_name t)) (sc_events s))"
    "type_set_ok lc (map (\<lambda>t. (pr_id t, pr_name t)) (sc_presences s))"
    "type_set_ok lc (map (\<lambda>t. (sg_id t, sg_name t)) (sc_signals s))"
    by (simp_all add: types_ok_def)
  show ?thesis
    unfolding object_by_name_def object_by_id_def stream_by_name_def stream_by_id_def
      event_by_name_def event_by_id_def presence_by_name_def presence_by_id_def
      signal_by_name_def signal_by_id_def
    using lookup_inverse [OF t(1), of "''object''" n ob i] lookup_inverse [OF t(2), of "''stream''" n st i]
      lookup_inverse [OF t(3), of "''event''" n ev i] lookup_inverse [OF t(4), of "''presence''" n pr i]
      lookup_inverse [OF t(5), of "''signal''" n sg i]
    by blast
qed

theorem validated_lookups_inverse_witness:
  "validate_schema ascii_lower sample_schema = Inr () \<and>
   (\<exists>ob. object_by_name sample_schema ''User'' = Inr ob \<and> object_by_id sample_schema 1 = Inr ob)"
proof -
  obtain ob where ob: "object_by_name sample_schema ''User'' = Inr ob" "ob_id ob = 1"
    by (simp add: object_by_name_def find_by_name_def sample_schema_def)
  from validated_lookups_inverse [OF sample_schema_valid, of "''User''" ob] ob sample_schema_valid
  show ?thesis by auto
qed

end
