(* ===== verification/FrickCodec.thy ===== *)
theory FrickCodec
  imports FrickSchema
begin

text \<open>
  The packed-record codec of \<open>frick-protocol/src/codec.rs\<close>: records cross the wire as positional
  arrays of numeric field ids.  Packing resolves names to ids in the order of the value map,
  unpacking resolves ids to names with the assignment semantics of a JavaScript object (first
  insertion keeps its position, last write wins).
\<close>

section \<open>Types\<close>

type_synonym packed_field = "int \<times> value"
type_synonym packed_record = "int \<times> string \<times> packed_field list"

record packed_stream_event =
  pse_stream :: int
  pse_key :: string
  pse_sequence :: int
  pse_event_id :: string
  pse_event :: int
  pse_fields :: "packed_field list"

record stream_event_input =
  sei_stream :: string
  sei_stream_id :: string
  sei_sequence :: int
  sei_event_id :: string
  sei_event :: string
  sei_payload :: "value"

record unpacked_record =
  ur_record_type :: string
  ur_id :: string
  ur_value :: "value"

record unpacked_keyed_record =
  uk_record_type :: string
  uk_key :: string
  uk_value :: "value"

section \<open>Fields\<close>

definition field_name_of_key :: "value \<Rightarrow> (protocol_error, string) result" where
  "field_name_of_key key = (case key of
      VString text \<Rightarrow> Ok text
    | VStringErr _ \<Rightarrow> Err ''expected string field names''
    | VInteger i \<Rightarrow> Ok (dec_int i)
    | _ \<Rightarrow> Err ''expected string field names'')"

definition pack_fields :: "field_def list \<Rightarrow> value \<Rightarrow> (protocol_error, packed_field list) result" where
  "pack_fields fds v = (case v of
      VMap entries \<Rightarrow> rmap (\<lambda>(key, entry).
          rbind (field_name_of_key key) (\<lambda>name.
          rbind (field_by_name fds name) (\<lambda>field. Ok (fd_id field, entry)))) entries
    | VBoolean _ \<Rightarrow> Ok []
    | VInteger _ \<Rightarrow> Ok []
    | VF32 _ \<Rightarrow> Ok []
    | VF64 _ \<Rightarrow> Ok []
    | _ \<Rightarrow> Err ''expected an object value'')"

text \<open>One step of the assignment loop: overwrite the first entry of that name or push.\<close>

fun set_entry :: "string \<Rightarrow> value \<Rightarrow> (value \<times> value) list \<Rightarrow> (value \<times> value) list" where
  "set_entry name v [] = [(VString name, v)]"
| "set_entry name v ((k, slot) # entries) =
     (if as_str k = Some name then (k, v) # entries else (k, slot) # set_entry name v entries)"

fun unpack_fields_into ::
  "field_def list \<Rightarrow> packed_field list \<Rightarrow> (value \<times> value) list
    \<Rightarrow> (protocol_error, (value \<times> value) list) result"
where
  "unpack_fields_into fds [] entries = Ok entries"
| "unpack_fields_into fds ((field_id, v) # packed) entries =
     rbind (field_by_id fds field_id) (\<lambda>field.
       unpack_fields_into fds packed (set_entry (fd_name field) v entries))"

definition unpack_fields :: "field_def list \<Rightarrow> packed_field list \<Rightarrow> (protocol_error, value) result" where
  "unpack_fields fds packed = rbind (unpack_fields_into fds packed []) (\<lambda>entries. Ok (VMap entries))"

section \<open>Records\<close>

definition pack_object_record ::
  "frick_schema \<Rightarrow> string \<Rightarrow> string \<Rightarrow> value \<Rightarrow> (protocol_error, packed_record) result" where
  "pack_object_record schema object_name object_id v =
     rbind (object_by_name schema object_name) (\<lambda>object.
     rbind (pack_fields (ob_fields object) v) (\<lambda>packed. Ok (ob_id object, object_id, packed)))"

definition unpack_object_record ::
  "frick_schema \<Rightarrow> packed_record \<Rightarrow> (protocol_error, unpacked_record) result" where
  "unpack_object_record schema packed =
    (case packed of (type_id, record_id, packed_fields) \<Rightarrow>
     rbind (object_by_id schema type_id) (\<lambda>object.
     rbind (unpack_fields_into (ob_fields object) packed_fields
              [(VString ''id'', VString record_id)]) (\<lambda>entries.
     Ok \<lparr>ur_record_type = ob_name object, ur_id = record_id, ur_value = VMap entries\<rparr>)))"

definition pack_stream_event ::
  "frick_schema \<Rightarrow> stream_event_input \<Rightarrow> (protocol_error, packed_stream_event) result" where
  "pack_stream_event schema input =
     rbind (stream_by_name schema (sei_stream input)) (\<lambda>stream.
     rbind (event_by_name schema (sei_event input)) (\<lambda>event.
     rbind (pack_fields (ev_fields event) (sei_payload input)) (\<lambda>packed.
     Ok \<lparr>pse_stream = sm_id stream, pse_key = sei_stream_id input, pse_sequence = sei_sequence input,
         pse_event_id = sei_event_id input, pse_event = ev_id event, pse_fields = packed\<rparr>)))"

definition unpack_stream_event ::
  "frick_schema \<Rightarrow> packed_stream_event \<Rightarrow> (protocol_error, stream_event_input) result" where
  "unpack_stream_event schema packed =
     rbind (stream_by_id schema (pse_stream packed)) (\<lambda>stream.
     rbind (event_by_id schema (pse_event packed)) (\<lambda>event.
     rbind (unpack_fields (ev_fields event) (pse_fields packed)) (\<lambda>payload.
     Ok \<lparr>sei_stream = sm_name stream, sei_stream_id = pse_key packed,
         sei_sequence = pse_sequence packed, sei_event_id = pse_event_id packed,
         sei_event = ev_name event, sei_payload = payload\<rparr>)))"

definition pack_presence_record ::
  "frick_schema \<Rightarrow> string \<Rightarrow> string \<Rightarrow> value \<Rightarrow> (protocol_error, packed_record) result" where
  "pack_presence_record schema presence_name presence_key v =
     rbind (presence_by_name schema presence_name) (\<lambda>presence.
     rbind (pack_fields (pr_fields presence) v) (\<lambda>packed. Ok (pr_id presence, presence_key, packed)))"

definition unpack_presence_record ::
  "frick_schema \<Rightarrow> packed_record \<Rightarrow> (protocol_error, unpacked_keyed_record) result" where
  "unpack_presence_record schema packed =
    (case packed of (type_id, key, packed_fields) \<Rightarrow>
     rbind (presence_by_id schema type_id) (\<lambda>presence.
     rbind (unpack_fields (pr_fields presence) packed_fields) (\<lambda>v.
     Ok \<lparr>uk_record_type = pr_name presence, uk_key = key, uk_value = v\<rparr>)))"

definition pack_signal_envelope ::
  "frick_schema \<Rightarrow> string \<Rightarrow> string \<Rightarrow> value \<Rightarrow> (protocol_error, packed_record) result" where
  "pack_signal_envelope schema signal_name signal_key v =
     rbind (signal_by_name schema signal_name) (\<lambda>signal.
     rbind (pack_fields (sg_fields signal) v) (\<lambda>packed. Ok (sg_id signal, signal_key, packed)))"

definition unpack_signal_envelope ::
  "frick_schema \<Rightarrow> packed_record \<Rightarrow> (protocol_error, unpacked_keyed_record) result" where
  "unpack_signal_envelope schema packed =
    (case packed of (type_id, key, packed_fields) \<Rightarrow>
     rbind (signal_by_id schema type_id) (\<lambda>signal.
     rbind (unpack_fields (sg_fields signal) packed_fields) (\<lambda>v.
     Ok \<lparr>uk_record_type = sg_name signal, uk_key = key, uk_value = v\<rparr>)))"

section \<open>Packing and unpacking field lists\<close>

text \<open>The object a JavaScript runtime would build by assigning the entries in order.\<close>

definition key_text :: "value \<Rightarrow> string" where
  "key_text key = (case field_name_of_key key of Inr name \<Rightarrow> name | Inl _ \<Rightarrow> [])"

definition assign_entries :: "(value \<times> value) list \<Rightarrow> (value \<times> value) list \<Rightarrow> (value \<times> value) list" where
  "assign_entries start entries =
     foldl (\<lambda>acc e. set_entry (key_text (fst e)) (snd e) acc) start entries"

lemma unpack_pack_fields:
  assumes "distinct (map fd_id fds)" "pack_fields fds (VMap es) = Inr ps"
  shows "unpack_fields_into fds ps start = Inr (assign_entries start es)"
  using assms(2)
proof (induction es arbitrary: ps start)
  case Nil
  then show ?case by (simp add: pack_fields_def assign_entries_def)
next
  case (Cons e es)
  obtain k v where e: "e = (k, v)" by (cases e)
  from Cons.prems obtain name f qs where n: "field_name_of_key k = Inr name"
    and f: "field_by_name fds name = Inr f" and ps: "ps = (fd_id f, v) # qs"
    and qs: "pack_fields fds (VMap es) = Inr qs"
    by (auto simp: pack_fields_def e)
  have fs: "f \<in> set fds \<and> fd_name f = name"
    using f find_Some_set by (fastforce simp: field_by_name_def)
  then have "field_by_id fds (fd_id f) = Inr f"
    using find_distinct_key [OF assms(1)] by (simp add: field_by_id_def)
  with fs Cons.IH [OF qs] show ?case
    by (simp add: ps assign_entries_def e key_text_def n)
qed

lemma set_entry_new:
  "VString name \<notin> fst ` set entries \<Longrightarrow> set_entry name v entries = entries @ [(VString name, v)]"
  by (induction entries) auto

text \<open>Entries with pairwise different string keys are rebuilt in their order.\<close>

definition string_keyed :: "(value \<times> value) list \<Rightarrow> bool" where
  "string_keyed es \<longleftrightarrow> (\<forall>e \<in> set es. \<exists>s. fst e = VString s) \<and> distinct (map fst es)"

lemma assign_entries_fresh:
  assumes "string_keyed es" "fst ` set start \<inter> fst ` set es = {}"
  shows "assign_entries start es = start @ es"
  using assms
proof (induction es arbitrary: start)
  case Nil
  then show ?case by (simp add: assign_entries_def)
next
  case (Cons e es)
  then obtain s where s: "fst e = VString s" by (auto simp: string_keyed_def)
  have "set_entry s (snd e) start = start @ [(VString s, snd e)]"
    using Cons.prems s by (intro set_entry_new) auto
  moreover have "assign_entries (start @ [(VString s, snd e)]) es = (start @ [(VString s, snd e)]) @ es"
    using Cons.prems s by (intro Cons.IH) (auto simp: string_keyed_def)
  moreover have "key_text (fst e) = s" by (simp add: s key_text_def field_name_of_key_def)
  ultimately show ?case using s by (simp add: assign_entries_def prod_eq_iff)
qed

lemma unpack_pack_fields_string_keyed:
  assumes "distinct (map fd_id fds)" "pack_fields fds (VMap es) = Inr ps" "string_keyed es"
  shows "unpack_fields fds ps = Inr (VMap es)"
  using unpack_pack_fields [OF assms(1,2), of "[]"] assign_entries_fresh [OF assms(3), of "[]"]
  by (simp add: unpack_fields_def)

text \<open>When packing succeeds, and with which error it fails.\<close>

lemma field_by_name_Inr_iff: "(\<exists>f. field_by_name fds n = Inr f) \<longleftrightarrow> n \<in> fd_name ` set fds"
  by (auto simp: field_by_name_def find_ex_iff)

lemma pack_fields_string_keyed_total:
  assumes "\<forall>e \<in> set es. \<exists>s \<in> fd_name ` set fds. fst e = VString s"
  shows "\<exists>ps. pack_fields fds (VMap es) = Inr ps"
  using assms
proof (induction es)
  case (Cons e es)
  then obtain s where "s \<in> fd_name ` set fds" "fst e = VString s" by auto
  then obtain f where "field_by_name fds s = Inr f" using field_by_name_Inr_iff by blast
  with Cons \<open>fst e = VString s\<close> show ?case
    by (cases e) (auto simp: pack_fields_def field_name_of_key_def)
qed (simp add: pack_fields_def)

lemma packed_ids_declared:
  "pack_fields fds (VMap es) = Inr ps \<Longrightarrow> fst ` set ps \<subseteq> fd_id ` set fds \<and> map snd ps = map snd es"
proof (induction es arbitrary: ps)
  case Nil
  then show ?case by (simp add: pack_fields_def)
next
  case (Cons e es)
  obtain k v where e: "e = (k, v)" by (cases e)
  from Cons.prems obtain name f qs where f: "field_by_name fds name = Inr f"
    and ps: "ps = (fd_id f, v) # qs" and qs: "pack_fields fds (VMap es) = Inr qs"
    by (auto simp: pack_fields_def e)
  have "f \<in> set fds" using f find_Some_set by (fastforce simp: field_by_name_def)
  with Cons.IH [OF qs] show ?case by (simp add: ps e)
qed

lemma validated_field_ids:
  assumes "validate_schema lc s = Inr ()"
  shows "object_by_name s n = Inr ob \<Longrightarrow> distinct (map fd_id (ob_fields ob))"
    "event_by_name s n = Inr ev \<Longrightarrow> distinct (map fd_id (ev_fields ev))"
    "presence_by_name s n = Inr pr \<Longrightarrow> distinct (map fd_id (pr_fields pr))"
    "signal_by_name s n = Inr sg \<Longrightarrow> distinct (map fd_id (sg_fields sg))"
proof -
  have m: "members_ok lc s" using assms by (simp add: validate_schema_iff schema_wf_def)
  show "object_by_name s n = Inr ob \<Longrightarrow> distinct (map fd_id (ob_fields ob))"
    using m find_Some_set by (fastforce simp: object_by_name_def find_by_name_def members_ok_def fields_ok_def)
  show "event_by_name s n = Inr ev \<Longrightarrow> distinct (map fd_id (ev_fields ev))"
    using m find_Some_set by (fastforce simp: event_by_name_def find_by_name_def members_ok_def fields_ok_def)
  show "presence_by_name s n = Inr pr \<Longrightarrow> distinct (map fd_id (pr_fields pr))"
    using m find_Some_set by (fastforce simp: presence_by_name_def find_by_name_def members_ok_def fields_ok_def)
  show "signal_by_name s n = Inr sg \<Longrightarrow> distinct (map fd_id (sg_fields sg))"
    using m find_Some_set by (fastforce simp: signal_by_name_def find_by_name_def members_ok_def fields_ok_def)
qed

lemma validated_lookup_by_id:
  assumes "validate_schema lc s = Inr ()"
  shows "object_by_name s n = Inr ob \<Longrightarrow> object_by_id s (ob_id ob) = Inr ob \<and> ob_name ob = n"
    "stream_by_name s n = Inr st \<Longrightarrow> stream_by_id s (sm_id st) = Inr st \<and> sm_name st = n"
    "event_by_name s n = Inr ev \<Longrightarrow> event_by_id s (ev_id ev) = Inr ev \<and> ev_name ev = n"
    "presence_by_name s n = Inr pr \<Longrightarrow> presence_by_id s (pr_id pr) = Inr pr \<and> pr_name pr = n"
    "signal_by_name s n = Inr sg \<Longrightarrow> signal_by_id s (sg_id sg) = Inr sg \<and> sg_name sg = n"
proof -
  have t: "types_ok lc s" using assms by (simp add: validate_schema_iff schema_wf_def)
  show "object_by_name s n = Inr ob \<Longrightarrow> object_by_id s (ob_id ob) = Inr ob \<and> ob_name ob = n"
    using t lookup_inverse [of lc ob_id ob_name "sc_objects s" "''object''" n ob]
    by (simp add: types_ok_def object_by_name_def object_by_id_def)
  show "stream_by_name s n = Inr st \<Longrightarrow> stream_by_id s (sm_id st) = Inr st \<and> sm_name st = n"
    using t lookup_inverse [of lc sm_id sm_name "sc_streams s" "''stream''" n st]
    by (simp add: types_ok_def stream_by_name_def stream_by_id_def)
  show "event_by_name s n = Inr ev \<Longrightarrow> event_by_id s (ev_id ev) = Inr ev \<and> ev_name ev = n"
    using t lookup_inverse [of lc ev_id ev_name "sc_events s" "''event''" n ev]
    by (simp add: types_ok_def event_by_name_def event_by_id_def)
  show "presence_by_name s n = Inr pr \<Longrightarrow> presence_by_id s (pr_id pr) = Inr pr \<and> pr_name pr = n"
    using t lookup_inverse [of lc pr_id pr_name "sc_presences s" "''presence''" n pr]
    by (simp add: types_ok_def presence_by_name_def presence_by_id_def)
  show "signal_by_name s n = Inr sg \<Longrightarrow> signal_by_id s (sg_id sg) = Inr sg \<and> sg_name sg = n"
    using t lookup_inverse [of lc sg_id sg_name "sc_signals s" "''signal''" n sg]
    by (simp add: types_ok_def signal_by_name_def signal_by_id_def)
qed

section \<open>Properties\<close>

text \<open>C16: under a validated schema every object value with declared, pairwise different field
  names other than \<open>id\<close> packs, and unpacking gives back the type name, the record id and the same
  entries in the same order behind the injected \<open>id\<close>.\<close>

theorem object_record_roundtrip:
  assumes "validate_schema lc s = Inr ()" "object_by_name s n = Inr ob"
    and "\<forall>e \<in> set es. \<exists>f \<in> set (ob_fields ob). fst e = VString (fd_name f)"
    and "distinct (map fst es)" "VString ''id'' \<notin> fst ` set es"
  shows "\<exists>p. pack_object_record s n rid (VMap es) = Inr p \<and> unpack_object_record s p =
     Inr \<lparr>ur_record_type = n, ur_id = rid, ur_value = VMap ((VString ''id'', VString rid) # es)\<rparr>"
proof -
  from pack_fields_string_keyed_total [of es "ob_fields ob"] assms(3)
  obtain ps where ps: "pack_fields (ob_fields ob) (VMap es) = Inr ps" by auto
  have sk: "string_keyed es" using assms(3,4) by (auto simp: string_keyed_def)
  from unpack_pack_fields [OF validated_field_ids(1) [OF assms(1,2)] ps]
    assign_entries_fresh [OF sk, of "[(VString ''id'', VString rid)]"] assms(5)
  have "unpack_fields_into (ob_fields ob) ps [(VString ''id'', VString rid)] =
    Inr ((VString ''id'', VString rid) # es)" by simp
  with ps validated_lookup_by_id(1) [OF assms(1,2)] assms(2) show ?thesis
    by (simp add: pack_object_record_def unpack_object_record_def)
qed

theorem object_record_roundtrip_witness:
  "\<exists>p. pack_object_record sample_schema ''User'' ''u1'' (VMap [(VString ''age'', VInteger 36)]) = Inr p
   \<and> unpack_object_record sample_schema p = Inr \<lparr>ur_record_type = ''User'', ur_id = ''u1'',
       ur_value = VMap [(VString ''id'', VString ''u1''), (VString ''age'', VInteger 36)]\<rparr>"
  using object_record_roundtrip [OF sample_schema_valid, of "''User''" "hd (sc_objects sample_schema)"
      "[(VString ''age'', VInteger 36)]" "''u1''"]
  by (simp add: object_by_name_def find_by_name_def sample_schema_def plain_field_def)

text \<open>Under a validated schema packing a stream event, a presence record or a signal envelope
  with declared, pairwise different field names succeeds and unpacking returns the input.\<close>

theorem stream_presence_signal_roundtrip:
  assumes "validate_schema lc s = Inr ()" "distinct (map fst es)"
    and "stream_by_name s sn = Inr st" "event_by_name s en = Inr ev"
    and "\<forall>e \<in> set es. \<exists>f \<in> set (ev_fields ev). fst e = VString (fd_name f)"
    and "presence_by_name s pn = Inr pr" "signal_by_name s gn = Inr sg"
    and "\<forall>e \<in> set es. \<exists>f \<in> set (pr_fields pr). fst e = VString (fd_name f)"
    and "\<forall>e \<in> set es. \<exists>f \<in> set (sg_fields sg). fst e = VString (fd_name f)"
  shows "(\<exists>p. let i = \<lparr>sei_stream = sn, sei_stream_id = k, sei_sequence = q, sei_event_id = eid,
                       sei_event = en, sei_payload = VMap es\<rparr>
              in pack_stream_event s i = Inr p \<and> unpack_stream_event s p = Inr i)
    \<and> (\<exists>p. pack_presence_record s pn k (VMap es) = Inr p \<and> unpack_presence_record s p =
          Inr \<lparr>uk_record_type = pn, uk_key = k, uk_value = VMap es\<rparr>)
    \<and> (\<exists>p. pack_signal_envelope s gn k (VMap es) = Inr p \<and> unpack_signal_envelope s p =
          Inr \<lparr>uk_record_type = gn, uk_key = k, uk_value = VMap es\<rparr>)"
proof -
  have sk: "string_keyed es" using assms(2,5) by (auto simp: string_keyed_def)
  from pack_fields_string_keyed_total [of es "ev_fields ev"] assms(5)
  obtain p1 where p1: "pack_fields (ev_fields ev) (VMap es) = Inr p1" by auto
  from pack_fields_string_keyed_total [of es "pr_fields pr"] assms(8)
  obtain p2 where p2: "pack_fields (pr_fields pr) (VMap es) = Inr p2" by auto
  from pack_fields_string_keyed_total [of es "sg_fields sg"] assms(9)
  obtain p3 where p3: "pack_fields (sg_fields sg) (VMap es) = Inr p3" by auto
  note u = unpack_pack_fields_string_keyed [OF _ _ sk]
  note v = validated_field_ids [OF assms(1)] and l = validated_lookup_by_id [OF assms(1)]
  show ?thesis
    using u [OF v(2) [OF assms(4)] p1] u [OF v(3) [OF assms(6)] p2] u [OF v(4) [OF assms(7)] p3]
      l(2) [OF assms(3)] l(3) [OF assms(4)] l(4) [OF assms(6)] l(5) [OF assms(7)]
      p1 p2 p3 assms(3,4,6,7)
    by (simp add: pack_stream_event_def unpack_stream_event_def pack_presence_record_def
      unpack_presence_record_def pack_signal_envelope_def unpack_signal_envelope_def Let_def)
qed

theorem stream_presence_signal_roundtrip_witness:
  "\<exists>p. let i = \<lparr>sei_stream = ''Room'', sei_stream_id = ''r1'', sei_sequence = 7,
                sei_event_id = ''e1'', sei_event = ''Message'', sei_payload = VMap []\<rparr>
       in pack_stream_event sample_schema i = Inr p \<and> unpack_stream_event sample_schema p = Inr i"
  using stream_presence_signal_roundtrip [OF sample_schema_valid, of "[]" "''Room''"
      "\<lparr>sm_id = 3, sm_name = ''Room'', sm_key_fields = [plain_field 1 ''roomId'' FK_Id],
        sm_events = [''Message'']\<rparr>" "''Message''"
      "\<lparr>ev_id = 4, ev_name = ''Message'', ev_fields = [plain_field 1 ''text'' FK_String]\<rparr>" "''Typing''"
      "\<lparr>pr_id = 5, pr_name = ''Typing'', pr_key_fields = [], pr_fields = [plain_field 1 ''on'' FK_Bool],
        pr_ttl_ms = 5000\<rparr>" "''Offer''"
      "\<lparr>sg_id = 6, sg_name = ''Offer'', sg_key_fields = [], sg_fields = [plain_field 1 ''sdp'' FK_String],
        sg_ttl_ms = 5000\<rparr>" "''r1''" 7 "''e1''"]
  by (simp add: stream_by_name_def event_by_name_def presence_by_name_def signal_by_name_def
    find_by_name_def sample_schema_def)

end
