(* ===== verification/FrickCompat.thy ===== *)
theory FrickCompat
  imports FrickSchema
begin

text \<open>
  Version negotiation: schema compatibility (\<open>compatibility.rs\<close>), capability negotiation
  (\<open>capabilities.rs\<close>), the error envelope and its shape check (\<open>errors.rs\<close>), and
  \<open>reject_schema_mismatch\<close> of \<open>frame.rs\<close>.
\<close>

unbundle bit_operations_syntax

section \<open>Schema compatibility\<close>

datatype schema_compatibility_reason =
    Exact | RevisionCompatibleHashMismatch | SchemaIdMismatch | ClientTooOld | ServerTooOld

record schema_compatibility_result =
  scr_compatible :: bool
  scr_reason :: schema_compatibility_reason
  scr_client_revision :: int
  scr_server_revision :: int
  scr_message :: "string option"

definition compare_schema_compatibility ::
  "frick_schema \<Rightarrow> frick_schema \<Rightarrow> schema_compatibility_result" where
  "compare_schema_compatibility client server =
    (let client_revision = sc_schema_revision client;
         server_revision = sc_schema_revision server
     in
     if sc_schema_id client \<noteq> sc_schema_id server then
       \<lparr>scr_compatible = False, scr_reason = SchemaIdMismatch, scr_client_revision = client_revision,
        scr_server_revision = server_revision, scr_message = Some (''Schema id mismatch: client=''
          @ sc_schema_id client @ '' server='' @ sc_schema_id server)\<rparr>
     else if sc_schema_revision client < sc_minimum_client_revision server then
       \<lparr>scr_compatible = False, scr_reason = ClientTooOld, scr_client_revision = client_revision,
        scr_server_revision = server_revision, scr_message = Some (''Client schema revision ''
          @ dec_int (sc_schema_revision client) @ '' is below server minimum ''
          @ dec_int (sc_minimum_client_revision server))\<rparr>
     else if sc_schema_revision server < sc_minimum_server_revision client then
       \<lparr>scr_compatible = False, scr_reason = ServerTooOld, scr_client_revision = client_revision,
        scr_server_revision = server_revision, scr_message = Some (''Server schema revision ''
          @ dec_int (sc_schema_revision server) @ '' is below client minimum ''
          @ dec_int (sc_minimum_server_revision client))\<rparr>
     else if sc_hash client \<noteq> sc_hash server then
       \<lparr>scr_compatible = True, scr_reason = RevisionCompatibleHashMismatch,
        scr_client_revision = client_revision, scr_server_revision = server_revision,
        scr_message = Some ''Schema revisions are compatible but hashes differ''\<rparr>
     else
       \<lparr>scr_compatible = True, scr_reason = Exact, scr_client_revision = client_revision,
        scr_server_revision = server_revision, scr_message = None\<rparr>)"

definition require_schema_compatibility ::
  "frick_schema \<Rightarrow> frick_schema \<Rightarrow> (protocol_error, schema_compatibility_result) result" where
  "require_schema_compatibility client server =
    (let r = compare_schema_compatibility client server
     in if \<not> scr_compatible r
        then Err (case scr_message r of None \<Rightarrow> [] | Some m \<Rightarrow> m) else Ok r)"

definition reject_schema_mismatch :: "string \<Rightarrow> string \<Rightarrow> (protocol_error, unit) result" where
  "reject_schema_mismatch client_hash server_hash =
    (if client_hash \<noteq> server_hash
     then Err (''Schema mismatch: client='' @ client_hash @ '' server='' @ server_hash) else Ok ())"

section \<open>Capabilities\<close>

datatype client_platform = CP_Web | CP_Node | CP_Ios | CP_Macos | CP_Android | CP_Test | CP_Service
datatype transport_capability = TC_Websocket | TC_Http | TC_Sse
datatype encoding_capability = EC_Msgpack | EC_Json
datatype primitive_capability =
    PC_Objects | PC_Streams | PC_Presence | PC_Signals | PC_Blobs | PC_Jobs | PC_Projections
datatype blob_upload_capability = BC_Direct | BC_Resumable | BC_SignedUrl | BC_LocalOnly
datatype push_capability = UC_Apns | UC_Fcm | UC_WebPush | UC_Test

fun transport_as_str :: "transport_capability \<Rightarrow> string" where
  "transport_as_str TC_Websocket = ''websocket''"
| "transport_as_str TC_Http = ''http''"
| "transport_as_str TC_Sse = ''sse''"

fun encoding_as_str :: "encoding_capability \<Rightarrow> string" where
  "encoding_as_str EC_Msgpack = ''msgpack''"
| "encoding_as_str EC_Json = ''json''"

fun primitive_as_str :: "primitive_capability \<Rightarrow> string" where
  "primitive_as_str PC_Objects = ''objects''"
| "primitive_as_str PC_Streams = ''streams''"
| "primitive_as_str PC_Presence = ''presence''"
| "primitive_as_str PC_Signals = ''signals''"
| "primitive_as_str PC_Blobs = ''blobs''"
| "primitive_as_str PC_Jobs = ''jobs''"
| "primitive_as_str PC_Projections = ''projections''"

fun blob_upload_as_str :: "blob_upload_capability \<Rightarrow> string" where
  "blob_upload_as_str BC_Direct = ''direct''"
| "blob_upload_as_str BC_Resumable = ''resumable''"
| "blob_upload_as_str BC_SignedUrl = ''signedUrl''"
| "blob_upload_as_str BC_LocalOnly = ''localOnly''"

fun push_as_str :: "push_capability \<Rightarrow> string" where
  "push_as_str UC_Apns = ''apns''"
| "push_as_str UC_Fcm = ''fcm''"
| "push_as_str UC_WebPush = ''webPush''"
| "push_as_str UC_Test = ''test''"

record schema_capability_rec =
  scap_schema_id :: string
  scap_schema_revision :: int
  scap_schema_hash :: string

record offline_capabilities =
  off_cache :: bool
  off_pending_appends :: bool

record client_capabilities =
  cc_platform :: client_platform
  cc_sdk_version :: string
  cc_schema :: schema_capability_rec
  cc_transports :: "transport_capability list"
  cc_encodings :: "encoding_capability list"
  cc_primitives :: "primitive_capability list"
  cc_offline :: offline_capabilities
  cc_blob_uploads :: "blob_upload_capability list"
  cc_push :: "push_capability list"
  cc_experimental :: "string list"
  cc_required :: "string list"

record server_capabilities =
  vc_schema :: schema_capability_rec
  vc_transports :: "transport_capability list"
  vc_encodings :: "encoding_capability list"
  vc_primitives :: "primitive_capability list"
  vc_blob_uploads :: "blob_upload_capability list"
  vc_push :: "push_capability list"
  vc_experimental :: "string list"
  vc_limits :: "(string \<times> int) list"

definition schema_capability :: "frick_schema \<Rightarrow> schema_capability_rec" where
  "schema_capability schema =
     \<lparr>scap_schema_id = sc_schema_id schema, scap_schema_revision = sc_schema_revision schema,
      scap_schema_hash = sc_hash schema\<rparr>"

definition default_client_capabilities ::
  "client_platform \<Rightarrow> string \<Rightarrow> frick_schema \<Rightarrow> client_capabilities" where
  "default_client_capabilities platform sdk_version schema =
    \<lparr>cc_platform = platform, cc_sdk_version = sdk_version, cc_schema = schema_capability schema,
     cc_transports = [TC_Websocket], cc_encodings = [EC_Msgpack],
     cc_primitives = [PC_Objects, PC_Streams, PC_Presence, PC_Signals],
     cc_offline = \<lparr>off_cache = True, off_pending_appends = True\<rparr>,
     cc_blob_uploads = [BC_Direct], cc_push = [], cc_experimental = [], cc_required = []\<rparr>"

definition default_server_capabilities :: "frick_schema \<Rightarrow> server_capabilities" where
  "default_server_capabilities schema =
    \<lparr>vc_schema = schema_capability schema, vc_transports = [TC_Websocket, TC_Http],
     vc_encodings = [EC_Msgpack, EC_Json],
     vc_primitives = [PC_Objects, PC_Streams, PC_Presence, PC_Signals, PC_Blobs, PC_Jobs,
       PC_Projections],
     vc_blob_uploads = [BC_Direct], vc_push = [], vc_experimental = [], vc_limits = []\<rparr>"

definition server_capability_names :: "server_capabilities \<Rightarrow> string list" where
  "server_capability_names server =
     map (\<lambda>name. ''transport.'' @ transport_as_str name) (vc_transports server)
   @ map (\<lambda>name. ''encoding.'' @ encoding_as_str name) (vc_encodings server)
   @ map (\<lambda>name. ''primitive.'' @ primitive_as_str name) (vc_primitives server)
   @ map (\<lambda>name. ''blobUpload.'' @ blob_upload_as_str name) (vc_blob_uploads server)
   @ map (\<lambda>name. ''push.'' @ push_as_str name) (vc_push server)
   @ map (\<lambda>name. ''experimental.'' @ name) (vc_experimental server)"

definition unsupported_required_capabilities ::
  "client_capabilities \<Rightarrow> server_capabilities \<Rightarrow> string list" where
  "unsupported_required_capabilities client server =
     filter (\<lambda>name. name \<notin> set (server_capability_names server)) (cc_required client)"

section \<open>The error envelope\<close>

datatype frick_error_code =
    AuthUnauthenticated | AuthForbidden | AuthSessionExpired | SchemaIncompatible
  | SchemaMigrationRequired | StorageConflict | StorageNotFound | StreamAppendRejected
  | StreamInvalidCursor | SyncProtocolError | SyncReconnectExhausted | BlobTooLarge
  | BlobUnsupportedContentType | BlobQuotaExceeded | RateLimitExceeded | ServerInternal

fun error_code_as_str :: "frick_error_code \<Rightarrow> string" where
  "error_code_as_str AuthUnauthenticated = ''auth.unauthenticated''"
| "error_code_as_str AuthForbidden = ''auth.forbidden''"
| "error_code_as_str AuthSessionExpired = ''auth.sessionExpired''"
| "error_code_as_str SchemaIncompatible = ''schema.incompatible''"
| "error_code_as_str SchemaMigrationRequired = ''schema.migrationRequired''"
| "error_code_as_str StorageConflict = ''storage.conflict''"
| "error_code_as_str StorageNotFound = ''storage.notFound''"
| "error_code_as_str StreamAppendRejected = ''stream.appendRejected''"
| "error_code_as_str StreamInvalidCursor = ''stream.invalidCursor''"
| "error_code_as_str SyncProtocolError = ''sync.protocolError''"
| "error_code_as_str SyncReconnectExhausted = ''sync.reconnectExhausted''"
| "error_code_as_str BlobTooLarge = ''blob.tooLarge''"
| "error_code_as_str BlobUnsupportedContentType = ''blob.unsupportedContentType''"
| "error_code_as_str BlobQuotaExceeded = ''blob.quotaExceeded''"
| "error_code_as_str RateLimitExceeded = ''rateLimit.exceeded''"
| "error_code_as_str ServerInternal = ''server.internal''"

definition all_error_codes :: "frick_error_code list" where
  "all_error_codes = [AuthUnauthenticated, AuthForbidden, AuthSessionExpired, SchemaIncompatible,
     SchemaMigrationRequired, StorageConflict, StorageNotFound, StreamAppendRejected,
     StreamInvalidCursor, SyncProtocolError, SyncReconnectExhausted, BlobTooLarge,
     BlobUnsupportedContentType, BlobQuotaExceeded, RateLimitExceeded, ServerInternal]"

definition parse_error_code :: "string \<Rightarrow> frick_error_code option" where
  "parse_error_code text = find (\<lambda>c. error_code_as_str c = text) all_error_codes"

record error_envelope =
  ee_code :: frick_error_code
  ee_message :: string
  ee_request_id :: string
  ee_retryable :: bool
  ee_details :: "value option"
  ee_schema_hash :: "string option"
  ee_schema_revision :: "int option"

text \<open>Its serialized form: declaration order, camelCase names, absent optionals left out.\<close>

definition opt_entry :: "string \<Rightarrow> value option \<Rightarrow> (value \<times> value) list" where
  "opt_entry name v = (case v of None \<Rightarrow> [] | Some x \<Rightarrow> [(VString name, x)])"

definition envelope_value :: "error_envelope \<Rightarrow> value" where
  "envelope_value e = VMap (
     [(VString ''code'', VString (error_code_as_str (ee_code e))),
      (VString ''message'', VString (ee_message e)),
      (VString ''requestId'', VString (ee_request_id e)),
      (VString ''retryable'', VBoolean (ee_retryable e))]
     @ opt_entry ''details'' (ee_details e)
     @ opt_entry ''schemaHash'' (map_option VString (ee_schema_hash e))
     @ opt_entry ''schemaRevision'' (map_option VInteger (ee_schema_revision e)))"

text \<open>\<open>f.is_finite() && f.fract() == 0.0\<close> on the IEEE-754 fields: \<open>e\<close> biased exponent, \<open>m\<close> mantissa
  of width \<open>p\<close>.\<close>

definition ieee_integral :: "nat \<Rightarrow> nat \<Rightarrow> nat \<Rightarrow> nat \<Rightarrow> bool" where
  "ieee_integral p emax e m \<longleftrightarrow> e < emax \<and>
     (if e = 0 then m = 0
      else if e < emax div 2 then False
      else emax div 2 + p \<le> e \<or> m mod 2 ^ (emax div 2 + p - e) = 0)"

definition f64_integral :: "64 word \<Rightarrow> bool" where
  "f64_integral w = ieee_integral 52 2047 (unat (drop_bit 52 w AND 2047)) (unat (take_bit 52 w))"

definition f32_integral :: "32 word \<Rightarrow> bool" where
  "f32_integral w = ieee_integral 23 255 (unat (drop_bit 23 w AND 255)) (unat (take_bit 23 w))"

fun is_integer_value :: "value \<Rightarrow> bool" where
  "is_integer_value (VInteger i) = True"
| "is_integer_value (VF32 w) = f32_integral w"
| "is_integer_value (VF64 w) = f64_integral w"
| "is_integer_value _ = False"

definition get_last :: "string \<Rightarrow> (value \<times> value) list \<Rightarrow> value option" where
  "get_last name entries =
     map_option snd (find (\<lambda>e. as_str (fst e) = Some name) (rev entries))"

fun is_details_value :: "value \<Rightarrow> bool" where
  "is_details_value (VMap _) = True"
| "is_details_value (VBinary _) = True"
| "is_details_value (VExt _ _) = True"
| "is_details_value _ = False"

definition is_envelope_value :: "value \<Rightarrow> bool" where
  "is_envelope_value v = (case as_map v of None \<Rightarrow> False | Some entries \<Rightarrow>
    (let get = (\<lambda>name. get_last name entries);
         code_is_known = (case Option.bind (get ''code'') as_str of
             None \<Rightarrow> False | Some code \<Rightarrow> parse_error_code code \<noteq> None)
     in
     if \<not> code_is_known
        \<or> \<not> (case get ''message'' of None \<Rightarrow> False | Some x \<Rightarrow> as_str x \<noteq> None)
        \<or> \<not> (case get ''requestId'' of None \<Rightarrow> False | Some x \<Rightarrow> as_str x \<noteq> None)
        \<or> \<not> (case get ''retryable'' of None \<Rightarrow> False | Some x \<Rightarrow> as_bool x \<noteq> None)
     then False
     else if (case get ''details'' of None \<Rightarrow> False | Some x \<Rightarrow> \<not> is_details_value x) then False
     else if (case get ''schemaHash'' of None \<Rightarrow> False | Some x \<Rightarrow> as_str x = None) then False
     else if (case get ''schemaRevision'' of None \<Rightarrow> False | Some x \<Rightarrow> \<not> is_integer_value x) then False
     else True))"

section \<open>Lemmas\<close>

lemma compare_compatible_iff:
  "scr_compatible (compare_schema_compatibility c s) \<longleftrightarrow> sc_schema_id c = sc_schema_id s
     \<and> sc_minimum_client_revision s \<le> sc_schema_revision c
     \<and> sc_minimum_server_revision c \<le> sc_schema_revision s"
  by (auto simp: compare_schema_compatibility_def Let_def)

lemma compare_message_iff:
  "scr_message (compare_schema_compatibility c s) = None \<longleftrightarrow>
     scr_reason (compare_schema_compatibility c s) = Exact"
  by (simp add: compare_schema_compatibility_def Let_def)

lemma parse_error_code_as_str [simp]: "parse_error_code (error_code_as_str c) = Some c"
  by (cases c) (simp_all add: parse_error_code_def all_error_codes_def)

lemma ieee_integral_iff:
  assumes "0 < e" "e < emax" "m < 2 ^ p"
  shows "ieee_integral p emax e m \<longleftrightarrow> 2 ^ (emax div 2 + p) dvd (2 ^ p + m) * (2::nat) ^ e"
proof -
  define b where "b = emax div 2"
  consider "b + p \<le> e" | "e < b" | "b \<le> e" "e < b + p" by linarith
  then have "ieee_integral p emax e m \<longleftrightarrow> 2 ^ (b + p) dvd (2 ^ p + m) * (2::nat) ^ e"
  proof cases
    case 1
    then have "(2::nat) ^ (b + p) dvd 2 ^ e" by (rule le_imp_power_dvd)
    then have "(2::nat) ^ (b + p) dvd (2 ^ p + m) * 2 ^ e" by (rule dvd_mult)
    with 1 assms show ?thesis by (simp add: ieee_integral_def b_def)
  next
    case 2
    have "\<not> 2 ^ (b + p) dvd (2 ^ p + m) * (2::nat) ^ e"
    proof
      assume "2 ^ (b + p) dvd (2 ^ p + m) * (2::nat) ^ e"
      then have "2 ^ (b + p) \<le> (2 ^ p + m) * (2::nat) ^ e" by (rule dvd_imp_le) simp
      also have "\<dots> < 2 ^ (p + 1) * 2 ^ e" using assms(3) by simp
      also have "\<dots> = 2 ^ (p + 1 + e)" by (simp add: power_add)
      finally have "(2::nat) ^ (b + p) < 2 ^ (p + 1 + e)" .
      then have "b + p < p + 1 + e" by (simp only: power_strict_increasing_iff one_less_numeral_iff semiring_norm)
      with 2 show False by simp
    qed
    with 2 assms show ?thesis by (simp add: ieee_integral_def b_def)
  next
    case 3
    define d where "d = b + p - e"
    have bp: "(2::nat) ^ (b + p) = 2 ^ d * 2 ^ e" and dp: "d \<le> p"
      using 3 by (simp_all add: d_def power_add [symmetric])
    have "2 ^ (b + p) dvd (2 ^ p + m) * (2::nat) ^ e \<longleftrightarrow> 2 ^ d dvd 2 ^ p + m"
      unfolding bp by simp
    also have "\<dots> \<longleftrightarrow> 2 ^ d dvd m"
      using le_imp_power_dvd [OF dp, of "2::nat"] by (simp add: dvd_add_right_iff)
    finally show ?thesis using 3 assms by (simp add: ieee_integral_def b_def d_def mod_eq_0_iff_dvd)
  qed
  then show ?thesis by (simp add: b_def)
qed

lemma get_last_append:
  "get_last n (es @ fs) = (case get_last n fs of None \<Rightarrow> get_last n es | Some v \<Rightarrow> Some v)"
proof -
  have "find P (xs @ ys) = (case find P xs of None \<Rightarrow> find P ys | Some v \<Rightarrow> Some v)"
    for P and xs ys :: "(value \<times> value) list"
    by (induction xs) auto
  then show ?thesis by (simp add: get_last_def split: option.splits)
qed

lemma get_last_opt_entry: "get_last n (opt_entry k v) = (if k = n then v else None)"
  by (cases v) (simp_all add: opt_entry_def get_last_def)

lemma get_last_Cons: "get_last n ((VString k, v) # es) =
    (case get_last n es of None \<Rightarrow> if k = n then Some v else None | Some w \<Rightarrow> Some w)"
proof -
  have "get_last n [(VString k, v)] = (if k = n then Some v else None)" by (simp add: get_last_def)
  then show ?thesis using get_last_append [of n "[(VString k, v)]" es] by (cases "get_last n es") simp_all
qed

section \<open>Properties\<close>

text \<open>\<open>require_schema_compatibility\<close> accepts a pair of schemas exactly when the schema ids agree
  and each side's revision reaches the minimum the other side demands; the reason is \<open>Exact\<close>
  exactly when the hashes agree as well, and a rejection carries the message of its reason, the id
  mismatch before the client's age before the server's age.\<close>

theorem compatibility_decision:
  "(case require_schema_compatibility c s of
      Inr r \<Rightarrow> sc_schema_id c = sc_schema_id s
        \<and> sc_minimum_client_revision s \<le> sc_schema_revision c
        \<and> sc_minimum_server_revision c \<le> sc_schema_revision s
        \<and> (scr_reason r = Exact \<longleftrightarrow> sc_hash c = sc_hash s)
        \<and> (scr_message r = None \<longleftrightarrow> sc_hash c = sc_hash s)
    | Inl m \<Rightarrow>
        (case scr_reason (compare_schema_compatibility c s) of
           SchemaIdMismatch \<Rightarrow> sc_schema_id c \<noteq> sc_schema_id s
         | ClientTooOld \<Rightarrow> sc_schema_id c = sc_schema_id s
             \<and> sc_schema_revision c < sc_minimum_client_revision s
         | ServerTooOld \<Rightarrow> sc_schema_id c = sc_schema_id s
             \<and> sc_minimum_client_revision s \<le> sc_schema_revision c
             \<and> sc_schema_revision s < sc_minimum_server_revision c
         | _ \<Rightarrow> False)
        \<and> scr_message (compare_schema_compatibility c s) = Some m)"
  by (auto simp: require_schema_compatibility_def compare_schema_compatibility_def Let_def)

text \<open>The serialized form of an error envelope passes the shape check exactly when its
  \<open>details\<close> are absent or a map, binary or extension value; every known code, message, request id,
  retry flag, hash and revision is accepted.\<close>

lemma envelope_shape:
  "is_envelope_value (envelope_value e) \<longleftrightarrow>
     (case ee_details e of None \<Rightarrow> True | Some v \<Rightarrow> is_details_value v)"
  by (auto simp: is_envelope_value_def envelope_value_def get_last_Cons get_last_append
      get_last_opt_entry Let_def split: option.splits)

text \<open>Capability negotiation reports exactly the required names the server does not advertise,
  in the client's order, and reports none for the default client against the default server of any
  schema, whatever subset of the server's advertised names the client requires.\<close>

lemma capability_negotiation:
  "set (unsupported_required_capabilities client server) =
     set (cc_required client) - set (server_capability_names server)
   \<and> (set req \<subseteq> set (server_capability_names (default_server_capabilities s)) \<longrightarrow>
      unsupported_required_capabilities
        ((default_client_capabilities p v s)\<lparr>cc_required := req\<rparr>) (default_server_capabilities s) = [])"
  by (auto simp: unsupported_required_capabilities_def filter_empty_conv)

lemma capability_negotiation_witness:
  "unsupported_required_capabilities
     ((default_client_capabilities CP_Ios ''1.0'' foundation_schema)
       \<lparr>cc_required := [''primitive.blobs'', ''encoding.json'']\<rparr>)
     (default_server_capabilities foundation_schema) = []"
  using capability_negotiation [of "default_client_capabilities CP_Ios ''1.0'' foundation_schema"
      "default_server_capabilities foundation_schema" "[''primitive.blobs'', ''encoding.json'']"
      foundation_schema CP_Ios "''1.0''"]
  by (simp add: server_capability_names_def default_server_capabilities_def)

end
