(* ===== verification/FrickLint.thy ===== *)
theory FrickLint
  imports FrickSchema
begin

text \<open>
  The schema linter of \<open>frick-schema/src/lint.rs\<close>: \<open>lint_schema\<close> on one snapshot and
  \<open>lint_schema_change\<close> on a pair (current first, previous second).  The code pushes findings on a
  vector that is passed along; each definition here returns the findings it pushes, in order, and
  the callers concatenate.  \<open>TypeCarrier\<close> is the pair of accessors \<open>get_id\<close>, \<open>get_name\<close>.
\<close>

section \<open>Findings\<close>

datatype lint_severity = Info | Warn | Breaking

record lint_finding =
  lf_severity :: lint_severity
  lf_path :: string
  lf_message :: string
  lf_rule_id :: string

record lint_result =
  lr_findings :: "lint_finding list"
  lr_breaking_count :: nat

definition finding :: "lint_severity \<Rightarrow> string \<Rightarrow> string \<Rightarrow> string \<Rightarrow> lint_finding" where
  "finding severity path message rule_id =
     \<lparr>lf_severity = severity, lf_path = path, lf_message = message, lf_rule_id = rule_id\<rparr>"

definition make_result :: "lint_finding list \<Rightarrow> lint_result" where
  "make_result findings =
     \<lparr>lr_findings = findings,
      lr_breaking_count = length (filter (\<lambda>f. lf_severity f = Breaking) findings)\<rparr>"

text \<open>\<open>collect::<HashMap>\<close>: later entries overwrite earlier ones.\<close>

definition last_by_id :: "('t \<Rightarrow> int) \<Rightarrow> 't list \<Rightarrow> int \<Rightarrow> 't option" where
  "last_by_id get_id ts i = find (\<lambda>t. get_id t = i) (rev ts)"

definition bracket :: "string \<Rightarrow> string \<Rightarrow> string" where
  "bracket prefix name = prefix @ ''['' @ name @ '']''"

section \<open>Diffs of type sets\<close>

definition diff_type_set ::
  "('t \<Rightarrow> int) \<Rightarrow> ('t \<Rightarrow> string) \<Rightarrow> 't list \<Rightarrow> 't list \<Rightarrow> string \<Rightarrow> string \<Rightarrow> lint_finding list" where
  "diff_type_set get_id get_name prev cur collection label =
     concat (map (\<lambda>p. if last_by_id get_id cur (get_id p) = None
       then [finding Breaking (bracket collection (get_name p))
              (label @ '' '' @ get_name p @ '' (id='' @ dec_int (get_id p) @ '') was removed'')
              (label @ ''.removed'')] else []) prev)
   @ concat (map (\<lambda>c. if last_by_id get_id prev (get_id c) = None
       then [finding Info (bracket collection (get_name c))
              (label @ '' '' @ get_name c @ '' (id='' @ dec_int (get_id c) @ '') was added'')
              (label @ ''.added'')] else []) cur)
   @ concat (map (\<lambda>c. case last_by_id get_id prev (get_id c) of
         Some p \<Rightarrow> if get_name p \<noteq> get_name c
           then [finding Breaking (bracket collection (get_name c))
                  (label @ '' id '' @ dec_int (get_id c) @ '' renamed from '' @ get_name p @ '' to ''
                    @ get_name c) (label @ ''.renamed'')] else []
       | None \<Rightarrow> []) cur)"

definition pair_by_id :: "('t \<Rightarrow> int) \<Rightarrow> 't list \<Rightarrow> 't \<Rightarrow> 't option" where
  "pair_by_id get_id prev c = find (\<lambda>x. get_id x = get_id c) prev"

section \<open>Field diffs\<close>

text \<open>The loop over the current enum values with its index and the \<open>prev_tail\<close> cursor.\<close>

fun enum_added_loop ::
  "string \<Rightarrow> string list \<Rightarrow> nat \<Rightarrow> nat \<Rightarrow> string list \<Rightarrow> lint_finding list" where
  "enum_added_loop path prev_values prev_tail i [] = []"
| "enum_added_loop path prev_values prev_tail i (v # vs) =
    (if v \<in> set prev_values then enum_added_loop path prev_values prev_tail (i + 1) vs
     else (if i \<ge> prev_tail
           then finding Warn path (''enum value '' @ v @ '' added at the end'') ''enum.value.added.trailing''
           else finding Breaking path (''enum value '' @ v @ '' inserted before existing values'')
                  ''enum.value.inserted'')
          # enum_added_loop path prev_values (max prev_tail (i + 1)) (i + 1) vs)"

definition enum_list :: "field_def \<Rightarrow> string list" where
  "enum_list f = (case fd_enum_values f of None \<Rightarrow> [] | Some vs \<Rightarrow> vs)"

definition diff_enum_values :: "string \<Rightarrow> field_def \<Rightarrow> field_def \<Rightarrow> lint_finding list" where
  "diff_enum_values path prev cur =
    (if fd_kind prev \<noteq> FK_Enum \<or> fd_kind cur \<noteq> FK_Enum then []
     else concat (map (\<lambda>v. if v \<notin> set (enum_list cur)
            then [finding Breaking path (''enum value '' @ v @ '' removed'') ''enum.value.removed'']
            else []) (enum_list prev))
        @ enum_added_loop path (enum_list prev) (length (enum_list prev)) 0 (enum_list cur))"

definition bool_text :: "bool \<Rightarrow> string" where
  "bool_text b = (if b then ''true'' else ''false'')"

definition ref_or :: "string \<Rightarrow> field_def \<Rightarrow> string" where
  "ref_or d f = (case fd_ref f of None \<Rightarrow> d | Some t \<Rightarrow> t)"

definition diff_field_pair :: "string \<Rightarrow> field_def \<Rightarrow> field_def \<Rightarrow> lint_finding list" where
  "diff_field_pair owner_path p c =
    (let path = bracket (owner_path @ ''.fields'') (fd_name c) in
       (if fd_name p \<noteq> fd_name c then [finding Breaking path
          (''field id '' @ dec_int (fd_id c) @ '' renamed from '' @ fd_name p @ '' to '' @ fd_name c)
          ''field.renamed''] else [])
     @ (if fd_kind p \<noteq> fd_kind c then [finding Breaking path
          (''field '' @ fd_name c @ '' kind changed from '' @ field_kind_as_str (fd_kind p) @ '' to ''
            @ field_kind_as_str (fd_kind c)) ''field.kind.changed''] else [])
     @ (if fd_required p \<noteq> fd_required c then [finding Breaking path
          (''field '' @ fd_name c @ '' required flag changed from '' @ bool_text (fd_required p)
            @ '' to '' @ bool_text (fd_required c))
          (if fd_required c then ''field.required.toggled'' else ''field.optional.toggled'')] else [])
     @ (if ref_or [] p \<noteq> ref_or [] c then [finding Breaking path
          (''field '' @ fd_name c @ '' ref target changed from '' @ ref_or ''<none>'' p @ '' to ''
            @ ref_or ''<none>'' c) ''field.ref.changed''] else [])
     @ diff_enum_values path p c)"

definition diff_fields :: "string \<Rightarrow> field_def list \<Rightarrow> field_def list \<Rightarrow> lint_finding list" where
  "diff_fields owner_path prev cur =
     concat (map (\<lambda>p. if last_by_id fd_id cur (fd_id p) = None
       then [finding Breaking (bracket (owner_path @ ''.fields'') (fd_name p))
              (''field '' @ fd_name p @ '' (id='' @ dec_int (fd_id p) @ '') was removed'')
              ''field.removed''] else []) prev)
   @ concat (map (\<lambda>c. if last_by_id fd_id prev (fd_id c) = None
       then (if fd_required c
             then [finding Breaking (bracket (owner_path @ ''.fields'') (fd_name c))
                    (''required field '' @ fd_name c @ '' was added'') ''field.required.added'']
             else [finding Info (bracket (owner_path @ ''.fields'') (fd_name c))
                    (''optional field '' @ fd_name c @ '' was added'') ''field.optional.added''])
       else []) cur)
   @ concat (map (\<lambda>c. case last_by_id fd_id prev (fd_id c) of
         Some p \<Rightarrow> diff_field_pair owner_path p c
       | None \<Rightarrow> []) cur)"

definition diff_indexes :: "string \<Rightarrow> index_def list \<Rightarrow> index_def list \<Rightarrow> lint_finding list" where
  "diff_indexes owner_path prev cur =
     concat (map (\<lambda>p. if ix_id p \<notin> ix_id ` set cur
       then [finding Breaking (bracket (owner_path @ ''.indexes'') (ix_name p))
              (''index '' @ ix_name p @ '' (id='' @ dec_int (ix_id p) @ '') was removed'')
              ''index.removed''] else []) prev)"

section \<open>Diffs per collection\<close>

definition diff_pairs :: "('t \<Rightarrow> int) \<Rightarrow> ('t \<Rightarrow> 't \<Rightarrow> lint_finding list) \<Rightarrow> 't list \<Rightarrow> 't list \<Rightarrow> lint_finding list" where
  "diff_pairs get_id body prev cur =
     concat (map (\<lambda>c. case pair_by_id get_id prev c of None \<Rightarrow> [] | Some p \<Rightarrow> body p c) cur)"

definition diff_objects :: "object_def list \<Rightarrow> object_def list \<Rightarrow> lint_finding list" where
  "diff_objects = diff_pairs ob_id (\<lambda>p c.
     diff_fields (bracket ''objects'' (ob_name c)) (ob_fields p) (ob_fields c)
     @ diff_indexes (bracket ''objects'' (ob_name c)) (ob_indexes p) (ob_indexes c))"

definition diff_events :: "event_def list \<Rightarrow> event_def list \<Rightarrow> lint_finding list" where
  "diff_events = diff_pairs ev_id (\<lambda>p c.
     diff_fields (bracket ''events'' (ev_name c)) (ev_fields p) (ev_fields c))"

fun dedup_loop :: "string list \<Rightarrow> string list \<Rightarrow> string list" where
  "dedup_loop out [] = out"
| "dedup_loop out (v # vs) = dedup_loop (if v \<in> set out then out else out @ [v]) vs"

definition dedup_preserving_order :: "string list \<Rightarrow> string list" where
  "dedup_preserving_order vs = dedup_loop [] vs"

definition diff_stream_events :: "string \<Rightarrow> string list \<Rightarrow> string list \<Rightarrow> lint_finding list" where
  "diff_stream_events name prev_events curr_events =
     concat (map (\<lambda>e. if e \<notin> set curr_events
       then [finding Breaking (bracket (bracket ''streams'' name @ ''.events'') e)
              (''stream '' @ name @ '' no longer emits event '' @ e) ''stream.event.removed'']
       else []) prev_events)
   @ concat (map (\<lambda>e. if e \<notin> set prev_events
       then [finding Info (bracket (bracket ''streams'' name @ ''.events'') e)
              (''stream '' @ name @ '' added event '' @ e) ''stream.event.added'']
       else []) curr_events)"

definition diff_streams :: "stream_def list \<Rightarrow> stream_def list \<Rightarrow> lint_finding list" where
  "diff_streams = diff_pairs sm_id (\<lambda>p c.
     diff_fields (bracket ''streams'' (sm_name c) @ ''.key'') (sm_key_fields p) (sm_key_fields c)
     @ diff_stream_events (sm_name c) (dedup_preserving_order (sm_events p))
         (dedup_preserving_order (sm_events c)))"

definition diff_presences :: "presence_def list \<Rightarrow> presence_def list \<Rightarrow> lint_finding list" where
  "diff_presences = diff_pairs pr_id (\<lambda>p c.
     diff_fields (bracket ''presences'' (pr_name c) @ ''.key'') (pr_key_fields p) (pr_key_fields c)
     @ diff_fields (bracket ''presences'' (pr_name c)) (pr_fields p) (pr_fields c))"

definition diff_signals :: "signal_def list \<Rightarrow> signal_def list \<Rightarrow> lint_finding list" where
  "diff_signals = diff_pairs sg_id (\<lambda>p c.
     diff_fields (bracket ''signals'' (sg_name c) @ ''.key'') (sg_key_fields p) (sg_key_fields c)
     @ diff_fields (bracket ''signals'' (sg_name c)) (sg_fields p) (sg_fields c))"

definition diff_blobs :: "blob_def list \<Rightarrow> blob_def list \<Rightarrow> lint_finding list" where
  "diff_blobs = diff_pairs bl_id (\<lambda>p c.
     diff_fields (bracket ''blobs'' (bl_name c) @ ''.metadata'') (bl_metadata_fields p)
       (bl_metadata_fields c))"

definition diff_jobs :: "job_def list \<Rightarrow> job_def list \<Rightarrow> lint_finding list" where
  "diff_jobs = diff_pairs jd_id (\<lambda>p c.
     diff_fields (bracket ''jobs'' (jd_name c)) (jd_fields p) (jd_fields c))"

definition diff_projections :: "projection_def list \<Rightarrow> projection_def list \<Rightarrow> lint_finding list" where
  "diff_projections = diff_pairs pj_id (\<lambda>p c.
     (if pj_source p \<noteq> pj_source c
      then [finding Breaking (bracket ''projections'' (pj_name c) @ ''.source'')
             (''projection source changed from '' @ pj_source p @ '' to '' @ pj_source c)
             ''projection.source.changed''] else [])
     @ diff_fields (bracket ''projections'' (pj_name c)) (pj_fields p) (pj_fields c)
     @ diff_indexes (bracket ''projections'' (pj_name c)) (pj_indexes p) (pj_indexes c))"

definition lint_schema_change :: "frick_schema \<Rightarrow> frick_schema \<Rightarrow> lint_result" where
  "lint_schema_change current previous = make_result (
     (if sc_schema_id previous \<noteq> sc_schema_id current
      then [finding Breaking ''schemaId'' (''schemaId changed from '' @ sc_schema_id previous
              @ '' to '' @ sc_schema_id current) ''schema.id.changed''] else [])
   @ (if sc_schema_revision current < sc_schema_revision previous
      then [finding Breaking ''schemaRevision'' (''schemaRevision decreased from ''
              @ dec_int (sc_schema_revision previous) @ '' to '' @ dec_int (sc_schema_revision current))
              ''schema.revision.decreased''] else [])
   @ (if sc_minimum_client_revision current > sc_minimum_client_revision previous
      then [finding Warn ''minimumClientRevision'' (''minimumClientRevision raised from ''
              @ dec_int (sc_minimum_client_revision previous) @ '' to ''
              @ dec_int (sc_minimum_client_revision current)) ''schema.minimumClientRevision.raised'']
      else [])
   @ diff_type_set ob_id ob_name (sc_objects previous) (sc_objects current) ''objects'' ''object''
   @ diff_type_set sm_id sm_name (sc_streams previous) (sc_streams current) ''streams'' ''stream''
   @ diff_type_set ev_id ev_name (sc_events previous) (sc_events current) ''events'' ''event''
   @ diff_type_set pr_id pr_name (sc_presences previous) (sc_presences current) ''presences'' ''presence''
   @ diff_type_set sg_id sg_name (sc_signals previous) (sc_signals current) ''signals'' ''signal''
   @ diff_type_set bl_id bl_name (sc_blobs previous) (sc_blobs current) ''blobs'' ''blob''
   @ diff_type_set jd_id jd_name (sc_jobs previous) (sc_jobs current) ''jobs'' ''job''
   @ diff_type_set pj_id pj_name (sc_projections previous) (sc_projections current)
       ''projections'' ''projection''
   @ diff_objects (sc_objects previous) (sc_objects current)
   @ diff_events (sc_events previous) (sc_events current)
   @ diff_streams (sc_streams previous) (sc_streams current)
   @ diff_presences (sc_presences previous) (sc_presences current)
   @ diff_signals (sc_signals previous) (sc_signals current)
   @ diff_blobs (sc_blobs previous) (sc_blobs current)
   @ diff_jobs (sc_jobs previous) (sc_jobs current)
   @ diff_projections (sc_projections previous) (sc_projections current))"

section \<open>Single snapshots\<close>

fun bump_count :: "string \<Rightarrow> (string \<times> nat) list \<Rightarrow> (string \<times> nat) list" where
  "bump_count key [] = [(key, 1)]"
| "bump_count key ((existing, n) # counts) =
     (if existing = key then (existing, n + 1) # counts else (existing, n) # bump_count key counts)"

definition lowercase_counts :: "lowercase \<Rightarrow> string list \<Rightarrow> (string \<times> nat) list" where
  "lowercase_counts lc names = foldl (\<lambda>counts name. bump_count (lc name) counts) [] names"

definition check_duplicates :: "lowercase \<Rightarrow> string list \<Rightarrow> string \<Rightarrow> string \<Rightarrow> lint_finding list" where
  "check_duplicates lc names collection label =
     concat (map (\<lambda>(key, count). if count > 1
       then [finding Breaking (bracket collection key)
              (''duplicate '' @ label @ '' name '' @ key @ '' ('' @ dec_nat count @ '' occurrences)'')
              (label @ ''.duplicate.name'')] else []) (lowercase_counts lc names))"

definition check_field_duplicates :: "lowercase \<Rightarrow> string \<Rightarrow> field_def list \<Rightarrow> lint_finding list" where
  "check_field_duplicates lc owner_path fds =
     concat (map (\<lambda>(key, count). if count > 1
       then [finding Breaking (bracket (owner_path @ ''.fields'') key)
              (''duplicate field name '' @ key @ '' ('' @ dec_nat count @ '' occurrences)'')
              ''field.duplicate.name''] else []) (lowercase_counts lc (map fd_name fds)))"

definition lint_schema :: "lowercase \<Rightarrow> frick_schema \<Rightarrow> lint_result" where
  "lint_schema lc schema = make_result (
     (if blank (sc_schema_id schema)
      then [finding Breaking ''schemaId'' ''schemaId must be a non-empty string''
             ''schema.identity.missing''] else [])
   @ (if \<not> sc_schema_revision schema > 0
      then [finding Breaking ''schemaRevision'' ''schemaRevision must be a positive integer''
             ''schema.revision.invalid''] else [])
   @ check_duplicates lc (map ob_name (sc_objects schema)) ''objects'' ''object''
   @ check_duplicates lc (map sm_name (sc_streams schema)) ''streams'' ''stream''
   @ check_duplicates lc (map ev_name (sc_events schema)) ''events'' ''event''
   @ check_duplicates lc (map pr_name (sc_presences schema)) ''presences'' ''presence''
   @ check_duplicates lc (map sg_name (sc_signals schema)) ''signals'' ''signal''
   @ check_duplicates lc (map bl_name (sc_blobs schema)) ''blobs'' ''blob''
   @ check_duplicates lc (map jd_name (sc_jobs schema)) ''jobs'' ''job''
   @ check_duplicates lc (map pj_name (sc_projections schema)) ''projections'' ''projection''
   @ concat (map (\<lambda>obj. check_field_duplicates lc (bracket ''objects'' (ob_name obj)) (ob_fields obj))
       (sc_objects schema))
   @ concat (map (\<lambda>ev. check_field_duplicates lc (bracket ''events'' (ev_name ev)) (ev_fields ev))
       (sc_events schema)))"

section \<open>What a change without breaking findings means\<close>

definition no_breaking :: "lint_finding list \<Rightarrow> bool" where
  "no_breaking fs \<longleftrightarrow> (\<forall>f \<in> set fs. lf_severity f \<noteq> Breaking)"

definition enum_extends :: "string list \<Rightarrow> string list \<Rightarrow> bool" where
  "enum_extends ps cs \<longleftrightarrow> set ps \<subseteq> set cs \<and> set (take (length ps) cs) \<subseteq> set ps"

definition field_extends :: "field_def \<Rightarrow> field_def \<Rightarrow> bool" where
  "field_extends p c \<longleftrightarrow> fd_name p = fd_name c \<and> fd_kind p = fd_kind c
     \<and> fd_required p = fd_required c \<and> ref_or [] p = ref_or [] c
     \<and> (fd_kind p = FK_Enum \<longrightarrow> enum_extends (enum_list p) (enum_list c))"

definition fields_extend :: "field_def list \<Rightarrow> field_def list \<Rightarrow> bool" where
  "fields_extend ps cs \<longleftrightarrow> fd_id ` set ps \<subseteq> fd_id ` set cs
     \<and> (\<forall>c \<in> set cs. fd_id c \<notin> fd_id ` set ps \<longrightarrow> \<not> fd_required c)
     \<and> (\<forall>p \<in> set ps. \<forall>c \<in> set cs. fd_id p = fd_id c \<longrightarrow> field_extends p c)"

definition types_extend :: "('t \<Rightarrow> int) \<Rightarrow> ('t \<Rightarrow> string) \<Rightarrow> ('t \<Rightarrow> 't \<Rightarrow> bool) \<Rightarrow> 't list \<Rightarrow> 't list \<Rightarrow> bool" where
  "types_extend get_id get_name ext ps cs \<longleftrightarrow> get_id ` set ps \<subseteq> get_id ` set cs
     \<and> (\<forall>p \<in> set ps. \<forall>c \<in> set cs. get_id p = get_id c \<longrightarrow> get_name p = get_name c \<and> ext p c)"

definition indexes_extend :: "index_def list \<Rightarrow> index_def list \<Rightarrow> bool" where
  "indexes_extend ps cs \<longleftrightarrow> ix_id ` set ps \<subseteq> ix_id ` set cs"

definition schema_extends :: "frick_schema \<Rightarrow> frick_schema \<Rightarrow> bool" where
  "schema_extends prev cur \<longleftrightarrow> sc_schema_id prev = sc_schema_id cur
     \<and> sc_schema_revision prev \<le> sc_schema_revision cur
     \<and> types_extend ob_id ob_name (\<lambda>p c. fields_extend (ob_fields p) (ob_fields c)
         \<and> indexes_extend (ob_indexes p) (ob_indexes c)) (sc_objects prev) (sc_objects cur)
     \<and> types_extend sm_id sm_name (\<lambda>p c. fields_extend (sm_key_fields p) (sm_key_fields c)
         \<and> set (sm_events p) \<subseteq> set (sm_events c)) (sc_streams prev) (sc_streams cur)
     \<and> types_extend ev_id ev_name (\<lambda>p c. fields_extend (ev_fields p) (ev_fields c))
         (sc_events prev) (sc_events cur)
     \<and> types_extend pr_id pr_name (\<lambda>p c. fields_extend (pr_key_fields p) (pr_key_fields c)
         \<and> fields_extend (pr_fields p) (pr_fields c)) (sc_presences prev) (sc_presences cur)
     \<and> types_extend sg_id sg_name (\<lambda>p c. fields_extend (sg_key_fields p) (sg_key_fields c)
         \<and> fields_extend (sg_fields p) (sg_fields c)) (sc_signals prev) (sc_signals cur)
     \<and> types_extend bl_id bl_name (\<lambda>p c. fields_extend (bl_metadata_fields p) (bl_metadata_fields c))
         (sc_blobs prev) (sc_blobs cur)
     \<and> types_extend jd_id jd_name (\<lambda>p c. fields_extend (jd_fields p) (jd_fields c))
         (sc_jobs prev) (sc_jobs cur)
     \<and> types_extend pj_id pj_name (\<lambda>p c. pj_source p = pj_source c
         \<and> fields_extend (pj_fields p) (pj_fields c) \<and> indexes_extend (pj_indexes p) (pj_indexes c))
         (sc_projections prev) (sc_projections cur)"

lemma finding_severity [simp]: "lf_severity (finding s p m r) = s"
  by (simp add: finding_def)

lemma no_breaking_simps [simp]:
  "no_breaking []" "no_breaking (f # fs) \<longleftrightarrow> lf_severity f \<noteq> Breaking \<and> no_breaking fs"
  "no_breaking (fs @ gs) \<longleftrightarrow> no_breaking fs \<and> no_breaking gs"
  "no_breaking (concat (map g xs)) \<longleftrightarrow> (\<forall>x \<in> set xs. no_breaking (g x))"
  by (auto simp: no_breaking_def)

lemma breaking_count_0: "lr_breaking_count (make_result fs) = 0 \<longleftrightarrow> no_breaking fs"
  by (simp add: make_result_def no_breaking_def filter_empty_conv)

lemma last_by_id_None [simp]: "last_by_id get_id ts i = None \<longleftrightarrow> i \<notin> get_id ` set ts"
  by (auto simp: last_by_id_def find_None_iff)

lemma last_by_id_Some:
  assumes "distinct (map get_id ts)"
  shows "last_by_id get_id ts i = Some t \<longleftrightarrow> t \<in> set ts \<and> get_id t = i"
proof
  assume "last_by_id get_id ts i = Some t"
  then show "t \<in> set ts \<and> get_id t = i" unfolding last_by_id_def by (auto dest: find_Some_set)
next
  assume "t \<in> set ts \<and> get_id t = i"
  then show "last_by_id get_id ts i = Some t"
    using assms find_distinct_key [of get_id "rev ts" t] by (auto simp: last_by_id_def rev_map [symmetric])
qed

lemma pair_by_id_Some:
  assumes "distinct (map get_id ts)"
  shows "pair_by_id get_id ts c = Some t \<longleftrightarrow> t \<in> set ts \<and> get_id t = get_id c"
proof
  assume "pair_by_id get_id ts c = Some t"
  then show "t \<in> set ts \<and> get_id t = get_id c" unfolding pair_by_id_def by (auto dest: find_Some_set)
next
  assume "t \<in> set ts \<and> get_id t = get_id c"
  then show "pair_by_id get_id ts c = Some t"
    using assms find_distinct_key [of get_id ts t] by (auto simp: pair_by_id_def)
qed

lemma no_breaking_case_option:
  "no_breaking (case x of None \<Rightarrow> [] | Some p \<Rightarrow> g p) \<longleftrightarrow> (\<forall>p. x = Some p \<longrightarrow> no_breaking (g p))"
  by (cases x) auto

lemma no_breaking_if [simp]:
  "no_breaking (if b then fs else gs) \<longleftrightarrow> (if b then no_breaking fs else no_breaking gs)"
  by simp

lemma no_breaking_diff_type_set:
  assumes "distinct (map get_id prev)"
  shows "no_breaking (diff_type_set get_id get_name prev cur collection label) \<longleftrightarrow>
    types_extend get_id get_name (\<lambda>_ _. True) prev cur"
  unfolding diff_type_set_def types_extend_def
  by (auto simp: no_breaking_case_option last_by_id_Some [OF assms])

lemma no_breaking_enum_added_loop:
  "no_breaking (enum_added_loop path ps tail i vs) \<longleftrightarrow> set (take (tail - i) vs) \<subseteq> set ps"
proof (induction path ps tail i vs rule: enum_added_loop.induct)
  case (2 path ps tail i v vs)
  then show ?case by (cases "i < tail") (auto simp: Suc_diff_Suc [symmetric] max_def)
qed simp

lemma no_breaking_diff_enum_values:
  "no_breaking (diff_enum_values path p c) \<longleftrightarrow>
     (fd_kind p = FK_Enum \<and> fd_kind c = FK_Enum \<longrightarrow> enum_extends (enum_list p) (enum_list c))"
  by (auto simp: diff_enum_values_def enum_extends_def no_breaking_enum_added_loop)

lemma no_breaking_diff_field_pair:
  "no_breaking (diff_field_pair owner p c) \<longleftrightarrow> field_extends p c"
  by (auto simp: diff_field_pair_def Let_def no_breaking_diff_enum_values field_extends_def)

lemma no_breaking_diff_fields:
  assumes "distinct (map fd_id prev)"
  shows "no_breaking (diff_fields owner prev cur) \<longleftrightarrow> fields_extend prev cur"
  unfolding diff_fields_def fields_extend_def
  by (auto simp: no_breaking_case_option last_by_id_Some [OF assms] no_breaking_diff_field_pair)

lemma no_breaking_diff_indexes: "no_breaking (diff_indexes owner prev cur) \<longleftrightarrow> indexes_extend prev cur"
  by (auto simp: diff_indexes_def indexes_extend_def)

lemma no_breaking_diff_pairs:
  assumes "distinct (map get_id prev)"
  shows "no_breaking (diff_pairs get_id body prev cur) \<longleftrightarrow>
    (\<forall>p \<in> set prev. \<forall>c \<in> set cur. get_id p = get_id c \<longrightarrow> no_breaking (body p c))"
  unfolding diff_pairs_def by (auto simp: no_breaking_case_option pair_by_id_Some [OF assms])

lemma set_dedup_loop: "set (dedup_loop out vs) = set out \<union> set vs"
  by (induction out vs rule: dedup_loop.induct) auto

lemma set_dedup [simp]: "set (dedup_preserving_order vs) = set vs"
  by (simp add: dedup_preserving_order_def set_dedup_loop)

lemma no_breaking_diff_stream_events:
  "no_breaking (diff_stream_events n ps cs) \<longleftrightarrow> set ps \<subseteq> set cs"
  by (auto simp: diff_stream_events_def)

text \<open>Both halves of the diff of a collection.\<close>

lemma no_breaking_collection:
  assumes "distinct (map get_id prev)"
    and "\<And>p c. p \<in> set prev \<Longrightarrow> no_breaking (body p c) \<longleftrightarrow> ext p c"
  shows "no_breaking (diff_type_set get_id get_name prev cur collection label)
      \<and> no_breaking (diff_pairs get_id body prev cur)
    \<longleftrightarrow> types_extend get_id get_name ext prev cur"
  unfolding no_breaking_diff_type_set [OF assms(1)] no_breaking_diff_pairs [OF assms(1)] types_extend_def
  using assms(2) by blast

lemma wf_distinct_ids:
  assumes "schema_wf lc s"
  shows "distinct (map ob_id (sc_objects s))" "distinct (map sm_id (sc_streams s))"
    "distinct (map ev_id (sc_events s))" "distinct (map pr_id (sc_presences s))"
    "distinct (map sg_id (sc_signals s))" "distinct (map bl_id (sc_blobs s))"
    "distinct (map jd_id (sc_jobs s))" "distinct (map pj_id (sc_projections s))"
  using assms by (simp_all add: schema_wf_def types_ok_def type_set_ok_def comp_def)

lemma wf_distinct_field_ids:
  assumes "schema_wf lc s"
  shows "t \<in> set (sc_objects s) \<Longrightarrow> distinct (map fd_id (ob_fields t))"
    "st \<in> set (sc_streams s) \<Longrightarrow> distinct (map fd_id (sm_key_fields st))"
    "ev \<in> set (sc_events s) \<Longrightarrow> distinct (map fd_id (ev_fields ev))"
    "pr \<in> set (sc_presences s) \<Longrightarrow> distinct (map fd_id (pr_key_fields pr))"
    "pr \<in> set (sc_presences s) \<Longrightarrow> distinct (map fd_id (pr_fields pr))"
    "sg \<in> set (sc_signals s) \<Longrightarrow> distinct (map fd_id (sg_key_fields sg))"
    "sg \<in> set (sc_signals s) \<Longrightarrow> distinct (map fd_id (sg_fields sg))"
    "bl \<in> set (sc_blobs s) \<Longrightarrow> distinct (map fd_id (bl_metadata_fields bl))"
    "jd \<in> set (sc_jobs s) \<Longrightarrow> distinct (map fd_id (jd_fields jd))"
    "pj \<in> set (sc_projections s) \<Longrightarrow> distinct (map fd_id (pj_fields pj))"
  using assms by (simp_all add: schema_wf_def members_ok_def fields_ok_def)

lemmas no_breaking_bodies = no_breaking_diff_fields no_breaking_diff_indexes
  no_breaking_diff_stream_events

lemma no_breaking_objects:
  assumes "schema_wf lc s"
  shows "no_breaking (diff_type_set ob_id ob_name (sc_objects s) cur cl lb) \<and> no_breaking (diff_objects (sc_objects s) cur)
    \<longleftrightarrow> types_extend ob_id ob_name (\<lambda>p c. fields_extend (ob_fields p) (ob_fields c)
         \<and> indexes_extend (ob_indexes p) (ob_indexes c)) (sc_objects s) cur"
  unfolding diff_objects_def using wf_distinct_field_ids(1) [OF assms]
  by (intro no_breaking_collection wf_distinct_ids [OF assms]) (simp add: no_breaking_bodies)

lemma no_breaking_streams:
  assumes "schema_wf lc s"
  shows "no_breaking (diff_type_set sm_id sm_name (sc_streams s) cur cl lb) \<and> no_breaking (diff_streams (sc_streams s) cur)
    \<longleftrightarrow> types_extend sm_id sm_name (\<lambda>p c. fields_extend (sm_key_fields p) (sm_key_fields c)
         \<and> set (sm_events p) \<subseteq> set (sm_events c)) (sc_streams s) cur"
  unfolding diff_streams_def using wf_distinct_field_ids(2) [OF assms]
  by (intro no_breaking_collection wf_distinct_ids [OF assms]) (simp add: no_breaking_bodies)

lemma no_breaking_events:
  assumes "schema_wf lc s"
  shows "no_breaking (diff_type_set ev_id ev_name (sc_events s) cur cl lb) \<and> no_breaking (diff_events (sc_events s) cur)
    \<longleftrightarrow> types_extend ev_id ev_name (\<lambda>p c. fields_extend (ev_fields p) (ev_fields c)) (sc_events s) cur"
  unfolding diff_events_def using wf_distinct_field_ids(3) [OF assms]
  by (intro no_breaking_collection wf_distinct_ids [OF assms]) (simp add: no_breaking_bodies)

lemma no_breaking_presences:
  assumes "schema_wf lc s"
  shows "no_breaking (diff_type_set pr_id pr_name (sc_presences s) cur cl lb) \<and> no_breaking (diff_presences (sc_presences s) cur)
    \<longleftrightarrow> types_extend pr_id pr_name (\<lambda>p c. fields_extend (pr_key_fields p) (pr_key_fields c)
         \<and> fields_extend (pr_fields p) (pr_fields c)) (sc_presences s) cur"
  unfolding diff_presences_def using wf_distinct_field_ids(4,5) [OF assms]
  by (intro no_breaking_collection wf_distinct_ids [OF assms]) (simp add: no_breaking_bodies)

lemma no_breaking_signals:
  assumes "schema_wf lc s"
  shows "no_breaking (diff_type_set sg_id sg_name (sc_signals s) cur cl lb) \<and> no_breaking (diff_signals (sc_signals s) cur)
    \<longleftrightarrow> types_extend sg_id sg_name (\<lambda>p c. fields_extend (sg_key_fields p) (sg_key_fields c)
         \<and> fields_extend (sg_fields p) (sg_fields c)) (sc_signals s) cur"
  unfolding diff_signals_def using wf_distinct_field_ids(6,7) [OF assms]
  by (intro no_breaking_collection wf_distinct_ids [OF assms]) (simp add: no_breaking_bodies)

lemma no_breaking_blobs:
  assumes "schema_wf lc s"
  shows "no_breaking (diff_type_set bl_id bl_name (sc_blobs s) cur cl lb) \<and> no_breaking (diff_blobs (sc_blobs s) cur)
    \<longleftrightarrow> types_extend bl_id bl_name (\<lambda>p c. fields_extend (bl_metadata_fields p) (bl_metadata_fields c))
         (sc_blobs s) cur"
  unfolding diff_blobs_def using wf_distinct_field_ids(8) [OF assms]
  by (intro no_breaking_collection wf_distinct_ids [OF assms]) (simp add: no_breaking_bodies)

lemma no_breaking_jobs:
  assumes "schema_wf lc s"
  shows "no_breaking (diff_type_set jd_id jd_name (sc_jobs s) cur cl lb) \<and> no_breaking (diff_jobs (sc_jobs s) cur)
    \<longleftrightarrow> types_extend jd_id jd_name (\<lambda>p c. fields_extend (jd_fields p) (jd_fields c)) (sc_jobs s) cur"
  unfolding diff_jobs_def using wf_distinct_field_ids(9) [OF assms]
  by (intro no_breaking_collection wf_distinct_ids [OF assms]) (simp add: no_breaking_bodies)

lemma no_breaking_projections:
  assumes "schema_wf lc s"
  shows "no_breaking (diff_type_set pj_id pj_name (sc_projections s) cur cl lb) \<and> no_breaking (diff_projections (sc_projections s) cur)
    \<longleftrightarrow> types_extend pj_id pj_name (\<lambda>p c. pj_source p = pj_source c
         \<and> fields_extend (pj_fields p) (pj_fields c) \<and> indexes_extend (pj_indexes p) (pj_indexes c))
         (sc_projections s) cur"
  unfolding diff_projections_def using wf_distinct_field_ids(10) [OF assms]
  by (intro no_breaking_collection wf_distinct_ids [OF assms]) (simp add: no_breaking_bodies)

lemma lint_no_breaking_iff:
  assumes "schema_wf lc prev"
  shows "lr_breaking_count (lint_schema_change cur prev) = 0 \<longleftrightarrow> schema_extends prev cur"
proof -
  note fam = no_breaking_objects [OF assms, of "sc_objects cur" "''objects''" "''object''"]
    no_breaking_streams [OF assms, of "sc_streams cur" "''streams''" "''stream''"]
    no_breaking_events [OF assms, of "sc_events cur" "''events''" "''event''"]
    no_breaking_presences [OF assms, of "sc_presences cur" "''presences''" "''presence''"]
    no_breaking_signals [OF assms, of "sc_signals cur" "''signals''" "''signal''"]
    no_breaking_blobs [OF assms, of "sc_blobs cur" "''blobs''" "''blob''"]
    no_breaking_jobs [OF assms, of "sc_jobs cur" "''jobs''" "''job''"]
    no_breaking_projections [OF assms, of "sc_projections cur" "''projections''" "''projection''"]
  show ?thesis
    unfolding schema_extends_def fam [symmetric] lint_schema_change_def breaking_count_0
    by (auto simp: not_less)
qed

section \<open>A schema against itself\<close>

lemma enum_added_loop_known: "set vs \<subseteq> set ps \<Longrightarrow> enum_added_loop path ps t i vs = []"
  by (induction path ps t i vs rule: enum_added_loop.induct) auto

lemma diff_field_pair_self: "diff_field_pair owner p p = []"
  by (simp add: diff_field_pair_def Let_def diff_enum_values_def enum_added_loop_known)

lemma diff_fields_self:
  assumes "distinct (map fd_id fs)"
  shows "diff_fields owner fs fs = []"
proof -
  have "last_by_id fd_id fs (fd_id c) = Some c" if "c \<in> set fs" for c
    using that by (simp add: last_by_id_Some [OF assms])
  then show ?thesis by (simp add: diff_fields_def diff_field_pair_self)
qed

lemma diff_type_set_self:
  assumes "distinct (map get_id ts)"
  shows "diff_type_set get_id get_name ts ts cl lb = []"
proof -
  have "last_by_id get_id ts (get_id c) = Some c" if "c \<in> set ts" for c
    using that by (simp add: last_by_id_Some [OF assms])
  then show ?thesis by (simp add: diff_type_set_def)
qed

lemma diff_pairs_self:
  assumes "distinct (map get_id ts)" "\<And>t. t \<in> set ts \<Longrightarrow> body t t = []"
  shows "diff_pairs get_id body ts ts = []"
proof -
  have "pair_by_id get_id ts c = Some c" if "c \<in> set ts" for c
    using that by (simp add: pair_by_id_Some [OF assms(1)])
  then show ?thesis using assms(2) by (simp add: diff_pairs_def)
qed

lemma diff_indexes_self: "diff_indexes owner xs xs = []"
  by (simp add: diff_indexes_def)

lemma diff_stream_events_self: "diff_stream_events n es es = []"
  by (simp add: diff_stream_events_def)

lemma diff_collections_self:
  assumes "schema_wf lc s"
  shows "diff_objects (sc_objects s) (sc_objects s) = []" "diff_streams (sc_streams s) (sc_streams s) = []"
    "diff_events (sc_events s) (sc_events s) = []" "diff_presences (sc_presences s) (sc_presences s) = []"
    "diff_signals (sc_signals s) (sc_signals s) = []" "diff_blobs (sc_blobs s) (sc_blobs s) = []"
    "diff_jobs (sc_jobs s) (sc_jobs s) = []" "diff_projections (sc_projections s) (sc_projections s) = []"
  unfolding diff_objects_def diff_streams_def diff_events_def diff_presences_def diff_signals_def
    diff_blobs_def diff_jobs_def diff_projections_def
  by (intro diff_pairs_self wf_distinct_ids [OF assms];
      simp add: diff_fields_self diff_indexes_self diff_stream_events_self
        wf_distinct_field_ids [OF assms])+

lemma lint_self_empty: "schema_wf lc s \<Longrightarrow> lr_findings (lint_schema_change s s) = []"
  by (simp add: lint_schema_change_def make_result_def diff_type_set_self wf_distinct_ids
      diff_collections_self)

section \<open>Single snapshots\<close>

lemma bump_count_new: "key \<notin> fst ` set counts \<Longrightarrow> bump_count key counts = counts @ [(key, 1)]"
  by (induction counts) auto

lemma lowercase_counts_distinct:
  assumes "distinct (map lc names)"
  shows "lowercase_counts lc names = map (\<lambda>n. (lc n, 1)) names"
proof -
  have "foldl (\<lambda>counts name. bump_count (lc name) counts) acc names = acc @ map (\<lambda>n. (lc n, 1)) names"
    if "fst ` set acc \<inter> lc ` set names = {}" for acc
    using that assms
  proof (induction names arbitrary: acc)
    case (Cons n names)
    have "bump_count (lc n) acc = acc @ [(lc n, 1)]"
      using Cons.prems by (intro bump_count_new) auto
    moreover have "foldl (\<lambda>counts name. bump_count (lc name) counts) (acc @ [(lc n, 1)]) names
        = (acc @ [(lc n, 1)]) @ map (\<lambda>n. (lc n, 1)) names"
      using Cons.prems by (intro Cons.IH) auto
    ultimately show ?case by simp
  qed simp
  then show ?thesis by (simp add: lowercase_counts_def)
qed

lemma check_duplicates_distinct: "distinct (map lc names) \<Longrightarrow> check_duplicates lc names cl lb = []"
  by (simp add: check_duplicates_def lowercase_counts_distinct)

lemma check_field_duplicates_distinct:
  "distinct (map (\<lambda>f. lc (fd_name f)) fs) \<Longrightarrow> check_field_duplicates lc owner fs = []"
  by (simp add: check_field_duplicates_def lowercase_counts_distinct comp_def)

lemma lint_schema_wf: "schema_wf lc s \<Longrightarrow> lr_findings (lint_schema lc s) = []"
  by (simp add: lint_schema_def make_result_def schema_wf_def identity_ok_def types_ok_def
      type_set_ok_def members_ok_def fields_ok_def comp_def check_duplicates_distinct
      check_field_duplicates_distinct)

section \<open>Properties\<close>

text \<open>C17: against a validated previous snapshot the change lint counts no breaking finding exactly
  when the current snapshot extends the previous one: same schema id, revision not lower, every
  type and field id kept under its name, every index id kept, kinds, required flags, reference targets and
  projection sources unchanged, new fields optional, stream events kept, and no enum value removed
  or put at a position of the previous list.\<close>

theorem lint_breaking_exact:
  assumes "validate_schema lc prev = Inr ()"
  shows "lr_breaking_count (lint_schema_change cur prev) = 0 \<longleftrightarrow> schema_extends prev cur"
  using assms lint_no_breaking_iff by (simp add: validate_schema_iff)

theorem lint_breaking_exact_witness:
  "validate_schema ascii_lower sample_schema = Inr () \<and>
   \<not> schema_extends sample_schema foundation_schema \<and>
   lr_breaking_count (lint_schema_change foundation_schema sample_schema) \<noteq> 0"
proof -
  have "\<not> schema_extends sample_schema foundation_schema"
    by (simp add: schema_extends_def types_extend_def sample_schema_def foundation_schema_def)
  with lint_breaking_exact [OF sample_schema_valid] sample_schema_valid show ?thesis by simp
qed

text \<open>A schema that validates has no finding in the single-snapshot lint, and no finding of any
  severity when it is compared with itself.\<close>

theorem lint_validated_clean:
  assumes "validate_schema lc s = Inr ()"
  shows "lr_findings (lint_schema lc s) = [] \<and> lr_findings (lint_schema_change s s) = []"
  using assms lint_schema_wf lint_self_empty by (simp add: validate_schema_iff)

theorem lint_validated_clean_witness:
  "lr_findings (lint_schema ascii_lower sample_schema) = [] \<and>
   lr_findings (lint_schema_change sample_schema sample_schema) = []"
  using lint_validated_clean [OF sample_schema_valid] .

text \<open>A reordered enum is reported by no finding although a value keeps its ordinal only if its
  position is kept; the same final list is breaking when it is reached from the shorter one, so
  the absence of breaking findings does not compose along a sequence of changes.\<close>

theorem lint_enum_reorder_silent:
  "let f = (\<lambda>vs. (plain_field 1 ''status'' FK_Enum)\<lparr>fd_enum_values := Some vs\<rparr>) in
     no_breaking (diff_fields ''o'' [f [''a'', ''b'']] [f [''a'', ''b'', ''c'']])
   \<and> diff_fields ''o'' [f [''a'', ''b'', ''c'']] [f [''c'', ''a'', ''b'']] = []
   \<and> \<not> no_breaking (diff_fields ''o'' [f [''a'', ''b'']] [f [''c'', ''a'', ''b'']])"
  by (simp add: Let_def diff_fields_def last_by_id_def plain_field_def diff_field_pair_def
      diff_enum_values_def enum_list_def ref_or_def)

end
