(* ===== verification/FrickNet.thy ===== *)
theory FrickNet
  imports FrickValue FrickTime
begin

text \<open>
  Client address resolution of \<open>frick-server/src/client_ip.rs\<close>: CIDR blocks, trusted proxies and
  the address a per-address rate limiter keys on.

  An IPv4 address is a \<open>32 word\<close>, an IPv6 address a \<open>128 word\<close>.  \<open>IpAddr::from_str\<close> of the
  standard library is written out as a parser on the bytes.  The header map is an argument
  \<open>headers\<close> that gives the text of the first value of a header, when it is present and visible
  ASCII.
\<close>

unbundle bit_operations_syntax

section \<open>Parsing addresses\<close>

type_synonym 'a parser = "string \<Rightarrow> ('a \<times> string) option"

datatype ip_addr = V4 "32 word" | V6 "128 word"

definition digit_value :: "nat \<Rightarrow> char \<Rightarrow> nat option" where
  "digit_value radix c =
    (let n = (of_char c :: nat);
         d = (if 48 \<le> n \<and> n \<le> 57 then Some (n - 48)
              else if 97 \<le> n \<and> n \<le> 122 then Some (n - 87)
              else if 65 \<le> n \<and> n \<le> 90 then Some (n - 55) else None)
     in case d of None \<Rightarrow> None | Some v \<Rightarrow> if v < radix then Some v else None)"

text \<open>\<open>read_number\<close>: the longest run of digits, failing on more than \<open>max_digits\<close>, on a value above
  \<open>bound\<close>, and on a leading zero unless allowed.\<close>

fun read_digits :: "nat \<Rightarrow> nat \<Rightarrow> nat \<Rightarrow> string \<Rightarrow> nat \<times> nat \<times> string" where
  "read_digits radix acc k [] = (acc, k, [])"
| "read_digits radix acc k (c # cs) = (case digit_value radix c of
      None \<Rightarrow> (acc, k, c # cs)
    | Some d \<Rightarrow> read_digits radix (acc * radix + d) (k + 1) cs)"

definition read_number :: "nat \<Rightarrow> nat \<Rightarrow> nat \<Rightarrow> bool \<Rightarrow> nat parser" where
  "read_number radix max_digits bound allow_zero_prefix s =
    (case read_digits radix 0 0 s of (v, k, rest) \<Rightarrow>
       if k = 0 \<or> k > max_digits \<or> v > bound then None
       else if \<not> allow_zero_prefix \<and> hd s = CHR ''0'' \<and> k > 1 then None
       else Some (v, rest))"

definition read_given_char :: "char \<Rightarrow> unit parser" where
  "read_given_char c s = (case s of [] \<Rightarrow> None | d # ds \<Rightarrow> if d = c then Some ((), ds) else None)"

definition read_separator :: "char \<Rightarrow> nat \<Rightarrow> 'a parser \<Rightarrow> 'a parser" where
  "read_separator sep index inner s =
    (if index > 0 then Option.bind (read_given_char sep s) (\<lambda>(_, rest). inner rest) else inner s)"

fun read_octets :: "nat \<Rightarrow> nat \<Rightarrow> nat list parser" where
  "read_octets 0 i s = Some ([], s)"
| "read_octets (Suc n) i s =
     Option.bind (read_separator (CHR ''.'') i (read_number 10 3 255 False) s) (\<lambda>(v, rest).
     Option.bind (read_octets n (i + 1) rest) (\<lambda>(vs, rest'). Some (v # vs, rest')))"

definition join_groups :: "nat \<Rightarrow> nat list \<Rightarrow> nat" where
  "join_groups base vs = foldl (\<lambda>acc v. acc * base + v) 0 vs"

definition read_ipv4_addr :: "nat parser" where
  "read_ipv4_addr s = map_option (\<lambda>(vs, rest). (join_groups 256 vs, rest)) (read_octets 4 0 s)"

text \<open>\<open>read_groups\<close>: at most \<open>n\<close> more 16-bit groups from index \<open>i\<close>, a trailing embedded IPv4 address
  counting as two; the flag says that it ended with one.\<close>

fun read_groups :: "nat \<Rightarrow> nat \<Rightarrow> string \<Rightarrow> nat list \<times> bool \<times> string" where
  "read_groups 0 i s = ([], False, s)"
| "read_groups (Suc n) i s =
    (case (if n > 0 then read_separator (CHR '':'') i read_ipv4_addr s else None) of
       Some (v, rest) \<Rightarrow> ([v div 65536, v mod 65536], True, rest)
     | None \<Rightarrow> (case read_separator (CHR '':'') i (read_number 16 4 65535 True) s of
         None \<Rightarrow> ([], False, s)
       | Some (g, rest) \<Rightarrow> (case read_groups n (i + 1) rest of
           (gs, v4, rest') \<Rightarrow> (g # gs, v4, rest'))))"

definition read_ipv6_addr :: "nat parser" where
  "read_ipv6_addr s =
    (case read_groups 8 0 s of (head, head_ipv4, rest) \<Rightarrow>
       if length head = 8 then Some (join_groups 65536 head, rest)
       else if head_ipv4 then None
       else Option.bind (read_given_char (CHR '':'') rest) (\<lambda>(_, r1).
            Option.bind (read_given_char (CHR '':'') r1) (\<lambda>(_, r2).
            case read_groups (8 - (length head + 1)) 0 r2 of (tail, _, r3) \<Rightarrow>
              Some (join_groups 65536
                 (head @ replicate (8 - length head - length tail) 0 @ tail), r3))))"

definition parse_ip_addr :: "string \<Rightarrow> ip_addr option" where
  "parse_ip_addr s =
    (case read_ipv4_addr s of
       Some (v, rest) \<Rightarrow> if rest = [] then Some (V4 (of_nat v)) else None
     | None \<Rightarrow> (case read_ipv6_addr s of
         Some (v, rest) \<Rightarrow> if rest = [] then Some (V6 (of_nat v)) else None
       | None \<Rightarrow> None))"

text \<open>\<open>u8::from_str\<close>.\<close>

definition parse_u8 :: "string \<Rightarrow> nat option" where
  "parse_u8 s =
    (let ds = (case s of [] \<Rightarrow> [] | c # cs \<Rightarrow> if c = CHR ''+'' then cs else s)
     in if ds = [] then None
        else Option.bind (parse_digits ds) (\<lambda>n. if n \<le> 255 then Some (nat n) else None))"

section \<open>CIDR blocks\<close>

record ip_cidr =
  cidr_addr :: ip_addr
  cidr_prefix :: nat

definition is_ipv4 :: "ip_addr \<Rightarrow> bool" where
  "is_ipv4 a = (case a of V4 _ \<Rightarrow> True | V6 _ \<Rightarrow> False)"

definition cidr_parse :: "string \<Rightarrow> (string, ip_cidr) result" where
  "cidr_parse text =
    (let v = str_trim text in
     rbind (if CHR ''/'' \<in> set v
            then rbind (ok_or (''invalid CIDR prefix in \"'' @ v @ ''\"'')
                         (parse_u8 (str_trim (tl (dropWhile (\<lambda>c. c \<noteq> CHR ''/'') v)))))
                   (\<lambda>prefix. Ok (str_trim (takeWhile (\<lambda>c. c \<noteq> CHR ''/'') v), Some prefix))
            else Ok (v, None)) (\<lambda>(addr_str, prefix).
     rbind (ok_or (''invalid IP address in \"'' @ v @ ''\"'') (parse_ip_addr addr_str)) (\<lambda>addr.
     let mx = (if is_ipv4 addr then 32 else 128);
         p = (case prefix of None \<Rightarrow> mx | Some q \<Rightarrow> q)
     in if p > mx
        then Err (''CIDR prefix /'' @ dec_nat p @ '' exceeds /'' @ dec_nat mx @ '' in \"'' @ v @ ''\"'')
        else Ok \<lparr>cidr_addr = addr, cidr_prefix = p\<rparr>)))"

definition v4_mask :: "nat \<Rightarrow> 32 word" where
  "v4_mask prefix = (if prefix = 0 then 0 else push_bit (32 - prefix) (- 1))"

definition v6_mask :: "nat \<Rightarrow> 128 word" where
  "v6_mask prefix = (if prefix = 0 then 0 else push_bit (128 - prefix) (- 1))"

definition cidr_contains :: "ip_cidr \<Rightarrow> ip_addr \<Rightarrow> bool" where
  "cidr_contains cidr ip = (case (cidr_addr cidr, ip) of
      (V4 net, V4 a) \<Rightarrow> net AND v4_mask (cidr_prefix cidr) = a AND v4_mask (cidr_prefix cidr)
    | (V6 net, V6 a) \<Rightarrow> net AND v6_mask (cidr_prefix cidr) = a AND v6_mask (cidr_prefix cidr)
    | _ \<Rightarrow> False)"

definition is_trusted_proxy :: "ip_addr \<Rightarrow> ip_cidr list \<Rightarrow> bool" where
  "is_trusted_proxy peer trusted_proxies = list_ex (\<lambda>cidr. cidr_contains cidr peer) trusted_proxies"

section \<open>Headers\<close>

type_synonym header_map = "string \<Rightarrow> string option"

definition client_ip_from_headers :: "header_map \<Rightarrow> ip_addr option" where
  "client_ip_from_headers headers =
    (case Option.bind (headers ''x-forwarded-for'')
            (\<lambda>v. parse_ip_addr (str_trim (takeWhile (\<lambda>c. c \<noteq> CHR '','') v))) of
       Some ip \<Rightarrow> Some ip
     | None \<Rightarrow> Option.bind (headers ''x-real-ip'') (\<lambda>v. parse_ip_addr (str_trim v)))"

definition trusted_client_ip :: "header_map \<Rightarrow> ip_addr \<Rightarrow> ip_cidr list \<Rightarrow> ip_addr" where
  "trusted_client_ip headers peer trusted_proxies =
    (if is_trusted_proxy peer trusted_proxies
     then (case client_ip_from_headers headers of Some forwarded \<Rightarrow> forwarded | None \<Rightarrow> peer)
     else peer)"

section \<open>Masks and prefixes\<close>

lemma bit_high_mask: "bit (NOT (mask k) :: 'a::len word) n \<longleftrightarrow> k \<le> n \<and> n < LENGTH('a)"
  by (auto simp: bit_not_iff bit_mask_iff)

lemma masked_eq_iff:
  fixes x y :: "'a::len word"
  shows "x AND NOT (mask k) = y AND NOT (mask k) \<longleftrightarrow> drop_bit k x = drop_bit k y"
proof
  assume eq: "x AND NOT (mask k) = y AND NOT (mask k)"
  show "drop_bit k x = drop_bit k y"
  proof (rule bit_eqI)
    fix n
    have "bit (x AND NOT (mask k)) (k + n) = bit (y AND NOT (mask k)) (k + n)"
      using eq by simp
    then show "bit (drop_bit k x) n = bit (drop_bit k y) n"
      by (auto simp: bit_and_iff bit_high_mask bit_drop_bit_eq dest: bit_imp_le_length)
  qed
next
  assume eq: "drop_bit k x = drop_bit k y"
  show "x AND NOT (mask k) = y AND NOT (mask k)"
  proof (rule bit_eqI)
    fix n
    have "bit (drop_bit k x) (n - k) = bit (drop_bit k y) (n - k)" using eq by simp
    then show "bit (x AND NOT (mask k)) n = bit (y AND NOT (mask k)) n"
      by (auto simp: bit_and_iff bit_high_mask bit_drop_bit_eq)
  qed
qed

lemma drop_all_bits: "LENGTH('a) \<le> k \<Longrightarrow> drop_bit k (x :: 'a::len word) = 0"
  by (rule bit_eqI) (auto simp: bit_drop_bit_eq dest: bit_imp_le_length)

lemma v4_masked_eq_iff:
  "x AND v4_mask p = y AND v4_mask p \<longleftrightarrow> drop_bit (32 - p) x = drop_bit (32 - p) y"
  using masked_eq_iff [of x "32 - p" y] by (auto simp: v4_mask_def drop_all_bits)

lemma v6_masked_eq_iff:
  "x AND v6_mask p = y AND v6_mask p \<longleftrightarrow> drop_bit (128 - p) x = drop_bit (128 - p) y"
  using masked_eq_iff [of x "128 - p" y] by (auto simp: v6_mask_def drop_all_bits)

lemma cidr_parse_bound:
  assumes "cidr_parse t = Inr c"
  shows "cidr_prefix c \<le> (if is_ipv4 (cidr_addr c) then 32 else 128)"
  using assms by (auto simp: cidr_parse_def Let_def split: if_splits)

section \<open>Properties\<close>

text \<open>A parsed CIDR block has a prefix within its family's width, and it contains an address
  exactly when the address is of the same family and agrees with the network address on the leading
  prefix bits.\<close>

theorem cidr_contains_is_prefix_match:
  assumes "cidr_parse t = Inr c"
  shows "case (cidr_addr c, ip) of
      (V4 net, V4 a) \<Rightarrow> cidr_prefix c \<le> 32
        \<and> (cidr_contains c ip \<longleftrightarrow> drop_bit (32 - cidr_prefix c) net = drop_bit (32 - cidr_prefix c) a)
    | (V6 net, V6 a) \<Rightarrow> cidr_prefix c \<le> 128
        \<and> (cidr_contains c ip \<longleftrightarrow> drop_bit (128 - cidr_prefix c) net = drop_bit (128 - cidr_prefix c) a)
    | _ \<Rightarrow> \<not> cidr_contains c ip"
  using cidr_parse_bound [OF assms]
  by (cases "cidr_addr c"; cases ip)
    (simp_all add: cidr_contains_def v4_masked_eq_iff v6_masked_eq_iff is_ipv4_def)

theorem cidr_contains_is_prefix_match_witness:
  "cidr_parse ''10.0.0.0/8'' = Inr \<lparr>cidr_addr = V4 167772160, cidr_prefix = 8\<rparr> \<and>
   (cidr_contains \<lparr>cidr_addr = V4 167772160, cidr_prefix = 8\<rparr> (V4 168430090) \<longleftrightarrow>
     drop_bit 24 (167772160 :: 32 word) = drop_bit 24 168430090)"
proof -
  have p: "cidr_parse ''10.0.0.0/8'' = Inr \<lparr>cidr_addr = V4 167772160, cidr_prefix = 8\<rparr>"
    by code_simp
  from cidr_contains_is_prefix_match [OF p, of "V4 168430090"] p show ?thesis by simp
qed

text \<open>A peer outside every configured proxy block is its own client address whatever its headers
  say, but behind a trusted proxy the resolved address is the leftmost hop of the forwarded header,
  whatever the proxies appended to it, so a client whose proxy appends to the header chooses the
  address it is rate-limited by.\<close>

theorem forwarded_leftmost_hop_wins:
  assumes "parse_ip_addr (str_trim hop) = Some ip" and "CHR '','' \<notin> set hop"
  shows "trusted_client_ip (headers(''x-forwarded-for'' \<mapsto> hop @ '','' @ appended)) peer proxies =
    (if \<exists>c \<in> set proxies. cidr_contains c peer then ip else peer)"
proof -
  have "takeWhile (\<lambda>c. c \<noteq> CHR '','') (hop @ '','' @ appended) = hop"
    using assms(2) by (subst takeWhile_append2) auto
  with assms(1) show ?thesis
    by (auto simp: trusted_client_ip_def client_ip_from_headers_def is_trusted_proxy_def list_ex_iff)
qed

theorem forwarded_leftmost_hop_wins_witness:
  "let proxies = [\<lparr>cidr_addr = V4 167772160, cidr_prefix = 8\<rparr>];
       headers = (\<lambda>_. None)(''x-forwarded-for'' \<mapsto> ''1.2.3.4'' @ '','' @ '' 5.6.7.8'')
   in trusted_client_ip headers (V4 167772161) proxies = V4 16909060
      \<and> trusted_client_ip headers (V4 7) proxies = V4 7"
proof -
  have p: "parse_ip_addr (str_trim ''1.2.3.4'') = Some (V4 16909060)" by code_simp
  have "cidr_contains \<lparr>cidr_addr = V4 167772160, cidr_prefix = 8\<rparr> (V4 167772161)"
    "\<not> cidr_contains \<lparr>cidr_addr = V4 167772160, cidr_prefix = 8\<rparr> (V4 7)" by code_simp+
  then show ?thesis
    by (simp add: Let_def forwarded_leftmost_hop_wins [OF p] del: append.simps)
qed

end
