(* ===== verification/FrickTable.thy ===== *)
theory FrickTable
  imports FrickPrelude
begin

text \<open>
  SQL tables as the stores use them: a table is its list of rows, \<open>SELECT ... WHERE\<close> is \<open>filter\<close> or
  \<open>find\<close>, \<open>INSERT ... ON CONFLICT DO UPDATE\<close> replaces the row with the same key in place or appends,
  \<open>DELETE\<close> filters, \<open>ORDER BY\<close> is a stable sort.  The primary key is the invariant that the keys of
  the rows are pairwise different.

  The interface \<open>row_store\<close> states what a client of a keyed store relies on; the lemmas of its
  clients are proved from it once and every store of the development that has a primary key
  is an instance.
\<close>

section \<open>Table operations\<close>

definition tbl_get :: "('r \<Rightarrow> 'k) \<Rightarrow> 'k \<Rightarrow> 'r list \<Rightarrow> 'r option" where
  "tbl_get key k rows = find (\<lambda>r. key r = k) rows"

fun tbl_upsert :: "('r \<Rightarrow> 'k) \<Rightarrow> 'r \<Rightarrow> 'r list \<Rightarrow> 'r list" where
  "tbl_upsert key r [] = [r]"
| "tbl_upsert key r (x # rows) = (if key x = key r then r # rows else x # tbl_upsert key r rows)"

definition tbl_delete :: "('r \<Rightarrow> 'k) \<Rightarrow> 'k \<Rightarrow> 'r list \<Rightarrow> 'r list" where
  "tbl_delete key k rows = filter (\<lambda>r. key r \<noteq> k) rows"

definition tbl_update :: "('r \<Rightarrow> bool) \<Rightarrow> ('r \<Rightarrow> 'r) \<Rightarrow> 'r list \<Rightarrow> 'r list" where
  "tbl_update p f rows = map (\<lambda>r. if p r then f r else r) rows"

definition tbl_ok :: "('r \<Rightarrow> 'k) \<Rightarrow> 'r list \<Rightarrow> bool" where
  "tbl_ok key rows \<longleftrightarrow> distinct (map key rows)"

definition order_by :: "('r \<Rightarrow> 'o::linorder) \<Rightarrow> 'r list \<Rightarrow> 'r list" where
  "order_by f rows = sort_key f rows"

definition order_by_desc :: "('r \<Rightarrow> 'o::linorder) \<Rightarrow> 'r list \<Rightarrow> 'r list" where
  "order_by_desc f rows = rev (sort_key f (rev rows))"

lemma set_order_by [simp]: "set (order_by f rows) = set rows" "set (order_by_desc f rows) = set rows"
  by (simp_all add: order_by_def order_by_desc_def)

lemma sorted_order_by: "sorted (map f (order_by f rows))"
  by (simp add: order_by_def)

lemma sorted_order_by_desc: "sorted (rev (map f (order_by_desc f rows)))"
  by (simp add: order_by_desc_def rev_map)

lemma tbl_get_Some: "tbl_get key k rows = Some r \<Longrightarrow> r \<in> set rows \<and> key r = k"
  by (auto simp: tbl_get_def dest: find_Some_set)

lemma tbl_get_None: "tbl_get key k rows = None \<longleftrightarrow> k \<notin> key ` set rows"
  by (auto simp: tbl_get_def find_None_iff)

lemma tbl_get_iff: "tbl_ok key rows \<Longrightarrow> tbl_get key k rows = Some r \<longleftrightarrow> r \<in> set rows \<and> key r = k"
  using tbl_get_Some find_distinct_key by (fastforce simp: tbl_get_def tbl_ok_def)

lemma ex_row_iff:
  assumes "tbl_ok key rows"
  shows "(\<exists>r \<in> set rows. key r = k \<and> P r) \<longleftrightarrow> (case tbl_get key k rows of Some r \<Rightarrow> P r | None \<Rightarrow> False)"
proof (cases "tbl_get key k rows")
  case None
  then show ?thesis using tbl_get_None [of key k rows] by (auto simp: image_iff)
next
  case (Some row)
  then have u: "r \<in> set rows \<and> key r = k \<longleftrightarrow> r = row" for r using tbl_get_iff [OF assms, of k r] by auto
  then have "(\<exists>r \<in> set rows. key r = k \<and> P r) \<longleftrightarrow> (\<exists>r. r = row \<and> P r)" by metis
  then show ?thesis using Some by simp
qed

lemma tbl_get_upsert: "tbl_get key k (tbl_upsert key r rows) = (if k = key r then Some r else tbl_get key k rows)"
  by (induction rows) (auto simp: tbl_get_def)

lemma set_tbl_upsert: "key ` set (tbl_upsert key r rows) = insert (key r) (key ` set rows)"
  by (induction rows) auto

lemma set_tbl_upsert_subset: "set (tbl_upsert key r rows) \<subseteq> insert r (set rows)"
  by (induction rows) auto

lemma in_set_tbl_upsert:
  "tbl_ok key rows \<Longrightarrow> x \<in> set (tbl_upsert key r rows) \<longleftrightarrow> x = r \<or> x \<in> set rows \<and> key x \<noteq> key r"
  by (induction rows) (auto simp: tbl_ok_def, metis image_eqI)

lemma tbl_ok_upsert: "tbl_ok key rows \<Longrightarrow> tbl_ok key (tbl_upsert key r rows)"
  by (induction rows) (auto simp: tbl_ok_def dest: set_mp [OF set_tbl_upsert_subset])

lemma tbl_get_delete: "tbl_get key k (tbl_delete key j rows) = (if k = j then None else tbl_get key k rows)"
  by (induction rows) (auto simp: tbl_get_def tbl_delete_def)

lemma tbl_ok_delete: "tbl_ok key rows \<Longrightarrow> tbl_ok key (tbl_delete key j rows)"
  by (simp add: tbl_ok_def tbl_delete_def distinct_map_filter)

lemma tbl_ok_filter: "tbl_ok key rows \<Longrightarrow> tbl_ok key (filter p rows)"
  by (simp add: tbl_ok_def distinct_map_filter)

lemma tbl_ok_update:
  assumes "\<And>r. p r \<Longrightarrow> key (f r) = key r"
  shows "tbl_ok key (tbl_update p f rows) \<longleftrightarrow> tbl_ok key rows"
proof -
  have "map key (tbl_update p f rows) = map key rows" using assms by (simp add: tbl_update_def)
  then show ?thesis by (simp add: tbl_ok_def)
qed

lemma tbl_get_update:
  assumes "\<And>r. p r \<Longrightarrow> key (f r) = key r"
  shows "tbl_get key k (tbl_update p f rows) = map_option (\<lambda>r. if p r then f r else r) (tbl_get key k rows)"
  using assms by (induction rows) (auto simp: tbl_get_def tbl_update_def)

section \<open>The interface of a keyed store\<close>

locale row_store =
  fixes key :: "'r \<Rightarrow> 'k"
    and invar :: "'s \<Rightarrow> bool"
    and lookup :: "'s \<Rightarrow> 'k \<Rightarrow> 'r option"
    and put :: "'r \<Rightarrow> 's \<Rightarrow> 's"
    and remove :: "'k \<Rightarrow> 's \<Rightarrow> 's"
  assumes lookup_put: "invar s \<Longrightarrow> lookup (put r s) = (lookup s)(key r \<mapsto> r)"
    and lookup_remove: "invar s \<Longrightarrow> lookup (remove k s) = (lookup s)(k := None)"
    and invar_put: "invar s \<Longrightarrow> invar (put r s)"
    and invar_remove: "invar s \<Longrightarrow> invar (remove k s)"
    and lookup_key: "invar s \<Longrightarrow> lookup s k = Some r \<Longrightarrow> key r = k"
begin

lemma read_your_write: "invar s \<Longrightarrow> lookup (put r s) (key r) = Some r"
  by (simp add: lookup_put)

lemma write_isolated: "invar s \<Longrightarrow> key r \<noteq> k \<Longrightarrow> lookup (put r s) k = lookup s k"
  by (simp add: lookup_put)

lemma last_write_wins: "invar s \<Longrightarrow> key r = key r' \<Longrightarrow> lookup (put r' (put r s)) = lookup (put r' s)"
  by (simp add: lookup_put invar_put)

lemma writes_commute:
  "invar s \<Longrightarrow> key r \<noteq> key r' \<Longrightarrow> lookup (put r (put r' s)) = lookup (put r' (put r s))"
  by (simp add: lookup_put invar_put fun_upd_twist)

lemma remove_after_write: "invar s \<Longrightarrow> lookup (remove (key r) (put r s)) = (lookup s)(key r := None)"
  by (simp add: lookup_put lookup_remove invar_put)

lemma invar_writes: "invar s \<Longrightarrow> invar (fold put rs s)"
  by (induction rs arbitrary: s) (auto intro: invar_put)

lemma lookup_writes: "invar s \<Longrightarrow> lookup (fold put rs s) = lookup s ++ map_of (map (\<lambda>r. (key r, r)) (rev rs))"
proof (induction rs arbitrary: s)
  case (Cons r rs)
  let ?m = "map_of (map (\<lambda>r. (key r, r)) (rev rs))"
  have "lookup (fold put (r # rs) s) = lookup (put r s) ++ ?m"
    using Cons.IH [OF invar_put [OF Cons.prems]] by simp
  also have "\<dots> = (lookup s)(key r \<mapsto> r) ++ ?m" by (simp only: lookup_put [OF Cons.prems])
  finally show ?case by simp
qed simp

end

locale table =
  fixes key :: "'r \<Rightarrow> 'k"

sublocale table \<subseteq> rows: row_store key "tbl_ok key" "\<lambda>rows k. tbl_get key k rows" "tbl_upsert key" "tbl_delete key"
  by unfold_locales (auto simp: tbl_get_upsert tbl_get_delete tbl_ok_upsert tbl_ok_delete fun_upd_def
      dest: tbl_get_Some)

end
