(* ===== verification/FrickAuthz.thy ===== *)
theory FrickAuthz
  imports FrickSchema FrickTable
begin

text \<open>
  Authorization: principals (\<open>principal.rs\<close>), the baseline decision and the policy hooks
  (\<open>authz.rs\<close>), sharing grants (\<open>frick-store/src/stores/grant.rs\<close>) and per-record read visibility
  (\<open>object_visibility.rs\<close>).

  A policy hook is a function from its input to an optional decision; hooks are registered by the
  application and are arguments.  The \<open>grants\<close> table is its list of rows.
\<close>

section \<open>Principals\<close>

datatype principal_scope = ScopeTenant | ScopeAdmin | ScopeService

record principal =
  p_user_id :: string
  p_device_id :: string
  p_replica_id :: string
  p_tenant_id :: string
  p_scope :: principal_scope
  p_service_scopes :: "string list"

definition DEFAULT_TENANT_ID :: string where "DEFAULT_TENANT_ID = ''_default''"
definition ARCHIVED_TENANT_PREFIX :: string where "ARCHIVED_TENANT_PREFIX = ''_archived_''"

definition admin_principal :: principal where
  "admin_principal = \<lparr>p_user_id = ''_admin'', p_device_id = ''_admin'', p_replica_id = ''_admin'',
     p_tenant_id = DEFAULT_TENANT_ID, p_scope = ScopeAdmin, p_service_scopes = []\<rparr>"

definition is_admin :: "principal \<Rightarrow> bool" where
  "is_admin p \<longleftrightarrow> p_scope p = ScopeAdmin"

definition is_active_cheap :: "principal \<Rightarrow> bool" where
  "is_active_cheap p \<longleftrightarrow> is_admin p \<or> \<not> starts_with (p_tenant_id p) ARCHIVED_TENANT_PREFIX"

definition connection_key :: "principal \<Rightarrow> string" where
  "connection_key p = p_tenant_id p @ CHR 0x00 # p_user_id p"

section \<open>Decisions\<close>

datatype action = ObjectRead | ObjectWrite | StreamRead | StreamAppend | PresenceRead | PresenceWrite
  | SignalSend | SignalRead | BlobRead | BlobWrite | ProjectionRead | SearchQuery | CallCreate

datatype deny_reason = Unauthenticated | NotAuthorizedForResource | NotMember | OwnerMismatch
  | SchemaIncompatibleReason | TenantMismatch

datatype decision = Allow | Deny deny_reason string

fun is_allow :: "decision \<Rightarrow> bool" where
  "is_allow Allow = True"
| "is_allow (Deny _ _) = False"

record resource_context =
  rc_tenant_id :: string
  rc_owner_user_id :: "string option"

definition decide_baseline :: "principal \<Rightarrow> action \<Rightarrow> resource_context \<Rightarrow> decision" where
  "decide_baseline p a resource =
    (if p_user_id p = [] then Deny Unauthenticated ''Not authenticated''
     else if p_scope p \<noteq> ScopeAdmin \<and> rc_tenant_id resource \<noteq> []
        \<and> rc_tenant_id resource \<noteq> p_tenant_id p then Deny TenantMismatch ''Tenant mismatch''
     else if a = ObjectRead \<or> a = ObjectWrite \<or> a = BlobRead \<or> a = BlobWrite then
       (case rc_owner_user_id resource of
          Some owner \<Rightarrow> if owner = p_user_id p then Allow
                        else Deny OwnerMismatch ''Not the resource owner''
        | None \<Rightarrow> Allow)
     else Allow)"

record policy_resource =
  pol_kind :: string
  pol_name :: "string option"
  pol_key :: "string option"
  pol_event :: "string option"
  pol_owner_id :: "string option"
  pol_tenant_id :: string

record policy_input =
  pi_principal :: principal
  pi_action :: action
  pi_resource :: policy_resource
  pi_context :: "value option"

type_synonym policy_hook = "policy_input \<Rightarrow> decision option"

fun run_hooks :: "decision \<Rightarrow> policy_input \<Rightarrow> policy_hook list \<Rightarrow> decision" where
  "run_hooks baseline input [] = baseline"
| "run_hooks baseline input (hook # hooks) =
    (case hook input of
       Some (Deny r m) \<Rightarrow> Deny r m
     | _ \<Rightarrow> run_hooks baseline input hooks)"

definition apply_policy_hooks :: "decision \<Rightarrow> policy_input \<Rightarrow> policy_hook list \<Rightarrow> decision" where
  "apply_policy_hooks baseline input hooks =
    (if \<not> is_allow baseline \<or> hooks = [] then baseline else run_hooks baseline input hooks)"

section \<open>Sharing grants\<close>

definition sharing_permission_satisfies :: "string \<Rightarrow> string \<Rightarrow> bool" where
  "sharing_permission_satisfies permission required =
    (if required = ''read'' then permission = ''read'' \<or> permission = ''write''
     else permission = ''write'')"

record grant =
  g_id :: string
  g_tenant_id :: string
  g_owner_user_id :: string
  g_record_type :: string
  g_record_id :: string
  g_grantee_user_id :: string
  g_permission :: string
  g_created_at :: string
  g_revoked_at :: "string option"

record create_grant_args =
  cg_id :: string
  cg_tenant_id :: string
  cg_owner_user_id :: string
  cg_record_type :: string
  cg_record_id :: string
  cg_grantee_user_id :: string
  cg_permission :: string
  cg_created_at :: string

record list_grants_args =
  lg_tenant_id :: string
  lg_principal_user_id :: string
  lg_record_type :: "string option"
  lg_record_id :: "string option"
  lg_include_revoked :: bool

definition grants_is_empty :: "grant list \<Rightarrow> bool" where
  "grants_is_empty grants \<longleftrightarrow> grants = []"

definition grant_of_args :: "create_grant_args \<Rightarrow> grant" where
  "grant_of_args args = \<lparr>g_id = cg_id args, g_tenant_id = cg_tenant_id args,
     g_owner_user_id = cg_owner_user_id args, g_record_type = cg_record_type args,
     g_record_id = cg_record_id args, g_grantee_user_id = cg_grantee_user_id args,
     g_permission = cg_permission args, g_created_at = cg_created_at args, g_revoked_at = None\<rparr>"

text \<open>\<open>INSERT\<close> fails on a duplicate primary key and then leaves the table as it was.\<close>

definition create_grant :: "create_grant_args \<Rightarrow> grant list \<Rightarrow> (string, grant) result \<times> grant list" where
  "create_grant args grants =
    (if tbl_get g_id (cg_id args) grants \<noteq> None
     then (Err ''UNIQUE constraint failed: grants.id'', grants)
     else (Ok (grant_of_args args), grants @ [grant_of_args args]))"

definition grant_get_by_id :: "grant list \<Rightarrow> string \<Rightarrow> string \<Rightarrow> grant option" where
  "grant_get_by_id grants tenant_id i = find (\<lambda>g. g_tenant_id g = tenant_id \<and> g_id g = i) grants"

definition list_grants :: "list_grants_args \<Rightarrow> grant list \<Rightarrow> grant list" where
  "list_grants args grants = order_by_desc g_created_at (order_by g_id (filter (\<lambda>g.
      g_tenant_id g = lg_tenant_id args
    \<and> (g_owner_user_id g = lg_principal_user_id args \<or> g_grantee_user_id g = lg_principal_user_id args)
    \<and> (case lg_record_type args of None \<Rightarrow> True | Some t \<Rightarrow> g_record_type g = t)
    \<and> (case lg_record_id args of None \<Rightarrow> True | Some i \<Rightarrow> g_record_id g = i)
    \<and> (lg_include_revoked args \<or> g_revoked_at g = None)) grants))"

definition revoke_grant :: "string \<Rightarrow> string \<Rightarrow> string \<Rightarrow> grant list \<Rightarrow> grant option \<times> grant list" where
  "revoke_grant tenant_id i now grants =
    (case grant_get_by_id grants tenant_id i of
       None \<Rightarrow> (None, grants)
     | Some existing \<Rightarrow>
         if g_revoked_at existing \<noteq> None then (Some existing, grants)
         else (Some (existing\<lparr>g_revoked_at := Some now\<rparr>),
               tbl_update (\<lambda>g. g_tenant_id g = tenant_id \<and> g_id g = i \<and> g_revoked_at g = None)
                 (\<lambda>g. g\<lparr>g_revoked_at := Some now\<rparr>) grants))"

definition has_active_grant_for ::
  "grant list \<Rightarrow> string \<Rightarrow> string \<Rightarrow> string \<Rightarrow> string \<Rightarrow> string \<Rightarrow> bool" where
  "has_active_grant_for grants tenant_id grantee_user_id record_type record_id required =
     list_ex (\<lambda>g. sharing_permission_satisfies (g_permission g) required)
       (filter (\<lambda>g. g_tenant_id g = tenant_id \<and> g_grantee_user_id g = grantee_user_id
          \<and> g_record_type g = record_type \<and> g_record_id g = record_id \<and> g_revoked_at g = None) grants)"

definition has_active_grant_for_record_id :: "grant list \<Rightarrow> string \<Rightarrow> string \<Rightarrow> string \<Rightarrow> bool" where
  "has_active_grant_for_record_id grants tenant_id grantee_user_id record_id =
     list_ex (\<lambda>g. sharing_permission_satisfies (g_permission g) ''read'')
       (filter (\<lambda>g. g_tenant_id g = tenant_id \<and> g_grantee_user_id g = grantee_user_id
          \<and> g_record_id g = record_id \<and> g_revoked_at g = None) grants)"

section \<open>Per-record visibility\<close>

datatype object_visibility_mode = OwnerScoped | TenantWide

definition CONVENTIONAL_OWNER_FIELD :: string where
  "CONVENTIONAL_OWNER_FIELD = ''ownerUserId''"

definition parse_visibility_mode :: "string \<Rightarrow> object_visibility_mode option" where
  "parse_visibility_mode raw =
    (if str_trim raw \<in> {''ownerScoped'', ''owner_scoped'', ''owner-scoped''} then Some OwnerScoped
     else if str_trim raw \<in> {''tenantWide'', ''tenant_wide'', ''tenant-wide''} then Some TenantWide
     else None)"

definition owner_field_for_type :: "frick_schema \<Rightarrow> string \<Rightarrow> string option" where
  "owner_field_for_type schema object_type =
    (case object_by_name schema object_type of
       Inl _ \<Rightarrow> None
     | Inr object \<Rightarrow> map_option fd_name (find (\<lambda>field. fd_name field = CONVENTIONAL_OWNER_FIELD
         \<and> fd_kind field = FK_String) (ob_fields object)))"

definition object_field_str :: "value \<Rightarrow> string \<Rightarrow> string option" where
  "object_field_str object field =
     Option.bind (as_map object) (\<lambda>entries.
       Option.bind (find (\<lambda>e. as_str (fst e) = Some field) entries) (\<lambda>e. as_str (snd e)))"

definition object_record_id :: "value \<Rightarrow> string option" where
  "object_record_id object = object_field_str object ''id''"

definition is_object_visible_to_user ::
  "object_visibility_mode \<Rightarrow> string option \<Rightarrow> value \<Rightarrow> string \<Rightarrow> bool" where
  "is_object_visible_to_user mode owner_field object user_id =
    (if mode = TenantWide then True
     else case owner_field of
       None \<Rightarrow> True
     | Some field \<Rightarrow> (case object_field_str object field of
         Some owner \<Rightarrow> if owner \<noteq> [] then owner = user_id else True
       | None \<Rightarrow> True))"

definition per_record_read_authz_active :: "grant list \<Rightarrow> bool" where
  "per_record_read_authz_active grants = (\<not> grants_is_empty grants)"

definition subscriber_can_read_object ::
  "grant list \<Rightarrow> object_visibility_mode \<Rightarrow> string option \<Rightarrow> principal \<Rightarrow> string \<Rightarrow> value \<Rightarrow> bool
    \<Rightarrow> string option \<Rightarrow> bool" where
  "subscriber_can_read_object grants mode owner_field p object_type object per_record_active writer_user_id =
    (let baseline = (writer_user_id = Some (p_user_id p)
           \<or> is_object_visible_to_user mode owner_field object (p_user_id p));
         visible = (is_admin p \<or> baseline)
     in if visible then True
        else if \<not> per_record_active then False
        else case object_record_id object of
          None \<Rightarrow> False
        | Some i \<Rightarrow> has_active_grant_for grants (p_tenant_id p) (p_user_id p) object_type i ''read'')"

definition subscriber_can_read_object_with_hooks ::
  "grant list \<Rightarrow> policy_hook list \<Rightarrow> object_visibility_mode \<Rightarrow> string option \<Rightarrow> principal \<Rightarrow> string
    \<Rightarrow> value \<Rightarrow> bool \<Rightarrow> string option \<Rightarrow> bool" where
  "subscriber_can_read_object_with_hooks grants hooks mode owner_field p object_type object
     per_record_active writer_user_id =
    (let owner_baseline = (writer_user_id = Some (p_user_id p)
           \<or> is_object_visible_to_user mode owner_field object (p_user_id p));
         baseline_decision = (if is_admin p \<or> owner_baseline then Allow
           else Deny OwnerMismatch ''Not the resource owner'');
         owner_id = object_field_str object
           (case owner_field of None \<Rightarrow> CONVENTIONAL_OWNER_FIELD | Some f \<Rightarrow> f);
         record_id = object_record_id object;
         decision = apply_policy_hooks baseline_decision
           \<lparr>pi_principal = p, pi_action = ObjectRead,
            pi_resource = \<lparr>pol_kind = ''object'', pol_name = Some object_type, pol_key = record_id,
              pol_event = None, pol_owner_id = owner_id, pol_tenant_id = p_tenant_id p\<rparr>,
            pi_context = Some object\<rparr> hooks
     in if is_allow decision then True
        else if \<not> per_record_active then False
        else case object_record_id object of
          None \<Rightarrow> False
        | Some i \<Rightarrow> has_active_grant_for grants (p_tenant_id p) (p_user_id p) object_type i ''read'')"

section \<open>Decisions\<close>

lemma decide_baseline_allow_iff:
  "is_allow (decide_baseline p a r) \<longleftrightarrow> p_user_id p \<noteq> []
     \<and> (p_scope p = ScopeAdmin \<or> rc_tenant_id r = [] \<or> rc_tenant_id r = p_tenant_id p)
     \<and> (a \<in> {ObjectRead, ObjectWrite, BlobRead, BlobWrite} \<longrightarrow>
          rc_owner_user_id r = None \<or> rc_owner_user_id r = Some (p_user_id p))"
  by (auto simp: decide_baseline_def split: option.splits)

definition denies :: "policy_input \<Rightarrow> policy_hook \<Rightarrow> bool" where
  "denies input hook = (case hook input of Some d \<Rightarrow> \<not> is_allow d | None \<Rightarrow> False)"

lemma run_hooks_first_deny:
  "run_hooks b input hooks = (case find (denies input) hooks of
     None \<Rightarrow> b | Some hook \<Rightarrow> the (hook input))"
  by (induction hooks) (auto simp: denies_def split: option.splits decision.splits)

lemma apply_policy_hooks_first_deny:
  "apply_policy_hooks b input hooks = (if is_allow b
     then (case find (denies input) hooks of None \<Rightarrow> b | Some hook \<Rightarrow> the (hook input)) else b)"
  by (simp add: apply_policy_hooks_def run_hooks_first_deny)

lemma apply_policy_hooks_allow_iff:
  "is_allow (apply_policy_hooks b input hooks) \<longleftrightarrow> is_allow b \<and> (\<forall>h \<in> set hooks. \<not> denies input h)"
proof -
  have "\<not> is_allow (the (h input))" if "denies input h" for h
    using that by (auto simp: denies_def split: option.splits)
  moreover have "h \<in> set hooks \<and> denies input h" if "find (denies input) hooks = Some h" for h
    using find_Some_set [OF that] by simp
  ultimately show ?thesis
    by (auto simp: apply_policy_hooks_first_deny find_None_iff split: option.splits)
qed

section \<open>Grants\<close>

interpretation grants_table: table g_id .

definition active_grant :: "grant \<Rightarrow> string \<Rightarrow> string \<Rightarrow> string \<Rightarrow> string \<Rightarrow> string \<Rightarrow> bool" where
  "active_grant g tenant user rtype rid req \<longleftrightarrow> g_tenant_id g = tenant \<and> g_grantee_user_id g = user
     \<and> g_record_type g = rtype \<and> g_record_id g = rid \<and> g_revoked_at g = None
     \<and> sharing_permission_satisfies (g_permission g) req"

lemma has_active_grant_for_iff:
  "has_active_grant_for gs tenant user rtype rid req \<longleftrightarrow> (\<exists>g \<in> set gs. active_grant g tenant user rtype rid req)"
  by (auto simp: has_active_grant_for_def active_grant_def list_ex_iff)

lemma create_grant_ok [frick_inv]:
  "tbl_ok g_id gs \<Longrightarrow> tbl_ok g_id (snd (create_grant args gs))"
  by (auto simp: create_grant_def tbl_ok_def tbl_get_None grant_of_args_def)

lemma revoke_grant_ok [frick_inv]:
  "tbl_ok g_id gs \<Longrightarrow> tbl_ok g_id (snd (revoke_grant tenant i now gs))"
  by (auto simp: revoke_grant_def tbl_ok_update split: option.splits)

lemma grant_get_by_id_iff:
  assumes "tbl_ok g_id gs"
  shows "grant_get_by_id gs tenant i = Some g \<longleftrightarrow> g \<in> set gs \<and> g_tenant_id g = tenant \<and> g_id g = i"
proof
  assume "grant_get_by_id gs tenant i = Some g"
  then show "g \<in> set gs \<and> g_tenant_id g = tenant \<and> g_id g = i"
    unfolding grant_get_by_id_def by (auto dest: find_Some_set)
next
  assume g: "g \<in> set gs \<and> g_tenant_id g = tenant \<and> g_id g = i"
  have "h = g" if "h \<in> set gs" "g_id h = i" for h
    using assms g that by (auto simp: tbl_ok_def distinct_map inj_on_def)
  with g show "grant_get_by_id gs tenant i = Some g"
    unfolding grant_get_by_id_def
    by (cases "find (\<lambda>g. g_tenant_id g = tenant \<and> g_id g = i) gs")
      (auto simp: find_None_iff dest: find_Some_set)
qed

text \<open>The rows of the table after a revocation.\<close>

lemma set_revoke_grant:
  assumes "tbl_ok g_id gs"
  shows "set (snd (revoke_grant tenant i now gs)) =
     (\<lambda>g. if g_tenant_id g = tenant \<and> g_id g = i \<and> g_revoked_at g = None
          then g\<lparr>g_revoked_at := Some now\<rparr> else g) ` set gs"
proof (cases "grant_get_by_id gs tenant i")
  case None
  then have "\<not> (\<exists>g \<in> set gs. g_tenant_id g = tenant \<and> g_id g = i)"
    by (auto simp: grant_get_by_id_def find_None_iff)
  then show ?thesis using None by (auto simp: revoke_grant_def)
next
  case (Some e)
  then have e: "e \<in> set gs" "g_tenant_id e = tenant" "g_id e = i"
    using grant_get_by_id_iff [OF assms] by auto
  have u: "h = e" if "h \<in> set gs" "g_id h = i" for h
    using assms e that by (auto simp: tbl_ok_def distinct_map inj_on_def)
  show ?thesis
  proof (cases "g_revoked_at e")
    case None
    with Some show ?thesis by (auto simp: revoke_grant_def tbl_update_def)
  next
    case (Some w)
    with u have "(if g_tenant_id g = tenant \<and> g_id g = i \<and> g_revoked_at g = None
        then g\<lparr>g_revoked_at := Some now\<rparr> else g) = g" if "g \<in> set gs" for g
      using that by auto
    then have "(\<lambda>g. if g_tenant_id g = tenant \<and> g_id g = i \<and> g_revoked_at g = None
        then g\<lparr>g_revoked_at := Some now\<rparr> else g) ` set gs = set gs" by simp
    with \<open>grant_get_by_id gs tenant i = Some e\<close> Some show ?thesis by (simp add: revoke_grant_def)
  qed
qed

lemma has_active_after_revoke:
  assumes "tbl_ok g_id gs"
  shows "has_active_grant_for (snd (revoke_grant t i now gs)) tenant user rtype rid req \<longleftrightarrow>
    (\<exists>g \<in> set gs. \<not> (g_tenant_id g = t \<and> g_id g = i) \<and> active_grant g tenant user rtype rid req)"
  unfolding has_active_grant_for_iff set_revoke_grant [OF assms]
  by (auto simp: active_grant_def split: if_splits)

lemma revoke_grant_idempotent:
  assumes "tbl_ok g_id gs"
  shows "snd (revoke_grant t i now' (snd (revoke_grant t i now gs))) = snd (revoke_grant t i now gs)"
proof -
  let ?gs' = "snd (revoke_grant t i now gs)"
  have ok: "tbl_ok g_id ?gs'" using assms by (rule revoke_grant_ok)
  have "g_revoked_at e \<noteq> None" if "grant_get_by_id ?gs' t i = Some e" for e
  proof -
    from that have "e \<in> set ?gs'" "g_tenant_id e = t" "g_id e = i"
      using grant_get_by_id_iff [OF ok] by auto
    note e = this
    from e(1) [unfolded set_revoke_grant [OF assms]] obtain g where
      g: "e = (if g_tenant_id g = t \<and> g_id g = i \<and> g_revoked_at g = None
            then g\<lparr>g_revoked_at := Some now\<rparr> else g)" by (rule imageE)
    show ?thesis
    proof (cases "g_tenant_id g = t \<and> g_id g = i \<and> g_revoked_at g = None")
      case True
      with g have "e = g\<lparr>g_revoked_at := Some now\<rparr>" by simp
      then show ?thesis by simp
    next
      case False
      with g have "e = g" by simp
      with False e(2,3) show ?thesis by simp
    qed
  qed
  then show ?thesis unfolding revoke_grant_def [of t i now' ?gs'] by (auto split: option.splits)
qed

section \<open>Properties\<close>

text \<open>C6: the decision pipeline of baseline and policy hooks allows exactly when the principal is
  authenticated, is admin or stays in its tenant (or the resource names none), owns the resource
  where the action is owner-scoped and an owner is recorded, and no hook denies; hooks never turn a
  denial into an allowance, and a denial is the baseline's or that of the first denying hook.\<close>

theorem authz_pipeline_exact:
  "(is_allow (apply_policy_hooks (decide_baseline p a r) input hooks) \<longleftrightarrow>
      p_user_id p \<noteq> []
      \<and> (p_scope p = ScopeAdmin \<or> rc_tenant_id r = [] \<or> rc_tenant_id r = p_tenant_id p)
      \<and> (a \<in> {ObjectRead, ObjectWrite, BlobRead, BlobWrite} \<longrightarrow>
           rc_owner_user_id r = None \<or> rc_owner_user_id r = Some (p_user_id p))
      \<and> (\<forall>h \<in> set hooks. \<not> denies input h))
   \<and> (\<not> is_allow (apply_policy_hooks b input hooks) \<longrightarrow>
      apply_policy_hooks b input hooks = b
      \<or> (\<exists>h. find (denies input) hooks = Some h \<and> h input = Some (apply_policy_hooks b input hooks)))"
proof -
  have "h input = Some (the (h input))" if "find (denies input) hooks = Some h" for h
    using find_Some_set [OF that] by (auto simp: denies_def split: option.splits)
  then show ?thesis
    unfolding apply_policy_hooks_allow_iff decide_baseline_allow_iff
    by (auto simp: apply_policy_hooks_first_deny split: option.splits)
qed

definition sample_input :: policy_input where
  "sample_input = \<lparr>pi_principal = admin_principal, pi_action = CallCreate,
     pi_resource = \<lparr>pol_kind = ''call'', pol_name = None, pol_key = None, pol_event = None,
       pol_owner_id = None, pol_tenant_id = DEFAULT_TENANT_ID\<rparr>, pi_context = None\<rparr>"

theorem authz_pipeline_exact_witness:
  "(is_allow (apply_policy_hooks (decide_baseline admin_principal CallCreate
       \<lparr>rc_tenant_id = ''t'', rc_owner_user_id = None\<rparr>) sample_input [\<lambda>_. None]))
   \<and> \<not> is_allow (apply_policy_hooks Allow sample_input [\<lambda>_. Some (Deny NotMember ''no'')])"
  using authz_pipeline_exact [of admin_principal CallCreate "\<lparr>rc_tenant_id = ''t'', rc_owner_user_id = None\<rparr>"
      sample_input "[\<lambda>_. None]"]
  by (simp add: admin_principal_def denies_def apply_policy_hooks_def)

lemma is_object_visible_iff:
  "is_object_visible_to_user mode own ob u \<longleftrightarrow> mode = TenantWide
     \<or> (\<forall>f owner. own = Some f \<and> object_field_str ob f = Some owner \<and> owner \<noteq> [] \<longrightarrow> owner = u)"
  by (auto simp: is_object_visible_to_user_def split: option.split)

lemma not_denies_iff: "\<not> denies input h \<longleftrightarrow> (\<forall>d. h input = Some d \<longrightarrow> d = Allow)"
  by (cases "h input") (auto simp: denies_def elim: is_allow.elims)

lemma can_read_iff:
  "subscriber_can_read_object gs mode own p ty ob act w \<longleftrightarrow>
     p_scope p = ScopeAdmin \<or> w = Some (p_user_id p) \<or> mode = TenantWide
       \<or> (\<forall>f owner. own = Some f \<and> object_field_str ob f = Some owner \<and> owner \<noteq> [] \<longrightarrow> owner = p_user_id p)
     \<or> act \<and> (\<exists>i. object_record_id ob = Some i \<and> (\<exists>g \<in> set gs. active_grant g (p_tenant_id p) (p_user_id p) ty i ''read''))"
  by (auto simp: subscriber_can_read_object_def Let_def is_object_visible_iff is_admin_def has_active_grant_for_iff
      split: option.split)

lemma can_read_with_hooks_iff:
  "subscriber_can_read_object_with_hooks gs hooks mode own p ty ob act w \<longleftrightarrow>
     (p_scope p = ScopeAdmin \<or> w = Some (p_user_id p) \<or> mode = TenantWide
        \<or> (\<forall>f owner. own = Some f \<and> object_field_str ob f = Some owner \<and> owner \<noteq> [] \<longrightarrow> owner = p_user_id p))
     \<and> (\<forall>h \<in> set hooks. \<forall>d. h \<lparr>pi_principal = p, pi_action = ObjectRead,
           pi_resource = \<lparr>pol_kind = ''object'', pol_name = Some ty, pol_key = object_record_id ob, pol_event = None,
             pol_owner_id = object_field_str ob (case own of None \<Rightarrow> CONVENTIONAL_OWNER_FIELD | Some f \<Rightarrow> f),
             pol_tenant_id = p_tenant_id p\<rparr>, pi_context = Some ob\<rparr> = Some d \<longrightarrow> d = Allow)
     \<or> act \<and> (\<exists>i. object_record_id ob = Some i \<and> (\<exists>g \<in> set gs. active_grant g (p_tenant_id p) (p_user_id p) ty i ''read''))"
  unfolding subscriber_can_read_object_with_hooks_def Let_def apply_policy_hooks_allow_iff not_denies_iff is_object_visible_iff is_admin_def
  by (auto simp: has_active_grant_for_iff split: option.split)

text \<open>C19: with policy hooks a row is readable exactly when it is readable at baseline (the reader is
  admin, wrote it, visibility is tenant-wide, or the row names no other owner in the declared owner
  field) and no hook denies a read of this record by this reader, or when the per-record check is on
  and a live read grant of the reader's tenant covers this very record.  So hooks only hide rows, a
  grant is never overridden by them, and without hooks the two pipelines agree.\<close>

theorem visibility_with_hooks:
  "(subscriber_can_read_object_with_hooks gs hooks mode own p ty ob act w \<longleftrightarrow>
      (p_scope p = ScopeAdmin \<or> w = Some (p_user_id p) \<or> mode = TenantWide
         \<or> (\<forall>f owner. own = Some f \<and> object_field_str ob f = Some owner \<and> owner \<noteq> [] \<longrightarrow> owner = p_user_id p))
      \<and> (\<forall>h \<in> set hooks. \<forall>d. h \<lparr>pi_principal = p, pi_action = ObjectRead,
            pi_resource = \<lparr>pol_kind = ''object'', pol_name = Some ty, pol_key = object_record_id ob, pol_event = None,
              pol_owner_id = object_field_str ob (case own of None \<Rightarrow> CONVENTIONAL_OWNER_FIELD | Some f \<Rightarrow> f),
              pol_tenant_id = p_tenant_id p\<rparr>, pi_context = Some ob\<rparr> = Some d \<longrightarrow> d = Allow)
      \<or> act \<and> (\<exists>i. object_record_id ob = Some i
           \<and> (\<exists>g \<in> set gs. active_grant g (p_tenant_id p) (p_user_id p) ty i ''read'')))
   \<and> (subscriber_can_read_object_with_hooks gs hooks mode own p ty ob act w \<longrightarrow>
      subscriber_can_read_object gs mode own p ty ob act w)
   \<and> subscriber_can_read_object_with_hooks gs [] mode own p ty ob act w =
      subscriber_can_read_object gs mode own p ty ob act w
   \<and> (act \<and> object_record_id ob = Some i
      \<and> (\<exists>g \<in> set gs. active_grant g (p_tenant_id p) (p_user_id p) ty i ''read'') \<longrightarrow>
      subscriber_can_read_object_with_hooks gs hooks mode own p ty ob act w)"
  unfolding can_read_with_hooks_iff can_read_iff by auto

definition sample_grant :: grant where
  "sample_grant = \<lparr>g_id = ''g1'', g_tenant_id = ''t'', g_owner_user_id = ''ada'', g_record_type = ''Note'',
     g_record_id = ''n1'', g_grantee_user_id = ''bob'', g_permission = ''write'',
     g_created_at = ''2024-01-01T00:00:00.000Z'', g_revoked_at = None\<rparr>"

definition bob :: principal where
  "bob = \<lparr>p_user_id = ''bob'', p_device_id = ''d'', p_replica_id = ''r'', p_tenant_id = ''t'',
     p_scope = ScopeTenant, p_service_scopes = []\<rparr>"

theorem visibility_with_hooks_witness:
  "subscriber_can_read_object_with_hooks [sample_grant] [\<lambda>_. Some (Deny NotMember ''no'')] OwnerScoped
     (Some ''ownerUserId'') bob ''Note''
     (VMap [(VString ''id'', VString ''n1''), (VString ''ownerUserId'', VString ''ada'')]) True None
   \<and> \<not> subscriber_can_read_object_with_hooks [] [\<lambda>_. None, \<lambda>_. Some (Deny NotMember ''no'')] TenantWide
     (Some ''ownerUserId'') bob ''Note'' (VMap [(VString ''id'', VString ''n1'')]) True None"
  using visibility_with_hooks [of "[sample_grant]" "[\<lambda>_. Some (Deny NotMember ''no'')]" OwnerScoped
      "Some ''ownerUserId''" bob "''Note''"
      "VMap [(VString ''id'', VString ''n1''), (VString ''ownerUserId'', VString ''ada'')]" True None "''n1''"]
    visibility_with_hooks [of "[]" "[\<lambda>_. None, \<lambda>_. Some (Deny NotMember ''no'')]" TenantWide
      "Some ''ownerUserId''" bob "''Note''" "VMap [(VString ''id'', VString ''n1'')]" True None "''n1''"]
  by (simp add: object_record_id_def object_field_str_def active_grant_def sample_grant_def bob_def
      sharing_permission_satisfies_def)

text \<open>Creating a grant with a fresh id makes it active for its grantee and record, revoking it
  ends exactly that grant and no other, revoking again (at any time) changes nothing, and both
  operations keep grant ids unique.\<close>

theorem grant_lifecycle:
  assumes "tbl_ok g_id gs"
  shows "(cg_id args \<notin> g_id ` set gs \<longrightarrow> has_active_grant_for (snd (create_grant args gs)) (cg_tenant_id args)
        (cg_grantee_user_id args) (cg_record_type args) (cg_record_id args) req
      \<longleftrightarrow> sharing_permission_satisfies (cg_permission args) req
        \<or> has_active_grant_for gs (cg_tenant_id args) (cg_grantee_user_id args) (cg_record_type args)
            (cg_record_id args) req)
    \<and> (has_active_grant_for (snd (revoke_grant t i now gs)) tenant user rtype rid req \<longleftrightarrow>
        (\<exists>g \<in> set gs. \<not> (g_tenant_id g = t \<and> g_id g = i) \<and> active_grant g tenant user rtype rid req))
    \<and> snd (revoke_grant t i now' (snd (revoke_grant t i now gs))) = snd (revoke_grant t i now gs)
    \<and> tbl_ok g_id (snd (create_grant args gs)) \<and> tbl_ok g_id (snd (revoke_grant t i now gs))"
proof -
  have "has_active_grant_for (snd (create_grant args gs)) (cg_tenant_id args)
        (cg_grantee_user_id args) (cg_record_type args) (cg_record_id args) req
      \<longleftrightarrow> sharing_permission_satisfies (cg_permission args) req
        \<or> has_active_grant_for gs (cg_tenant_id args) (cg_grantee_user_id args) (cg_record_type args)
            (cg_record_id args) req"
    if "cg_id args \<notin> g_id ` set gs"
    using that by (auto simp: create_grant_def tbl_get_None has_active_grant_for_iff active_grant_def
        grant_of_args_def)
  then show ?thesis
    using has_active_after_revoke [OF assms] revoke_grant_idempotent [OF assms]
      create_grant_ok [OF assms] revoke_grant_ok [OF assms] by blast
qed

theorem grant_lifecycle_witness:
  "tbl_ok g_id [sample_grant] \<and>
   \<not> has_active_grant_for (snd (revoke_grant ''t'' ''g1'' ''now'' [sample_grant])) ''t'' ''bob'' ''Note'' ''n1'' ''read''"
proof -
  have ok: "tbl_ok g_id [sample_grant]" by (simp add: tbl_ok_def)
  then show ?thesis using grant_lifecycle [OF ok] by (simp add: sample_grant_def)
qed

text \<open>Tenants whose ids carry no NUL byte never share a connection key: the key determines the
  tenant and the user.\<close>

theorem connection_key_injective:
  assumes "CHR 0x00 \<notin> set (p_tenant_id p)" "CHR 0x00 \<notin> set (p_tenant_id q)"
  shows "connection_key p = connection_key q \<longleftrightarrow> p_tenant_id p = p_tenant_id q \<and> p_user_id p = p_user_id q"
proof
  assume eq: "connection_key p = connection_key q"
  have "takeWhile (\<lambda>c. c \<noteq> CHR 0x00) (connection_key r) = p_tenant_id r"
    if "CHR 0x00 \<notin> set (p_tenant_id r)" for r
    using that unfolding connection_key_def by (subst takeWhile_append2) auto
  with assms eq have "p_tenant_id p = p_tenant_id q" by metis
  with eq show "p_tenant_id p = p_tenant_id q \<and> p_user_id p = p_user_id q"
    by (simp add: connection_key_def)
qed (simp add: connection_key_def)

theorem connection_key_injective_witness:
  "connection_key bob \<noteq> connection_key admin_principal"
  using connection_key_injective [of bob admin_principal]
  by (simp add: bob_def admin_principal_def DEFAULT_TENANT_ID_def)

end
