(* ===== verification/FrickEncryption.thy ===== *)
theory FrickEncryption
  imports FrickSchema
begin

text \<open>
  Storage errors (\<open>frick-store/src/error.rs\<close>) and at-rest encryption
  (\<open>frick-store/src/encryption.rs\<close>): the key providers, the envelope format around the cipher, and
  the text form.

  The primitives are code of other packages and therefore an argument of type \<open>crypto\<close>: the key
  derivation (\<open>hkdf\<close>), the authenticated cipher (\<open>chacha20poly1305\<close>), base64 and hexadecimal
  decoding.  The key helper a command provider runs is an argument as well, and so are the
  environment and the random nonce.  What the theorems need of the cipher is stated where they need
  it: opening what was sealed returns it, and under its own key a ciphertext opens with no other
  associated data.
\<close>

section \<open>Errors\<close>

datatype store_error =
    Driver string
  | Migration string
  | MigrationChecksum string
  | MigrationRevision string
  | Store string
  | BlobStorage string
  | ObjectVersionConflict (vc_tenant: string) (vc_type: string) (vc_id: string) (vc_expected: "int option") (vc_actual: int)
  | CrossAppAccess (ca_requested: string) (ca_owner: string) (ca_tenant: string) (ca_type: string) (ca_id: string)

definition quoted :: "string \<Rightarrow> string" where
  "quoted s = [CHR 0x27] @ s @ [CHR 0x27]"

fun store_error_text :: "store_error \<Rightarrow> string" where
  "store_error_text (ObjectVersionConflict _ ty i expected actual) =
     ''Version conflict on '' @ ty @ ''/'' @ i @ '': expected ''
     @ (case expected of None \<Rightarrow> ''create'' | Some v \<Rightarrow> dec_int v) @ '', actual '' @ dec_int actual"
| "store_error_text (CrossAppAccess requested owner _ ty i) =
     ''Cross-app access denied on '' @ ty @ ''/'' @ i @ '': app '' @ quoted requested
     @ '' may not write a row owned by app '' @ quoted owner"
| "store_error_text (Driver m) = m"
| "store_error_text (Migration m) = m"
| "store_error_text (MigrationChecksum m) = m"
| "store_error_text (MigrationRevision m) = m"
| "store_error_text (Store m) = m"
| "store_error_text (BlobStorage m) = m"

section \<open>UTF-8 validity\<close>

text \<open>\<open>str::from_utf8\<close> accepts exactly the well-formed byte sequences of the Unicode standard.\<close>

definition byte_in :: "string \<Rightarrow> nat \<Rightarrow> nat \<Rightarrow> nat \<Rightarrow> bool" where
  "byte_in bs i lo hi \<longleftrightarrow> i < length bs \<and> lo \<le> (of_char (bs ! i) :: nat) \<and> (of_char (bs ! i) :: nat) \<le> hi"

definition utf8_tail_ok :: "char \<Rightarrow> string \<Rightarrow> bool" where
  "utf8_tail_ok b bs = (let n = (of_char b :: nat) in
     if n < 128 then True
     else if n < 194 then False
     else if n < 224 then byte_in bs 0 128 191
     else if n < 240 then
       byte_in bs 0 (if n = 224 then 160 else 128) (if n = 237 then 159 else 191) \<and> byte_in bs 1 128 191
     else if n < 245 then
       byte_in bs 0 (if n = 240 then 144 else 128) (if n = 244 then 143 else 191)
       \<and> byte_in bs 1 128 191 \<and> byte_in bs 2 128 191
     else False)"

fun utf8_valid :: "string \<Rightarrow> bool" where
  "utf8_valid [] = True"
| "utf8_valid (b # bs) = (utf8_tail_ok b bs \<and> utf8_valid (drop (utf8_more b) bs))"

section \<open>Keys\<close>

record crypto =
  cr_hkdf :: "string \<Rightarrow> string \<Rightarrow> string \<Rightarrow> string option"
  cr_seal :: "string \<Rightarrow> string \<Rightarrow> string \<Rightarrow> string \<Rightarrow> string option"
  cr_open :: "string \<Rightarrow> string \<Rightarrow> string \<Rightarrow> string \<Rightarrow> string option"
  cr_b64_encode_no_pad :: "string \<Rightarrow> string"
  cr_b64_decode_no_pad :: "string \<Rightarrow> string option"
  cr_b64_decode :: "string \<Rightarrow> string option"
  cr_hex_decode :: "string \<Rightarrow> (string, string) result"

record key_provider =
  kp_active_key_id :: "string option"
  kp_master_key :: "string \<Rightarrow> (store_error, string option) result"

definition validate_key_id :: "string \<Rightarrow> (store_error, unit) result" where
  "validate_key_id key_id =
     (if key_id = [] \<or> length key_id > 255
      then Err (Store (''at-rest key id must be 1..=255 bytes, got '' @ dec_nat (length key_id)))
      else Ok ())"

definition is_ascii_hexdigit :: "char \<Rightarrow> bool" where
  "is_ascii_hexdigit c = (let n = (of_char c :: nat) in
     48 \<le> n \<and> n \<le> 57 \<or> 65 \<le> n \<and> n \<le> 70 \<or> 97 \<le> n \<and> n \<le> 102)"

definition parse_key :: "crypto \<Rightarrow> string \<Rightarrow> (store_error, string) result" where
  "parse_key cr v =
    (let trimmed = str_trim v in
     rbind (if length trimmed = 64 \<and> list_all is_ascii_hexdigit trimmed
            then map_err (\<lambda>err. Store (''invalid hex at-rest key: '' @ err)) (cr_hex_decode cr trimmed)
            else ok_or (Store ''at-rest key must be 64 hex chars or base64 for 32 bytes'')
                   (case cr_b64_decode cr trimmed of Some b \<Rightarrow> Some b
                    | None \<Rightarrow> cr_b64_decode_no_pad cr trimmed)) (\<lambda>bytes.
     if length bytes = 32 then Ok bytes
     else Err (Store (''at-rest key must decode to exactly 32 bytes, got '' @ dec_nat (length bytes)))))"

definition env_key_provider :: "string \<Rightarrow> string \<Rightarrow> (store_error, key_provider) result" where
  "env_key_provider key_id key =
     rbind (validate_key_id key_id) (\<lambda>_.
     Ok \<lparr>kp_active_key_id = Some key_id,
         kp_master_key = (\<lambda>i. Ok (if i = key_id then Some key else None))\<rparr>)"

text \<open>\<open>std::env::var(name).ok().filter(|value| !value.trim().is_empty())\<close>.\<close>

type_synonym environment = "string \<Rightarrow> string option"

definition env_value :: "environment \<Rightarrow> string \<Rightarrow> string option" where
  "env_value env name = (case env name of Some v \<Rightarrow> if blank v then None else Some v | None \<Rightarrow> None)"

definition STORE_KEY_ENV :: string where "STORE_KEY_ENV = ''FRICK_STORE_KEY''"
definition STORE_KEY_FALLBACK_ENV :: string where "STORE_KEY_FALLBACK_ENV = ''FRICK_AT_REST_KEY''"
definition STORE_KEY_ID_ENV :: string where "STORE_KEY_ID_ENV = ''FRICK_STORE_KEY_ID''"
definition STORE_KMS_COMMAND_ENV :: string where "STORE_KMS_COMMAND_ENV = ''FRICK_STORE_KMS_COMMAND''"
definition STORE_KMS_COMMAND_ARGS_ENV :: string where
  "STORE_KMS_COMMAND_ARGS_ENV = ''FRICK_STORE_KMS_COMMAND_ARGS''"
definition DEFAULT_ENV_KEY_ID :: string where "DEFAULT_ENV_KEY_ID = ''env-1''"

definition env_provider_from_env :: "crypto \<Rightarrow> environment \<Rightarrow> (store_error, key_provider option) result" where
  "env_provider_from_env cr env =
    (case (case env_value env STORE_KEY_ENV of Some v \<Rightarrow> Some v
           | None \<Rightarrow> env_value env STORE_KEY_FALLBACK_ENV) of
       None \<Rightarrow> Ok None
     | Some raw \<Rightarrow>
         rbind (parse_key cr raw) (\<lambda>key.
         rbind (env_key_provider (case env_value env STORE_KEY_ID_ENV of Some i \<Rightarrow> i
                                  | None \<Rightarrow> DEFAULT_ENV_KEY_ID) key) (\<lambda>p.
         Ok (Some p))))"

definition env_key_is_present :: "environment \<Rightarrow> bool" where
  "env_key_is_present env \<longleftrightarrow>
     list_ex (\<lambda>name. env_value env name \<noteq> None) [STORE_KEY_ENV, STORE_KEY_FALLBACK_ENV]"

section \<open>The command provider\<close>

text \<open>The helper process: its outcome for an executable and an argument list is an input/output
  error or the exit status with its text, and the captured output.\<close>

record helper_output =
  ho_success :: bool
  ho_status :: string
  ho_stdout :: string

type_synonym helper = "string \<Rightarrow> string list \<Rightarrow> (string, helper_output) result"

record command_provider =
  cp_active_key_id :: string
  cp_executable :: string
  cp_args :: "string list"
  cp_cache :: "string \<rightharpoonup> string"

definition command_provider_new ::
  "string \<Rightarrow> string \<Rightarrow> string list \<Rightarrow> (store_error, command_provider) result" where
  "command_provider_new active_key_id executable args =
     rbind (validate_key_id active_key_id) (\<lambda>_.
     if \<not> starts_with executable ''/''
     then Err (Store (STORE_KMS_COMMAND_ENV @ '' must be an absolute executable path''))
     else Ok \<lparr>cp_active_key_id = active_key_id, cp_executable = executable, cp_args = args,
              cp_cache = (\<lambda>_. None)\<rparr>)"

definition command_provider_from_env ::
  "(string \<Rightarrow> string list option) \<Rightarrow> environment \<Rightarrow> (store_error, command_provider option) result" where
  "command_provider_from_env parse_args env =
    (case env_value env STORE_KMS_COMMAND_ENV of
       None \<Rightarrow> Ok None
     | Some executable \<Rightarrow>
         if env_key_is_present env
         then Err (Store (STORE_KMS_COMMAND_ENV @ '' cannot be combined with '' @ STORE_KEY_ENV
                @ '' or '' @ STORE_KEY_FALLBACK_ENV))
         else rbind (ok_or (Store (STORE_KEY_ID_ENV @ '' is required when '' @ STORE_KMS_COMMAND_ENV @ '' is set''))
                (env_value env STORE_KEY_ID_ENV)) (\<lambda>active_key_id.
              rbind (case env_value env STORE_KMS_COMMAND_ARGS_ENV of
                  Some raw \<Rightarrow> ok_or (Store (STORE_KMS_COMMAND_ARGS_ENV @ '' must be a JSON array of strings''))
                     (parse_args raw)
                | None \<Rightarrow> Ok []) (\<lambda>args.
              rbind (command_provider_new active_key_id executable args) (\<lambda>p. Ok (Some p)))))"

text \<open>The key for an id, and the provider with the updated cache.\<close>

definition fetch_key :: "crypto \<Rightarrow> helper \<Rightarrow> command_provider \<Rightarrow> string \<Rightarrow> (store_error, string) result" where
  "fetch_key cr run p key_id =
     rbind (map_err (\<lambda>error. Store (''KMS key helper could not execute for key id '' @ quoted key_id
              @ '': '' @ error))
           (run (cp_executable p) (cp_args p @ [''--'', key_id]))) (\<lambda>out.
     if \<not> ho_success out
     then Err (Store (''KMS key helper failed for key id '' @ quoted key_id @ '' with status ''
            @ ho_status out @ '' (stderr redacted)''))
     else if length (ho_stdout out) > 256
     then Err (Store (''KMS key helper returned oversized output for key id '' @ quoted key_id))
     else if \<not> utf8_valid (ho_stdout out)
     then Err (Store (''KMS key helper output for key id '' @ quoted key_id @ '' was not UTF-8''))
     else map_err (\<lambda>_. Store (''KMS key helper output for key id '' @ quoted key_id
            @ '' was not a 32-byte hex/base64 key'')) (parse_key cr (ho_stdout out)))"

definition resolve_key ::
  "crypto \<Rightarrow> helper \<Rightarrow> command_provider \<Rightarrow> string \<Rightarrow> (store_error, string) result \<times> command_provider" where
  "resolve_key cr run p key_id =
    (case validate_key_id key_id of
       Inl e \<Rightarrow> (Inl e, p)
     | Inr _ \<Rightarrow>
        (case cp_cache p key_id of
           Some key \<Rightarrow> (Ok key, p)
         | None \<Rightarrow>
            (case fetch_key cr run p key_id of
               Inl e \<Rightarrow> (Inl e, p)
             | Inr key \<Rightarrow> (Ok key, p\<lparr>cp_cache := (cp_cache p)(key_id \<mapsto> key)\<rparr>))))"

text \<open>The provider interface of a command provider in its present state.\<close>

definition command_key_provider :: "crypto \<Rightarrow> helper \<Rightarrow> command_provider \<Rightarrow> key_provider" where
  "command_key_provider cr run p =
     \<lparr>kp_active_key_id = Some (cp_active_key_id p),
      kp_master_key = (\<lambda>i. rbind (fst (resolve_key cr run p i)) (\<lambda>key. Ok (Some key)))\<rparr>"

definition preload_active_key ::
  "crypto \<Rightarrow> helper \<Rightarrow> command_provider \<Rightarrow> (store_error, unit) result \<times> command_provider" where
  "preload_active_key cr run p =
    (case resolve_key cr run p (cp_active_key_id p) of (r, p') \<Rightarrow> (rbind r (\<lambda>_. Ok ()), p'))"

definition at_rest_from_env ::
  "crypto \<Rightarrow> helper \<Rightarrow> (string \<Rightarrow> string list option) \<Rightarrow> environment
    \<Rightarrow> (store_error, key_provider option) result" where
  "at_rest_from_env cr run parse_args env =
     rbind (command_provider_from_env parse_args env) (\<lambda>command.
     case command of
       Some p \<Rightarrow>
         (case preload_active_key cr run p of (r, p') \<Rightarrow>
            rbind r (\<lambda>_. Ok (Some (command_key_provider cr run p'))))
     | None \<Rightarrow> env_provider_from_env cr env)"

section \<open>Envelopes\<close>

definition ENVELOPE_MAGIC :: string where "ENVELOPE_MAGIC = ''FRICKAE1''"
definition TEXT_ENVELOPE_PREFIX :: string where "TEXT_ENVELOPE_PREFIX = ''frickenc:v1:''"
definition NONCE_LEN :: nat where "NONCE_LEN = 12"
definition HKDF_SALT :: string where "HKDF_SALT = ''frick-store-at-rest:v1''"

definition envelope_aad :: "string \<Rightarrow> string \<Rightarrow> string" where
  "envelope_aad tenant_id key_id = ''frick-store-at-rest:v1:'' @ tenant_id @ '':'' @ key_id"

definition malformed :: "string \<Rightarrow> store_error" where
  "malformed detail = Store (''at-rest envelope malformed: '' @ detail)"

definition tenant_key :: "crypto \<Rightarrow> key_provider \<Rightarrow> string \<Rightarrow> string \<Rightarrow> (store_error, string) result" where
  "tenant_key cr kp key_id tenant_id =
     rbind (kp_master_key kp key_id) (\<lambda>found.
     rbind (ok_or (Store (''at-rest key id '' @ quoted key_id @ '' is unknown to the configured key provider''))
              found) (\<lambda>master.
     ok_or (Store ''at-rest tenant key derivation failed'') (cr_hkdf cr HKDF_SALT master tenant_id)))"

definition encrypt ::
  "crypto \<Rightarrow> key_provider \<Rightarrow> string \<Rightarrow> string \<Rightarrow> string \<Rightarrow> (store_error, string) result" where
  "encrypt cr kp nonce tenant_id plaintext =
    (case kp_active_key_id kp of
       None \<Rightarrow> Ok plaintext
     | Some key_id \<Rightarrow>
         rbind (validate_key_id key_id) (\<lambda>_.
         rbind (tenant_key cr kp key_id tenant_id) (\<lambda>k.
         rbind (ok_or (Store ''at-rest encryption failed'')
                  (cr_seal cr k nonce plaintext (envelope_aad tenant_id key_id))) (\<lambda>ciphertext.
         rbind (if length key_id \<le> 255 then Ok (char_of (length key_id))
                else Err (Store ''at-rest key id too long'')) (\<lambda>key_id_len.
         Ok (ENVELOPE_MAGIC @ [key_id_len] @ key_id @ nonce @ ciphertext))))))"

definition decrypt :: "crypto \<Rightarrow> key_provider \<Rightarrow> string \<Rightarrow> string \<Rightarrow> (store_error, string) result" where
  "decrypt cr kp tenant_id stored =
    (if \<not> starts_with stored ENVELOPE_MAGIC then Ok stored
     else case drop (length ENVELOPE_MAGIC) stored of
       [] \<Rightarrow> Err (malformed ''missing key id length'')
     | len # body \<Rightarrow>
        (let key_id_len = (of_char len :: nat) in
         if key_id_len = 0 \<or> length body < key_id_len + NONCE_LEN + 1
         then Err (malformed ''truncated envelope'')
         else let key_id = take key_id_len body;
                  rest = drop key_id_len body
              in if \<not> utf8_valid key_id then Err (malformed ''key id is not UTF-8'')
              else rbind (tenant_key cr kp key_id tenant_id) (\<lambda>k.
                ok_or (Store (''at-rest decryption failed for key '' @ quoted key_id
                        @ '': wrong key, wrong tenant, or corrupted value''))
                  (cr_open cr k (take NONCE_LEN rest) (drop NONCE_LEN rest)
                     (envelope_aad tenant_id key_id)))))"

definition is_active :: "key_provider \<Rightarrow> bool" where
  "is_active kp \<longleftrightarrow> kp_active_key_id kp \<noteq> None"

definition encrypt_text ::
  "crypto \<Rightarrow> key_provider \<Rightarrow> string \<Rightarrow> string \<Rightarrow> string \<Rightarrow> (store_error, string) result" where
  "encrypt_text cr kp nonce tenant_id plaintext =
    (if \<not> is_active kp then Ok plaintext
     else rbind (encrypt cr kp nonce tenant_id plaintext) (\<lambda>envelope.
       Ok (TEXT_ENVELOPE_PREFIX @ cr_b64_encode_no_pad cr envelope)))"

definition decrypt_text :: "crypto \<Rightarrow> key_provider \<Rightarrow> string \<Rightarrow> string \<Rightarrow> (store_error, string) result" where
  "decrypt_text cr kp tenant_id stored =
    (if \<not> starts_with stored TEXT_ENVELOPE_PREFIX then Ok stored
     else let encoded = drop (length TEXT_ENVELOPE_PREFIX) stored in
       rbind (ok_or (malformed ''text envelope is not base64'')
          (case cr_b64_decode_no_pad cr encoded of Some b \<Rightarrow> Some b | None \<Rightarrow> cr_b64_decode cr encoded)) (\<lambda>envelope.
       rbind (decrypt cr kp tenant_id envelope) (\<lambda>plaintext.
       if utf8_valid plaintext then Ok plaintext
       else Err (malformed ''decrypted text is not UTF-8''))))"

section \<open>What is required of the primitives\<close>

text \<open>The documented contract of the cipher: a ciphertext carries a tag, so it is not empty, and
  opens to the message under the key, nonce and associated data it was sealed with.\<close>

definition aead_opens :: "crypto \<Rightarrow> bool" where
  "aead_opens cr \<longleftrightarrow> (\<forall>k n m a c. cr_seal cr k n m a = Some c \<longrightarrow> c \<noteq> [] \<and> cr_open cr k n c a = Some m)"

text \<open>Authenticity of the associated data: under the key it was sealed with, a ciphertext opens with no
  other associated data than its own.  Nothing is assumed about opening under a different key.\<close>

definition aead_authentic :: "crypto \<Rightarrow> bool" where
  "aead_authentic cr \<longleftrightarrow>
     (\<forall>k n m a c a' m'. cr_seal cr k n m a = Some c \<and> cr_open cr k n c a' = Some m' \<longrightarrow> a' = a)"

definition b64_inverse :: "crypto \<Rightarrow> bool" where
  "b64_inverse cr \<longleftrightarrow> (\<forall>b. cr_b64_decode_no_pad cr (cr_b64_encode_no_pad cr b) = Some b)"

section \<open>Envelopes\<close>

lemma validate_key_id_iff: "validate_key_id i = Inr u \<longleftrightarrow> i \<noteq> [] \<and> length i \<le> 255"
  by (auto simp: validate_key_id_def)

lemma of_char_char_of_small: "n \<le> 255 \<Longrightarrow> (of_char (char_of n :: char) :: nat) = n"
  by (simp add: of_char_of)

text \<open>The parts an envelope is made of, and the decryption that reads them back.\<close>

lemma encrypt_Inr:
  assumes "encrypt cr kp nonce t m = Inr stored" "kp_active_key_id kp = Some i"
  obtains k c where "i \<noteq> []" "length i \<le> 255" "tenant_key cr kp i t = Inr k"
    "cr_seal cr k nonce m (envelope_aad t i) = Some c"
    "stored = ENVELOPE_MAGIC @ char_of (length i) # i @ nonce @ c"
  using assms by (auto simp: encrypt_def validate_key_id_iff split: if_splits)

lemma decrypt_envelope:
  assumes "i \<noteq> []" "length i \<le> 255" "length nonce = NONCE_LEN" "c \<noteq> []"
  shows "decrypt cr kp t (ENVELOPE_MAGIC @ char_of (length i) # i @ nonce @ c) =
    (if \<not> utf8_valid i then Inl (malformed ''key id is not UTF-8'')
     else rbind (tenant_key cr kp i t) (\<lambda>k.
       ok_or (Store (''at-rest decryption failed for key '' @ quoted i
               @ '': wrong key, wrong tenant, or corrupted value'')) (cr_open cr k nonce c (envelope_aad t i))))"
  using assms by (cases c) (simp_all add: decrypt_def Let_def of_char_char_of_small)

lemma tenant_key_cong: "kp_master_key kp' i = kp_master_key kp i \<Longrightarrow> tenant_key cr kp' i t = tenant_key cr kp i t"
  by (simp add: tenant_key_def)

lemma tenant_key_Inr:
  "tenant_key cr kp i t = Inr k \<Longrightarrow> \<exists>master. kp_master_key kp i = Inr (Some master) \<and> cr_hkdf cr HKDF_SALT master t = Some k"
  by (auto simp: tenant_key_def ok_or_def split: option.splits)

lemma decrypt_encrypt:
  assumes "aead_opens cr" "encrypt cr kp nonce t m = Inr stored" "kp_active_key_id kp = Some i"
    and "utf8_valid i" "length nonce = NONCE_LEN" "kp_master_key kp' i = kp_master_key kp i"
  shows "decrypt cr kp' t stored = Inr m"
proof -
  obtain k c where e: "i \<noteq> []" "length i \<le> 255" "tenant_key cr kp i t = Inr k"
    "cr_seal cr k nonce m (envelope_aad t i) = Some c"
    "stored = ENVELOPE_MAGIC @ char_of (length i) # i @ nonce @ c"
    using encrypt_Inr [OF assms(2,3)] by metis
  moreover have "c \<noteq> []" "cr_open cr k nonce c (envelope_aad t i) = Some m"
    using assms(1) e(4) by (auto simp: aead_opens_def)
  ultimately show ?thesis
    using assms(4,5) tenant_key_cong [OF assms(6), of cr t] by (simp add: decrypt_envelope)
qed

lemma decrypt_text_encrypt_text:
  assumes "b64_inverse cr" "encrypt_text cr kp nonce t m = Inr stored" "kp_active_key_id kp = Some i"
    and "\<And>e. encrypt cr kp nonce t m = Inr e \<Longrightarrow> decrypt cr kp' t e = Inr m" and "utf8_valid m"
  shows "decrypt_text cr kp' t stored = Inr m"
  using assms by (auto simp: encrypt_text_def decrypt_text_def is_active_def b64_inverse_def Let_def)

lemma envelope_aad_inj: "envelope_aad t i = envelope_aad t' i \<longleftrightarrow> t = t'"
  by (simp add: envelope_aad_def)

section \<open>Properties of at-rest encryption\<close>

text \<open>A value sealed for a tenant is opened again to the same bytes by every key provider that
  still knows the key id recorded in the envelope, so rotating the active key never loses old rows;
  the text form round-trips as well, and plaintext from before a key was configured is returned
  verbatim.\<close>

theorem at_rest_roundtrip:
  assumes "aead_opens cr" "b64_inverse cr" "kp_active_key_id kp = Some i" "utf8_valid i"
    and "length nonce = NONCE_LEN" "kp_master_key kp' i = kp_master_key kp i"
  shows "(encrypt cr kp nonce t m = Inr stored \<longrightarrow> decrypt cr kp' t stored = Inr m)
    \<and> (encrypt_text cr kp nonce t m = Inr stored \<and> utf8_valid m \<longrightarrow> decrypt_text cr kp' t stored = Inr m)
    \<and> (\<not> starts_with m ENVELOPE_MAGIC \<longrightarrow> decrypt cr kp' t m = Inr m)"
  using decrypt_encrypt [OF assms(1) _ assms(3-6)] decrypt_text_encrypt_text [OF assms(2) _ assms(3)]
  by (auto simp: decrypt_def)

text \<open>C4: an envelope is sealed under a key derived for its tenant alone, with the tenant in its
  associated data, and another tenant can open it only under a key of its own: reading it for another
  tenant, under any key provider, derives that tenant's key from the master key of the same id, and
  either fails or that key differs from the sealing key and still opens the ciphertext, with the other
  tenant's associated data.  With the sealing key itself, however obtained, the other tenant's read
  fails.\<close>

theorem at_rest_tenant_isolation:
  assumes "aead_opens cr" "aead_authentic cr" "encrypt cr kp nonce t m = Inr stored"
    and "is_active kp" "length nonce = NONCE_LEN" "t' \<noteq> t"
  shows "\<exists>i master k c. kp_active_key_id kp = Some i \<and> kp_master_key kp i = Inr (Some master)
      \<and> cr_hkdf cr HKDF_SALT master t = Some k \<and> cr_seal cr k nonce m (envelope_aad t i) = Some c
      \<and> cr_open cr k nonce c (envelope_aad t' i) = None
      \<and> (case decrypt cr kp' t' stored of
           Inl e \<Rightarrow> True
         | Inr m' \<Rightarrow> \<exists>master' k'. kp_master_key kp' i = Inr (Some master') \<and> cr_hkdf cr HKDF_SALT master' t' = Some k'
             \<and> k' \<noteq> k \<and> cr_open cr k' nonce c (envelope_aad t' i) = Some m')"
proof -
  obtain i where i: "kp_active_key_id kp = Some i" using assms(4) by (auto simp: is_active_def)
  obtain k c where e: "i \<noteq> []" "length i \<le> 255" "tenant_key cr kp i t = Inr k" "cr_seal cr k nonce m (envelope_aad t i) = Some c"
    "stored = ENVELOPE_MAGIC @ char_of (length i) # i @ nonce @ c"
    using encrypt_Inr [OF assms(3) i] by metis
  have "c \<noteq> []" using assms(1) e(4) by (auto simp: aead_opens_def)
  have own: "cr_open cr k nonce c (envelope_aad t' i) = None"
  proof (cases "cr_open cr k nonce c (envelope_aad t' i)")
    case (Some m')
    with assms(2) e(4) have "envelope_aad t' i = envelope_aad t i" unfolding aead_authentic_def by metis
    with assms(6) show ?thesis by (simp add: envelope_aad_inj)
  qed
  have opened: "\<exists>master' k'. kp_master_key kp' i = Inr (Some master') \<and> cr_hkdf cr HKDF_SALT master' t' = Some k'
             \<and> k' \<noteq> k \<and> cr_open cr k' nonce c (envelope_aad t' i) = Some m'" if "decrypt cr kp' t' stored = Inr m'" for m'
  proof -
    have "\<exists>k'. tenant_key cr kp' i t' = Inr k' \<and> cr_open cr k' nonce c (envelope_aad t' i) = Some m'"
      using that decrypt_envelope [OF e(1,2) assms(5) \<open>c \<noteq> []\<close>, of cr kp' t'] unfolding e(5)
      by (cases "tenant_key cr kp' i t'") (auto simp: ok_or_def split: if_splits option.splits)
    then show ?thesis using own by (auto dest!: tenant_key_Inr)
  qed
  from e(3) obtain master where "kp_master_key kp i = Inr (Some master)" "cr_hkdf cr HKDF_SALT master t = Some k"
    by (auto dest!: tenant_key_Inr)
  then show ?thesis
    using i e(4) own opened by (intro exI [of _ i] exI [of _ master] exI [of _ k] exI [of _ c]) (auto split: sum.split)
qed


text \<open>A cipher that satisfies the contract: it writes the associated data in front of the message.\<close>

definition plain_header :: "string \<Rightarrow> string" where
  "plain_header a = replicate (length a) (CHR ''1'') @ CHR ''0'' # a"

definition plain_crypto :: crypto where
  "plain_crypto = \<lparr>cr_hkdf = (\<lambda>salt master info. Some (master @ info)),
     cr_seal = (\<lambda>k n m a. Some (plain_header a @ m)),
     cr_open = (\<lambda>k n c a. if starts_with c (plain_header a) then Some (drop (length (plain_header a)) c) else None),
     cr_b64_encode_no_pad = (\<lambda>b. b), cr_b64_decode_no_pad = Some, cr_b64_decode = Some,
     cr_hex_decode = Inr\<rparr>"

lemma replicate_marker_inj:
  assumes "replicate n x @ y # u = replicate m x @ y # v" "x \<noteq> y"
  shows "n = m \<and> u = v"
  using assms
proof (induction n arbitrary: m)
  case 0
  then show ?case by (cases m) auto
next
  case (Suc n)
  then show ?case by (cases m) auto
qed

lemma plain_header_inj:
  assumes "starts_with (plain_header a @ m) (plain_header b)"
  shows "b = a"
proof -
  have "plain_header a @ m = plain_header b @ drop (length (plain_header b)) (plain_header a @ m)"
    using assms unfolding starts_with_def by (metis append_take_drop_id)
  then have "replicate (length a) (CHR ''1'') @ CHR ''0'' # a @ m =
    replicate (length b) (CHR ''1'') @ CHR ''0'' # b @ drop (length (plain_header b)) (plain_header a @ m)"
    by (simp add: plain_header_def)
  from replicate_marker_inj [OF this] show ?thesis by auto
qed

lemma plain_crypto_contract: "aead_opens plain_crypto" "aead_authentic plain_crypto" "b64_inverse plain_crypto"
  using plain_header_inj
  by (auto simp: aead_opens_def aead_authentic_def b64_inverse_def plain_crypto_def)
    (simp add: plain_header_def)

definition sample_provider :: key_provider where
  "sample_provider = \<lparr>kp_active_key_id = Some ''k1'', kp_master_key = (\<lambda>i. Inr (Some ''m''))\<rparr>"

definition rotated_provider :: key_provider where
  "rotated_provider = sample_provider\<lparr>kp_active_key_id := Some ''k2''\<rparr>"

theorem at_rest_roundtrip_witness:
  "\<exists>stored. encrypt plain_crypto sample_provider ''nonce0123456'' ''t'' ''secret'' = Inr stored
     \<and> stored \<noteq> ''secret'' \<and> decrypt plain_crypto rotated_provider ''t'' stored = Inr ''secret''"
proof -
  obtain stored where s: "encrypt plain_crypto sample_provider ''nonce0123456'' ''t'' ''secret'' = Inr stored"
    "stored \<noteq> ''secret''"
    by (simp add: encrypt_def sample_provider_def validate_key_id_def tenant_key_def plain_crypto_def ENVELOPE_MAGIC_def)
  with at_rest_roundtrip [OF plain_crypto_contract(1,3), of sample_provider "''k1''" "''nonce0123456''"
      rotated_provider "''t''" "''secret''" stored]
  show ?thesis
    by (simp add: sample_provider_def rotated_provider_def NONCE_LEN_def utf8_tail_ok_def utf8_more_def)
qed

theorem at_rest_tenant_isolation_witness:
  "\<exists>stored e. encrypt plain_crypto sample_provider ''nonce0123456'' ''t'' ''secret'' = Inr stored
     \<and> decrypt plain_crypto sample_provider ''u'' stored = Inl e"
proof -
  obtain stored where s: "encrypt plain_crypto sample_provider ''nonce0123456'' ''t'' ''secret'' = Inr stored"
    by (simp add: encrypt_def sample_provider_def validate_key_id_def tenant_key_def plain_crypto_def)
  have "is_active sample_provider" "length ''nonce0123456'' = NONCE_LEN" "''u'' \<noteq> ''t''"
    by (simp_all add: sample_provider_def is_active_def NONCE_LEN_def)
  note isolation = at_rest_tenant_isolation [OF plain_crypto_contract(1,2) s this, of sample_provider]
  have key: "cr_open plain_crypto k n c a = cr_open plain_crypto k' n c a" for k k' n c a by (simp add: plain_crypto_def)
  from isolation obtain i k c where own: "cr_open plain_crypto k ''nonce0123456'' c (envelope_aad ''u'' i) = None"
    and other: "case decrypt plain_crypto sample_provider ''u'' stored of Inl e \<Rightarrow> True | Inr m' \<Rightarrow>
      \<exists>master' k'. kp_master_key sample_provider i = Inr (Some master') \<and> cr_hkdf plain_crypto HKDF_SALT master' ''u'' = Some k'
        \<and> k' \<noteq> k \<and> cr_open plain_crypto k' ''nonce0123456'' c (envelope_aad ''u'' i) = Some m'" by (elim exE conjE) rule
  show ?thesis
  proof (cases "decrypt plain_crypto sample_provider ''u'' stored")
    case (Inl e)
    then show ?thesis using s by (intro exI conjI)
  next
    case (Inr m')
    with other obtain k' where "cr_open plain_crypto k' ''nonce0123456'' c (envelope_aad ''u'' i) = Some m'" by auto
    then show ?thesis using own key [of k' _ _ _ k] by simp
  qed
qed

section \<open>Key providers\<close>

text \<open>What the cache of a command provider holds is what its helper answers.\<close>

definition key_cache_ok :: "crypto \<Rightarrow> helper \<Rightarrow> command_provider \<Rightarrow> bool" where
  "key_cache_ok cr run p \<longleftrightarrow> (\<forall>i k. cp_cache p i = Some k \<longrightarrow> fetch_key cr run p i = Inr k)"

lemma fetch_key_cache [simp]: "fetch_key cr run (p\<lparr>cp_cache := c\<rparr>) i = fetch_key cr run p i"
  by (simp add: fetch_key_def)

lemma resolve_key_spec:
  assumes "key_cache_ok cr run p"
  shows "fst (resolve_key cr run p i) = rbind (validate_key_id i) (\<lambda>_. fetch_key cr run p i)"
    and "snd (resolve_key cr run p i) = p\<lparr>cp_cache := cp_cache (snd (resolve_key cr run p i))\<rparr>"
    and "key_cache_ok cr run (snd (resolve_key cr run p i))"
  using assms by (auto simp: resolve_key_def key_cache_ok_def split: sum.splits option.splits)

lemma resolve_keys_cache:
  assumes "key_cache_ok cr run p"
  shows "\<exists>c. fold (\<lambda>i q. snd (resolve_key cr run q i)) ids p = p\<lparr>cp_cache := c\<rparr>
    \<and> key_cache_ok cr run (p\<lparr>cp_cache := c\<rparr>)"
  using assms
proof (induction ids arbitrary: p)
  case Nil
  have "p = p\<lparr>cp_cache := cp_cache p\<rparr>" by simp
  with Nil show ?case by (intro exI [of _ "cp_cache p"]) simp
next
  case (Cons i ids)
  from resolve_key_spec(2,3) [OF Cons.prems, of i] obtain c where
    c: "snd (resolve_key cr run p i) = p\<lparr>cp_cache := c\<rparr>" "key_cache_ok cr run (p\<lparr>cp_cache := c\<rparr>)" by metis
  from Cons.IH [OF c(2)] show ?case by (simp add: c(1))
qed

text \<open>The key cache of the command provider is transparent: after any sequence of key requests
  the provider answers every request as a fresh one would, and it only ever hands out 32-byte keys
  for ids of 1 to 255 bytes.\<close>

theorem key_cache_transparent:
  assumes "command_provider_new active exe args = Inr p"
  shows "fst (resolve_key cr run (fold (\<lambda>i q. snd (resolve_key cr run q i)) ids p) i) = fst (resolve_key cr run p i)
    \<and> (\<forall>key. fst (resolve_key cr run p i) = Inr key \<longrightarrow> length key = 32 \<and> i \<noteq> [] \<and> length i \<le> 255)"
proof -
  have p: "cp_cache p = (\<lambda>_. None)"
    using assms by (auto simp: command_provider_new_def split: if_splits)
  then have ok: "key_cache_ok cr run p" by (simp add: key_cache_ok_def)
  from resolve_keys_cache [OF ok, of ids] obtain c
    where "fold (\<lambda>i q. snd (resolve_key cr run q i)) ids p = p\<lparr>cp_cache := c\<rparr>"
      "key_cache_ok cr run (p\<lparr>cp_cache := c\<rparr>)" by blast
  moreover have "length key = 32" if "fetch_key cr run p i = Inr key" for key
    using that by (auto simp: fetch_key_def parse_key_def Let_def map_err_Inr_iff split: if_splits)
  ultimately show ?thesis
    by (auto simp: resolve_key_spec(1) ok validate_key_id_iff)
qed

definition sample_helper :: helper where
  "sample_helper exe args = Inr \<lparr>ho_success = True, ho_status = ''0'', ho_stdout = replicate 32 (CHR ''a'')\<rparr>"

theorem key_cache_transparent_witness:
  "\<exists>p. command_provider_new ''k1'' ''/bin/kms'' [] = Inr p
    \<and> fst (resolve_key plain_crypto sample_helper (snd (resolve_key plain_crypto sample_helper p ''k1'')) ''k2'')
      = fst (resolve_key plain_crypto sample_helper p ''k2'')"
proof -
  obtain p where p: "command_provider_new ''k1'' ''/bin/kms'' [] = Inr p"
    by (simp add: command_provider_new_def validate_key_id_def starts_with_def)
  from key_cache_transparent [OF p, of plain_crypto sample_helper "[''k1'']" "''k2''"] p show ?thesis by simp
qed

text \<open>The store runs without encryption only when neither a key nor a key helper is configured; a
  malformed key, a helper that fails, or both sources at once are errors, and an engine that starts
  is active.\<close>

theorem at_rest_config_fails_closed:
  "(at_rest_from_env cr run parse_args env = Inr None \<longleftrightarrow>
      env_value env STORE_KMS_COMMAND_ENV = None \<and> \<not> env_key_is_present env)
   \<and> (at_rest_from_env cr run parse_args env = Inr (Some kp) \<longrightarrow> is_active kp)
   \<and> (env_value env STORE_KMS_COMMAND_ENV \<noteq> None \<and> env_key_is_present env \<longrightarrow>
        (\<exists>e. at_rest_from_env cr run parse_args env = Inl e))"
  by (auto simp: at_rest_from_env_def command_provider_from_env_def env_provider_from_env_def
      env_key_is_present_def env_key_provider_def command_key_provider_def is_active_def split_beta
      split: option.splits if_splits)

theorem at_rest_config_fails_closed_witness:
  "\<exists>e. at_rest_from_env plain_crypto sample_helper (\<lambda>_. None)
     [STORE_KMS_COMMAND_ENV \<mapsto> ''/bin/kms'', STORE_KEY_ENV \<mapsto> ''aa''] = Inl e"
proof -
  let ?env = "[STORE_KMS_COMMAND_ENV \<mapsto> ''/bin/kms'', STORE_KEY_ENV \<mapsto> ''aa'']"
  have "env_value ?env STORE_KMS_COMMAND_ENV \<noteq> None \<and> env_key_is_present ?env" by code_simp
  with at_rest_config_fails_closed show ?thesis by metis
qed

end
