(* ===== verification/FrickObjectStore.thy ===== *)
theory FrickObjectStore
  imports FrickCodec FrickEncryption FrickTable FrickTime
begin

text \<open>
  Packed columns (\<open>frick-store/src/packed.rs\<close>) and the object store
  (\<open>frick-store/src/stores/object.rs\<close>).

  The msgpack encoder is code of another package (\<open>rmp_serde\<close>) and an argument of type \<open>wire\<close>; the
  theorems assume of it only that decoding an encoding returns the record.  The \<open>objects\<close> table is a
  list of rows whose primary key is \<open>(tenant_id, object_type, object_id)\<close>; \<open>app_id\<close> is a column
  outside the key, exactly as in the schema of the database.  A transaction runs to its end or
  leaves the table as it was.  Failures of the SQL driver itself are not modelled.
\<close>

section \<open>Packed columns\<close>

record wire =
  wi_enc_record :: "packed_record \<Rightarrow> (string, string) result"
  wi_dec_record :: "string \<Rightarrow> (string, packed_record) result"
  wi_enc_event :: "packed_stream_event \<Rightarrow> (string, string) result"
  wi_dec_event :: "string \<Rightarrow> (string, packed_stream_event) result"
  wi_enc_value :: "value \<Rightarrow> (string, string) result"
  wi_dec_value :: "string \<Rightarrow> (string, value) result"

definition encode_packed :: "('a \<Rightarrow> (string, string) result) \<Rightarrow> 'a \<Rightarrow> (store_error, string) result" where
  "encode_packed enc v = map_err (\<lambda>err. Driver (''packed encode: '' @ err)) (enc v)"

definition decode_packed :: "(string \<Rightarrow> (string, 'a) result) \<Rightarrow> string \<Rightarrow> (store_error, 'a) result" where
  "decode_packed dec bytes = map_err (\<lambda>err. Driver (''packed decode: '' @ err)) (dec bytes)"

definition without_record_id :: "value \<Rightarrow> value" where
  "without_record_id v = (case v of
      VMap entries \<Rightarrow> VMap (filter (\<lambda>e. as_str (fst e) \<noteq> Some ''id'') entries)
    | other \<Rightarrow> other)"

text \<open>What every store over packed columns is opened with: the schema, the encoder, the at-rest
  engine if one is attached, and the text the SQL driver reports for a violated uniqueness
  constraint.\<close>

record store_env =
  se_schema :: frick_schema
  se_wire :: wire
  se_crypto :: crypto
  se_provider :: "key_provider option"
  se_unique_error :: string

definition seal_column :: "store_env \<Rightarrow> string \<Rightarrow> string \<Rightarrow> string \<Rightarrow> (store_error, string) result" where
  "seal_column env nonce tenant_id encoded = (case se_provider env of
      Some kp \<Rightarrow> encrypt (se_crypto env) kp nonce tenant_id encoded
    | None \<Rightarrow> Ok encoded)"

definition open_column :: "store_env \<Rightarrow> string \<Rightarrow> string \<Rightarrow> (store_error, string) result" where
  "open_column env tenant_id stored = (case se_provider env of
      Some kp \<Rightarrow> decrypt (se_crypto env) kp tenant_id stored
    | None \<Rightarrow> Ok stored)"

section \<open>Objects\<close>

record object_row =
  or_app_id :: string
  or_tenant_id :: string
  or_object_type :: string
  or_object_id :: string
  or_version :: int
  or_packed :: string
  or_updated_at :: string

type_synonym objects = "object_row list"

record object_upsert_result =
  our_previous_version :: int
  our_next_version :: int
  our_created :: bool

definition object_key :: "object_row \<Rightarrow> string \<times> string \<times> string" where
  "object_key r = (or_tenant_id r, or_object_type r, or_object_id r)"

definition pack_object ::
  "store_env \<Rightarrow> string \<Rightarrow> string \<Rightarrow> string \<Rightarrow> string \<Rightarrow> value \<Rightarrow> (store_error, string) result" where
  "pack_object env nonce tenant_id object_type object_id v =
     rbind (map_err Store (pack_object_record (se_schema env) object_type object_id (without_record_id v))) (\<lambda>rec.
     rbind (encode_packed (wi_enc_record (se_wire env)) rec) (\<lambda>encoded.
     seal_column env nonce tenant_id encoded))"

definition unpack_object :: "store_env \<Rightarrow> string \<Rightarrow> string \<Rightarrow> (store_error, value) result" where
  "unpack_object env tenant_id stored =
     rbind (open_column env tenant_id stored) (\<lambda>bytes.
     rbind (decode_packed (wi_dec_record (se_wire env)) bytes) (\<lambda>packed.
     rbind (map_err Store (unpack_object_record (se_schema env) packed)) (\<lambda>rec.
     Ok (ur_value rec))))"

definition write_row_packed ::
  "string \<Rightarrow> string \<Rightarrow> string \<Rightarrow> string \<Rightarrow> string \<Rightarrow> int \<Rightarrow> int \<Rightarrow> objects \<Rightarrow> (store_error, objects) result" where
  "write_row_packed app_id tenant_id object_type object_id packed version now_ms rows =
    (case tbl_get object_key (tenant_id, object_type, object_id) rows of
       Some owner \<Rightarrow> if or_app_id owner \<noteq> app_id
         then Err (CrossAppAccess app_id (or_app_id owner) tenant_id object_type object_id)
         else Ok (tbl_upsert object_key
           \<lparr>or_app_id = app_id, or_tenant_id = tenant_id, or_object_type = object_type,
            or_object_id = object_id, or_version = version, or_packed = packed,
            or_updated_at = iso_from_epoch_ms_blob now_ms\<rparr> rows)
     | None \<Rightarrow> Ok (tbl_upsert object_key
           \<lparr>or_app_id = app_id, or_tenant_id = tenant_id, or_object_type = object_type,
            or_object_id = object_id, or_version = version, or_packed = packed,
            or_updated_at = iso_from_epoch_ms_blob now_ms\<rparr> rows))"

definition write_row_tx ::
  "store_env \<Rightarrow> string \<Rightarrow> string \<Rightarrow> string \<Rightarrow> string \<Rightarrow> string \<Rightarrow> value \<Rightarrow> int \<Rightarrow> int \<Rightarrow> objects
    \<Rightarrow> (store_error, objects) result" where
  "write_row_tx env nonce app_id tenant_id object_type object_id v version now_ms rows =
     rbind (pack_object env nonce tenant_id object_type object_id v) (\<lambda>packed.
     write_row_packed app_id tenant_id object_type object_id packed version now_ms rows)"

definition upsert ::
  "store_env \<Rightarrow> string \<Rightarrow> string \<Rightarrow> string \<Rightarrow> string \<Rightarrow> value \<Rightarrow> int \<Rightarrow> string \<Rightarrow> int \<Rightarrow> objects
    \<Rightarrow> (store_error, objects) result" where
  "upsert env nonce tenant_id object_type object_id v version app_id now_ms rows =
     write_row_tx env nonce app_id tenant_id object_type object_id v version now_ms rows"

text \<open>\<open>SELECT ... WHERE app_id = ? AND tenant_id = ? AND object_type = ? AND object_id = ?\<close>.\<close>

definition select_object :: "string \<Rightarrow> string \<Rightarrow> string \<Rightarrow> string \<Rightarrow> objects \<Rightarrow> object_row option" where
  "select_object app_id tenant_id object_type object_id rows =
     find (\<lambda>r. or_app_id r = app_id \<and> or_tenant_id r = tenant_id
            \<and> or_object_type r = object_type \<and> or_object_id r = object_id) rows"

definition upsert_with_policy ::
  "store_env \<Rightarrow> string \<Rightarrow> string \<Rightarrow> string \<Rightarrow> string \<Rightarrow> string \<Rightarrow> value \<Rightarrow> int option \<Rightarrow> merge_policy \<Rightarrow> int
    \<Rightarrow> objects \<Rightarrow> (store_error, object_upsert_result \<times> objects) result" where
  "upsert_with_policy env nonce app_id tenant_id object_type object_id v expected_version policy now_ms rows =
     rbind (pack_object env nonce tenant_id object_type object_id v) (\<lambda>packed.
     let current = select_object app_id tenant_id object_type object_id rows;
         previous_version = (case current of Some row \<Rightarrow> or_version row | None \<Rightarrow> 0);
         exists = (current \<noteq> None);
         conflict = ObjectVersionConflict tenant_id object_type object_id expected_version previous_version
     in rbind (if policy = VersionPrecondition
               then (case expected_version of
                       None \<Rightarrow> if exists then Err conflict else Ok ()
                     | Some expected \<Rightarrow> if previous_version \<noteq> expected then Err conflict else Ok ())
               else Ok ()) (\<lambda>_.
        let next_version = (case policy of
              VersionPrecondition \<Rightarrow> (case expected_version of None \<Rightarrow> 1 | Some expected \<Rightarrow> expected + 1)
            | LastWriteWins \<Rightarrow> previous_version + 1)
        in rbind (write_row_packed app_id tenant_id object_type object_id packed next_version now_ms rows) (\<lambda>rows'.
           Ok (\<lparr>our_previous_version = previous_version, our_next_version = next_version,
                our_created = \<not> exists\<rparr>, rows'))))"

definition read_object ::
  "store_env \<Rightarrow> string \<Rightarrow> string \<Rightarrow> string \<Rightarrow> string \<Rightarrow> objects \<Rightarrow> (store_error, value option) result" where
  "read_object env tenant_id object_type object_id app_id rows =
    (case select_object app_id tenant_id object_type object_id rows of
       None \<Rightarrow> Ok None
     | Some row \<Rightarrow> rbind (unpack_object env tenant_id (or_packed row)) (\<lambda>v. Ok (Some v)))"

definition read_version :: "string \<Rightarrow> string \<Rightarrow> string \<Rightarrow> string \<Rightarrow> objects \<Rightarrow> int" where
  "read_version tenant_id object_type object_id app_id rows =
    (case select_object app_id tenant_id object_type object_id rows of Some row \<Rightarrow> or_version row | None \<Rightarrow> 0)"

definition delete_object_row :: "string \<Rightarrow> string \<Rightarrow> string \<Rightarrow> string \<Rightarrow> objects \<Rightarrow> bool \<times> objects" where
  "delete_object_row tenant_id object_type object_id app_id rows =
    (let keep = filter (\<lambda>r. \<not> (or_app_id r = app_id \<and> or_tenant_id r = tenant_id
                  \<and> or_object_type r = object_type \<and> or_object_id r = object_id)) rows
     in (length keep < length rows, keep))"

definition select_objects :: "string \<Rightarrow> string \<Rightarrow> string \<Rightarrow> objects \<Rightarrow> objects" where
  "select_objects tenant_id object_type app_id rows =
     order_by or_object_id (filter (\<lambda>r. or_app_id r = app_id \<and> or_tenant_id r = tenant_id
       \<and> or_object_type r = object_type) rows)"

definition list_objects ::
  "store_env \<Rightarrow> string \<Rightarrow> string \<Rightarrow> string \<Rightarrow> objects \<Rightarrow> (store_error, value list) result" where
  "list_objects env tenant_id object_type app_id rows =
     rmap (\<lambda>row. unpack_object env tenant_id (or_packed row)) (select_objects tenant_id object_type app_id rows)"

definition list_ids :: "string \<Rightarrow> string \<Rightarrow> string \<Rightarrow> objects \<Rightarrow> string list" where
  "list_ids tenant_id object_type app_id rows = map or_object_id (select_objects tenant_id object_type app_id rows)"

definition object_field_eq :: "value \<Rightarrow> string \<Rightarrow> string \<Rightarrow> bool" where
  "object_field_eq object field expected = (case as_map object of
      Some entries \<Rightarrow> list_ex (\<lambda>e. as_str (fst e) = Some field \<and> as_str (snd e) = Some expected) entries
    | None \<Rightarrow> False)"

definition id_of_value :: "value \<Rightarrow> string option" where
  "id_of_value object = (case as_map object of
      Some entries \<Rightarrow> (case find (\<lambda>e. as_str (fst e) = Some ''id'') entries of
          Some e \<Rightarrow> as_str (snd e) | None \<Rightarrow> None)
    | None \<Rightarrow> None)"

fun delete_by_field_loop :: "string \<Rightarrow> string \<Rightarrow> string \<Rightarrow> string \<Rightarrow> string \<Rightarrow> value list \<Rightarrow> nat \<Rightarrow> objects \<Rightarrow> nat \<times> objects"
where
  "delete_by_field_loop tenant_id object_type app_id field v [] deleted rows = (deleted, rows)"
| "delete_by_field_loop tenant_id object_type app_id field v (row # rest) deleted rows =
    (if \<not> object_field_eq row field v
     then delete_by_field_loop tenant_id object_type app_id field v rest deleted rows
     else case id_of_value row of
       None \<Rightarrow> delete_by_field_loop tenant_id object_type app_id field v rest deleted rows
     | Some object_id \<Rightarrow>
        (case delete_object_row tenant_id object_type object_id app_id rows of (existed, rows') \<Rightarrow>
           delete_by_field_loop tenant_id object_type app_id field v rest
             (if existed then deleted + 1 else deleted) rows'))"

definition delete_by_field ::
  "store_env \<Rightarrow> string \<Rightarrow> string \<Rightarrow> string \<Rightarrow> string \<Rightarrow> string \<Rightarrow> objects \<Rightarrow> (store_error, nat \<times> objects) result" where
  "delete_by_field env tenant_id object_type app_id field v rows =
     rbind (list_objects env tenant_id object_type app_id rows) (\<lambda>listed.
     Ok (delete_by_field_loop tenant_id object_type app_id field v listed 0 rows))"

definition query_by_field ::
  "store_env \<Rightarrow> string \<Rightarrow> string \<Rightarrow> string \<Rightarrow> string \<Rightarrow> string \<Rightarrow> objects \<Rightarrow> (store_error, value list) result" where
  "query_by_field env tenant_id object_type app_id field v rows =
     rbind (list_objects env tenant_id object_type app_id rows) (\<lambda>listed.
     Ok (filter (\<lambda>row. object_field_eq row field v) listed))"

section \<open>Sealing and packing\<close>

text \<open>The contract of the encoder: decoding an encoding returns the record, and no encoding starts
  with the envelope magic.\<close>

definition wire_inverse :: "wire \<Rightarrow> bool" where
  "wire_inverse w \<longleftrightarrow>
     (\<forall>r b. wi_enc_record w r = Inr b \<longrightarrow> wi_dec_record w b = Inr r \<and> \<not> starts_with b ENVELOPE_MAGIC)
   \<and> (\<forall>r b. wi_enc_event w r = Inr b \<longrightarrow> wi_dec_event w b = Inr r \<and> \<not> starts_with b ENVELOPE_MAGIC)
   \<and> (\<forall>r b. wi_enc_value w r = Inr b \<longrightarrow> wi_dec_value w b = Inr r \<and> \<not> starts_with b ENVELOPE_MAGIC)"

definition env_ok :: "store_env \<Rightarrow> bool" where
  "env_ok env \<longleftrightarrow> wire_inverse (se_wire env) \<and>
     (case se_provider env of None \<Rightarrow> True
      | Some kp \<Rightarrow> aead_opens (se_crypto env) \<and> (\<forall>i. kp_active_key_id kp = Some i \<longrightarrow> utf8_valid i))"

lemma open_seal_column:
  assumes "env_ok env" "length nonce = NONCE_LEN" "\<not> starts_with b ENVELOPE_MAGIC"
    and "seal_column env nonce t b = Inr s"
  shows "open_column env t s = Inr b"
proof (cases "se_provider env")
  case None
  then show ?thesis using assms(4) by (simp add: seal_column_def open_column_def)
next
  case (Some kp)
  show ?thesis
  proof (cases "kp_active_key_id kp")
    case None
    then show ?thesis using assms(3,4) Some by (simp add: seal_column_def open_column_def encrypt_def decrypt_def)
  next
    case (Some i)
    then show ?thesis
      using assms decrypt_encrypt [of "se_crypto env" kp nonce t b s i kp] \<open>se_provider env = Some kp\<close>
      by (auto simp: env_ok_def seal_column_def open_column_def)
  qed
qed

text \<open>The value a written object is read back as: the record id first, then the packed fields.\<close>

definition value_entries :: "value \<Rightarrow> (value \<times> value) list" where
  "value_entries v = (case v of VMap entries \<Rightarrow> entries | _ \<Rightarrow> [])"

definition stored_value :: "string \<Rightarrow> value \<Rightarrow> value" where
  "stored_value i v =
     VMap (assign_entries [(VString ''id'', VString i)] (value_entries (without_record_id v)))"

lemma unpack_pack_any:
  assumes "distinct (map fd_id fds)" "pack_fields fds v = Inr ps"
  shows "unpack_fields_into fds ps start = Inr (assign_entries start (value_entries v))"
proof (cases "\<exists>es. v = VMap es")
  case True
  then show ?thesis using unpack_pack_fields [OF assms(1)] assms(2) by (auto simp: value_entries_def)
next
  case False
  then have "ps = []" using assms(2) by (cases v) (auto simp: pack_fields_def)
  with False show ?thesis by (cases v) (auto simp: value_entries_def assign_entries_def)
qed

lemma unpack_pack_object:
  assumes "env_ok env" "validate_schema lc (se_schema env) = Inr ()" "length nonce = NONCE_LEN"
    and "pack_object env nonce t ty i v = Inr s"
  shows "unpack_object env t s = Inr (stored_value i v)"
proof -
  from assms(4) obtain ob ps b where p: "object_by_name (se_schema env) ty = Inr ob"
    "pack_fields (ob_fields ob) (without_record_id v) = Inr ps"
    "wi_enc_record (se_wire env) (ob_id ob, i, ps) = Inr b" "seal_column env nonce t b = Inr s"
    by (auto simp: pack_object_def pack_object_record_def encode_packed_def map_err_Inr_iff)
  have "wi_dec_record (se_wire env) b = Inr (ob_id ob, i, ps)" "\<not> starts_with b ENVELOPE_MAGIC"
    using assms(1) p(3) by (auto simp: env_ok_def wire_inverse_def)
  moreover from this have "open_column env t s = Inr b" using open_seal_column assms(1,3) p(4) by blast
  ultimately show ?thesis
    using validated_lookup_by_id(1) [OF assms(2) p(1)]
      unpack_pack_any [OF validated_field_ids(1) [OF assms(2) p(1)] p(2)]
    by (simp add: unpack_object_def decode_packed_def unpack_object_record_def stored_value_def)
qed

lemma dec_int_not_id: "dec_int i \<noteq> ''id''"
proof
  assume "dec_int i = ''id''"
  then have "CHR ''d'' \<in> set (dec_nat (nat \<bar>i\<bar>))" by (auto simp: dec_int_def split: if_splits)
  with dec_nat_digits show False by (fastforce simp: is_digit_def)
qed

lemma assign_entries_id:
  assumes "\<forall>e \<in> set es. as_str (fst e) \<noteq> Some ''id''"
  shows "\<exists>es'. assign_entries ((VString ''id'', x) # start) es = (VString ''id'', x) # es'"
  using assms
proof (induction es arbitrary: start)
  case Nil
  then show ?case by (simp add: assign_entries_def)
next
  case (Cons e es)
  have "key_text (fst e) \<noteq> ''id''"
    using Cons.prems dec_int_not_id by (cases "fst e") (auto simp: key_text_def field_name_of_key_def)
  then have "assign_entries ((VString ''id'', x) # start) (e # es) =
    assign_entries ((VString ''id'', x) # set_entry (key_text (fst e)) (snd e) start) es"
    by (auto simp: assign_entries_def)
  with Cons show ?case by simp
qed

lemma without_record_id_entries: "\<forall>e \<in> set (value_entries (without_record_id v)). as_str (fst e) \<noteq> Some ''id''"
  by (cases v) (auto simp: value_entries_def without_record_id_def)

lemma id_of_stored_value [simp]: "id_of_value (stored_value i v) = Some i"
  using assign_entries_id [OF without_record_id_entries, of "VString i" "[]" v]
  by (auto simp: stored_value_def id_of_value_def)

lemma stored_value_string_keyed:
  assumes "string_keyed es"
  shows "stored_value i (VMap es) = VMap ((VString ''id'', VString i) # filter (\<lambda>e. fst e \<noteq> VString ''id'') es)"
proof -
  have w: "value_entries (without_record_id (VMap es)) = filter (\<lambda>e. fst e \<noteq> VString ''id'') es"
    by (simp add: value_entries_def without_record_id_def)
  have "string_keyed (filter (\<lambda>e. fst e \<noteq> VString ''id'') es)"
    using assms by (auto simp: string_keyed_def distinct_map_filter)
  then show ?thesis
    by (subst stored_value_def, subst w, subst assign_entries_fresh) auto
qed

section \<open>The objects table\<close>

interpretation objects_table: table object_key .

lemma select_object_get:
  assumes "tbl_ok object_key rows"
  shows "select_object app t ty i rows =
    (case tbl_get object_key (t, ty, i) rows of
       Some r \<Rightarrow> if or_app_id r = app then Some r else None | None \<Rightarrow> None)"
proof (cases "select_object app t ty i rows")
  case None
  then have "\<not> (r \<in> set rows \<and> object_key r = (t, ty, i) \<and> or_app_id r = app)" for r
    by (auto simp: select_object_def find_None_iff object_key_def)
  with None tbl_get_Some [of object_key "(t, ty, i)" rows] show ?thesis by (auto split: option.split)
next
  case (Some r)
  from find_Some_set [OF this [unfolded select_object_def]]
  have "r \<in> set rows" "object_key r = (t, ty, i)" "or_app_id r = app" by (simp_all add: object_key_def)
  with Some tbl_get_iff [OF assms, of "(t, ty, i)" r] show ?thesis by simp
qed

definition new_row :: "string \<Rightarrow> string \<Rightarrow> string \<Rightarrow> string \<Rightarrow> string \<Rightarrow> int \<Rightarrow> int \<Rightarrow> object_row" where
  "new_row app t ty i packed version now =
     \<lparr>or_app_id = app, or_tenant_id = t, or_object_type = ty, or_object_id = i, or_version = version,
      or_packed = packed, or_updated_at = iso_from_epoch_ms_blob now\<rparr>"

lemma new_row_simps [simp]:
  "object_key (new_row app t ty i packed version now) = (t, ty, i)"
  "or_app_id (new_row app t ty i packed version now) = app"
  "or_version (new_row app t ty i packed version now) = version"
  "or_packed (new_row app t ty i packed version now) = packed"
  "or_tenant_id (new_row app t ty i packed version now) = t"
  "or_object_type (new_row app t ty i packed version now) = ty"
  "or_object_id (new_row app t ty i packed version now) = i"
  by (simp_all add: new_row_def object_key_def)

lemma write_row_packed_eq:
  "write_row_packed app t ty i packed version now rows =
    (case tbl_get object_key (t, ty, i) rows of
       Some r \<Rightarrow> if or_app_id r \<noteq> app then Inl (CrossAppAccess app (or_app_id r) t ty i)
                else Inr (tbl_upsert object_key (new_row app t ty i packed version now) rows)
     | None \<Rightarrow> Inr (tbl_upsert object_key (new_row app t ty i packed version now) rows))"
  by (simp add: write_row_packed_def new_row_def split: option.split)

lemma select_after_write:
  assumes "tbl_ok object_key rows"
  shows "select_object app' t' ty' i' (tbl_upsert object_key (new_row app t ty i packed version now) rows) =
    (if (t', ty', i') = (t, ty, i)
     then (if app' = app then Some (new_row app t ty i packed version now) else None)
     else select_object app' t' ty' i' rows)"
  using assms tbl_ok_upsert [OF assms]
  by (simp add: select_object_get tbl_get_upsert split: option.splits)

text \<open>The conditional write in terms of the version it finds: the precondition decides the conflict,
  and a write that goes through stores the next version.\<close>

definition version_precondition :: "string \<Rightarrow> string \<Rightarrow> string \<Rightarrow> string \<Rightarrow> int option \<Rightarrow> objects \<Rightarrow> bool" where
  "version_precondition app t ty i expected rows = (case expected of
      None \<Rightarrow> select_object app t ty i rows = None
    | Some x \<Rightarrow> read_version t ty i app rows = x)"

lemma upsert_with_policy_eq:
  "upsert_with_policy env nonce app t ty i v expected policy now rows =
     rbind (pack_object env nonce t ty i v) (\<lambda>packed.
     if policy = VersionPrecondition \<and> \<not> version_precondition app t ty i expected rows
     then Inl (ObjectVersionConflict t ty i expected (read_version t ty i app rows))
     else rbind (write_row_packed app t ty i packed (read_version t ty i app rows + 1) now rows) (\<lambda>rows'.
       Inr (\<lparr>our_previous_version = read_version t ty i app rows,
             our_next_version = read_version t ty i app rows + 1,
             our_created = (select_object app t ty i rows = None)\<rparr>, rows')))"
proof -
  have rv: "(case select_object app t ty i rows of Some row \<Rightarrow> or_version row | None \<Rightarrow> 0) = read_version t ty i app rows"
    by (simp add: read_version_def)
  have z: "read_version t ty i app rows = 0" if "select_object app t ty i rows = None"
    using that by (simp add: read_version_def)
  show ?thesis
    by (cases "pack_object env nonce t ty i v"; cases policy; cases expected)
      (simp_all add: upsert_with_policy_def Let_def rv version_precondition_def z)
qed

lemma upsert_with_policy_Inr:
  assumes "upsert_with_policy env nonce app t ty i v expected policy now rows = Inr (res, rows')"
  obtains packed where "pack_object env nonce t ty i v = Inr packed"
    "rows' = tbl_upsert object_key (new_row app t ty i packed (read_version t ty i app rows + 1) now) rows"
    "res = \<lparr>our_previous_version = read_version t ty i app rows,
            our_next_version = read_version t ty i app rows + 1,
            our_created = (select_object app t ty i rows = None)\<rparr>"
    "\<And>r. tbl_get object_key (t, ty, i) rows = Some r \<Longrightarrow> or_app_id r = app"
    "policy = VersionPrecondition \<Longrightarrow> version_precondition app t ty i expected rows"
proof -
  from assms obtain packed where p: "pack_object env nonce t ty i v = Inr packed"
    and c: "policy = VersionPrecondition \<Longrightarrow> version_precondition app t ty i expected rows"
    and w: "write_row_packed app t ty i packed (read_version t ty i app rows + 1) now rows = Inr rows'"
    and r: "res = \<lparr>our_previous_version = read_version t ty i app rows,
            our_next_version = read_version t ty i app rows + 1,
            our_created = (select_object app t ty i rows = None)\<rparr>"
    by (auto simp: upsert_with_policy_eq split: if_splits)
  from w have "rows' = tbl_upsert object_key (new_row app t ty i packed (read_version t ty i app rows + 1) now) rows"
    "\<And>r. tbl_get object_key (t, ty, i) rows = Some r \<Longrightarrow> or_app_id r = app"
    by (auto simp: write_row_packed_eq split: option.splits if_splits)
  with p c r show ?thesis using that by blast
qed

section \<open>Preserving the table invariant\<close>

text \<open>Every stored column can be read back, and its value carries the id of its row.\<close>

definition objects_inv :: "store_env \<Rightarrow> objects \<Rightarrow> bool" where
  "objects_inv env rows \<longleftrightarrow> tbl_ok object_key rows \<and>
     (\<forall>r \<in> set rows. \<exists>v. unpack_object env (or_tenant_id r) (or_packed r) = Inr v
        \<and> id_of_value v = Some (or_object_id r))"

lemma objects_inv_write:
  assumes "objects_inv env rows" "env_ok env" "validate_schema lc (se_schema env) = Inr ()"
    and "length nonce = NONCE_LEN" "pack_object env nonce t ty i v = Inr packed"
  shows "objects_inv env (tbl_upsert object_key (new_row app t ty i packed version now) rows)"
  using assms(1) set_tbl_upsert_subset [of object_key "new_row app t ty i packed version now" rows]
    unpack_pack_object [OF assms(2-5)] tbl_ok_upsert [of object_key rows]
  by (fastforce simp: objects_inv_def)

lemma upsert_Inr:
  assumes "upsert env nonce t ty i v version app now rows = Inr rows'"
  obtains packed where "pack_object env nonce t ty i v = Inr packed"
    "rows' = tbl_upsert object_key (new_row app t ty i packed version now) rows"
  using assms by (auto simp: upsert_def write_row_tx_def write_row_packed_eq split: option.splits if_splits)

lemma objects_inv_filter: "objects_inv env rows \<Longrightarrow> objects_inv env (filter p rows)"
  by (auto simp: objects_inv_def tbl_ok_filter)

lemma objects_inv_delete: "objects_inv env rows \<Longrightarrow> objects_inv env (snd (delete_object_row t ty i app rows))"
  by (simp add: delete_object_row_def Let_def objects_inv_filter)

section \<open>Versions never decrease\<close>






section \<open>Properties of the object store\<close>

text \<open>C12: a successful write is read back by the same app as the written fields under the record id,
  its version is one more than the version it found, no other object of any app, tenant or type
  changes, and the primary key stays unique.\<close>

theorem object_read_after_write:
  assumes "env_ok env" "validate_schema lc (se_schema env) = Inr ()" "length nonce = NONCE_LEN"
    and "tbl_ok object_key rows" "string_keyed es"
    and "upsert_with_policy env nonce app t ty i (VMap es) expected policy now rows = Inr (res, rows')"
  shows "read_object env t ty i app rows' =
      Inr (Some (VMap ((VString ''id'', VString i) # filter (\<lambda>e. fst e \<noteq> VString ''id'') es)))
    \<and> our_previous_version res = read_version t ty i app rows
    \<and> our_next_version res = our_previous_version res + 1
    \<and> read_version t ty i app rows' = our_next_version res
    \<and> (\<forall>app' t' ty' i'. (app', t', ty', i') \<noteq> (app, t, ty, i) \<longrightarrow>
         select_object app' t' ty' i' rows' = select_object app' t' ty' i' rows)
    \<and> tbl_ok object_key rows'"
proof -
  from upsert_with_policy_Inr [OF assms(6)] obtain packed where p: "pack_object env nonce t ty i (VMap es) = Inr packed"
    and r': "rows' = tbl_upsert object_key (new_row app t ty i packed (read_version t ty i app rows + 1) now) rows"
    and res: "res = \<lparr>our_previous_version = read_version t ty i app rows,
            our_next_version = read_version t ty i app rows + 1,
            our_created = (select_object app t ty i rows = None)\<rparr>"
    and own: "\<And>r. tbl_get object_key (t, ty, i) rows = Some r \<Longrightarrow> or_app_id r = app" by metis
  have "select_object app' t ty i rows = None" if "app' \<noteq> app" for app'
    using that own by (auto simp: select_object_get assms(4) split: option.split)
  then have "\<forall>app' t' ty' i'. (app', t', ty', i') \<noteq> (app, t, ty, i) \<longrightarrow>
         select_object app' t' ty' i' rows' = select_object app' t' ty' i' rows"
    by (auto simp: r' select_after_write assms(4))
  with unpack_pack_object [OF assms(1-3) p] show ?thesis
    by (simp add: read_object_def r' res select_after_write assms(4) stored_value_string_keyed assms(5)
        read_version_def tbl_ok_upsert)
qed

text \<open>C8: a conditional write is rejected exactly when the value does not pack (unknown type or
  field), when its version precondition does not hold, or when another app owns the row; the errors
  carry the actual version and the owner.\<close>

theorem object_write_rejections:
  assumes "tbl_ok object_key rows"
  shows "upsert_with_policy env nonce app t ty i v expected policy now rows = Inl e \<longleftrightarrow>
      pack_object env nonce t ty i v = Inl e
    \<or> (\<exists>packed. pack_object env nonce t ty i v = Inr packed) \<and>
       (if policy = VersionPrecondition \<and>
           (case expected of None \<Rightarrow> \<exists>r \<in> set rows. object_key r = (t, ty, i) \<and> or_app_id r = app
            | Some x \<Rightarrow> read_version t ty i app rows \<noteq> x)
        then e = ObjectVersionConflict t ty i expected (read_version t ty i app rows)
        else \<exists>r \<in> set rows. object_key r = (t, ty, i) \<and> or_app_id r \<noteq> app
               \<and> e = CrossAppAccess app (or_app_id r) t ty i)"
proof -
  have sel: "select_object app t ty i rows = None \<longleftrightarrow> \<not> (\<exists>r \<in> set rows. object_key r = (t, ty, i) \<and> or_app_id r = app)"
    by (auto simp: select_object_def find_None_iff object_key_def)
  have pre: "\<not> version_precondition app t ty i expected rows \<longleftrightarrow>
      (case expected of None \<Rightarrow> \<exists>r \<in> set rows. object_key r = (t, ty, i) \<and> or_app_id r = app
       | Some x \<Rightarrow> read_version t ty i app rows \<noteq> x)"
    by (simp add: version_precondition_def sel split: option.split)
  have "write_row_packed app t ty i packed n now rows = Inl e \<longleftrightarrow>
      (\<exists>r \<in> set rows. object_key r = (t, ty, i) \<and> or_app_id r \<noteq> app \<and> e = CrossAppAccess app (or_app_id r) t ty i)"
    for packed n
  proof (cases "tbl_get object_key (t, ty, i) rows")
    case None
    then have "object_key r \<noteq> (t, ty, i)" if "r \<in> set rows" for r
      using that by (metis tbl_get_None image_eqI)
    with None show ?thesis by (auto simp: write_row_packed_eq)
  next
    case (Some x)
    then have "r \<in> set rows \<and> object_key r = (t, ty, i) \<longleftrightarrow> r = x" for r
      using tbl_get_iff [OF assms, of "(t, ty, i)"] by (metis option.inject)
    then have "(\<exists>r \<in> set rows. object_key r = (t, ty, i) \<and> Q r) \<longleftrightarrow> Q x" for Q
      by (simp add: Bex_def flip: conj_assoc)
    with Some show ?thesis by (auto simp: write_row_packed_eq)
  qed
  then show ?thesis unfolding pre [symmetric]
    by (cases "pack_object env nonce t ty i v") (auto simp: upsert_with_policy_eq rbind_Inl_iff)
qed


section \<open>Deleting by field\<close>

definition row_value :: "store_env \<Rightarrow> object_row \<Rightarrow> value" where
  "row_value env r = (case unpack_object env (or_tenant_id r) (or_packed r) of Inr v \<Rightarrow> v | Inl _ \<Rightarrow> VNil)"

definition in_scope :: "string \<Rightarrow> string \<Rightarrow> string \<Rightarrow> object_row \<Rightarrow> bool" where
  "in_scope t ty app r \<longleftrightarrow> or_app_id r = app \<and> or_tenant_id r = t \<and> or_object_type r = ty"

lemma objects_inv_row:
  assumes "objects_inv env rows" "r \<in> set rows"
  shows "unpack_object env (or_tenant_id r) (or_packed r) = Inr (row_value env r)"
    "id_of_value (row_value env r) = Some (or_object_id r)"
  using assms by (auto simp: objects_inv_def row_value_def)

lemma rmap_pure: "(\<And>x. x \<in> set xs \<Longrightarrow> f x = Inr (g x)) \<Longrightarrow> rmap f xs = Inr (map g xs)"
  by (induction xs) auto

lemma select_objects_eq: "select_objects t ty app rows = order_by or_object_id (filter (in_scope t ty app) rows)"
  by (simp add: select_objects_def in_scope_def [abs_def])

lemma list_objects_inv:
  assumes "objects_inv env rows"
  shows "list_objects env t ty app rows = Inr (map (row_value env) (select_objects t ty app rows))"
  unfolding list_objects_def
proof (rule rmap_pure)
  fix r assume "r \<in> set (select_objects t ty app rows)"
  then have "r \<in> set rows" "or_tenant_id r = t" by (auto simp: select_objects_def)
  with objects_inv_row(1) [OF assms] show "unpack_object env t (or_packed r) = Inr (row_value env r)" by auto
qed

lemma delete_object_row_eq:
  "delete_object_row t ty i app rows =
     ((\<exists>r \<in> set rows. in_scope t ty app r \<and> or_object_id r = i),
      filter (\<lambda>r. \<not> (in_scope t ty app r \<and> or_object_id r = i)) rows)"
proof -
  have "length (filter p rows) < length rows \<longleftrightarrow> (\<exists>r \<in> set rows. \<not> p r)" for p
    by (metis filter_True le_neq_implies_less length_filter_le length_filter_less less_irrefl)
  then show ?thesis by (auto simp: delete_object_row_def Let_def in_scope_def)
qed

lemma delete_by_field_loop_eq:
  assumes "\<forall>s \<in> set sel. in_scope t ty app s \<and> s \<in> set rows \<and> id_of_value (g s) = Some (or_object_id s)"
    and "distinct (map or_object_id sel)"
  shows "delete_by_field_loop t ty app f x (map g sel) n rows =
    (n + length (filter (\<lambda>s. object_field_eq (g s) f x) sel),
     filter (\<lambda>r. \<not> (\<exists>s \<in> set sel. object_field_eq (g s) f x \<and> in_scope t ty app r \<and> or_object_id r = or_object_id s)) rows)"
  using assms
proof (induction sel arbitrary: n rows)
  case Nil
  then show ?case by simp
next
  case (Cons s sel)
  show ?case
  proof (cases "object_field_eq (g s) f x")
    case False
    with Cons show ?thesis by simp
  next
    case True
    let ?rows = "filter (\<lambda>r. \<not> (in_scope t ty app r \<and> or_object_id r = or_object_id s)) rows"
    have "\<forall>s \<in> set sel. in_scope t ty app s \<and> s \<in> set ?rows \<and> id_of_value (g s) = Some (or_object_id s)"
      using Cons.prems by (force simp: rev_image_eqI)
    from Cons.IH [OF this, of "Suc n"] Cons.prems True show ?thesis
      by (auto simp: delete_object_row_eq intro!: filter_cong)
  qed
qed

text \<open>The store keeps its invariant (unique keys, every column readable under its tenant, every
  value carrying its row's id) through unconditional writes, conditional writes and deletes, and
  under it a listing never fails and is ordered by object id.\<close>

theorem object_store_invariant:
  assumes "objects_inv env rows" "env_ok env" "validate_schema lc (se_schema env) = Inr ()" "length nonce = NONCE_LEN"
  shows "(upsert env nonce t ty i v version app now rows = Inr rows1 \<longrightarrow> objects_inv env rows1)
    \<and> (upsert_with_policy env nonce app t ty i v expected policy now rows = Inr (res, rows2) \<longrightarrow> objects_inv env rows2)
    \<and> objects_inv env (snd (delete_object_row t ty i app rows))
    \<and> (\<exists>vs. list_objects env t ty app rows = Inr vs \<and> map id_of_value vs = map Some (list_ids t ty app rows)
         \<and> sorted (list_ids t ty app rows))"
proof -
  have "map (\<lambda>r. id_of_value (row_value env r)) (select_objects t ty app rows)
      = map (\<lambda>r. Some (or_object_id r)) (select_objects t ty app rows)"
    using objects_inv_row(2) [OF assms(1)] by (auto simp: select_objects_def)
  then show ?thesis
    using objects_inv_write [OF assms] objects_inv_delete [OF assms(1)] list_objects_inv [OF assms(1)]
      sorted_order_by [of or_object_id]
    by (auto simp: list_ids_def select_objects_eq elim!: upsert_Inr upsert_with_policy_Inr)
qed

text \<open>Deleting by field removes exactly the rows of the app, tenant and type whose value has the
  field, reports how many they were, and afterwards the query for that field is empty.\<close>

theorem delete_by_field_exact:
  assumes "objects_inv env rows"
  shows "\<exists>n rows'. delete_by_field env t ty app f x rows = Inr (n, rows')
    \<and> rows' = filter (\<lambda>r. \<not> (in_scope t ty app r \<and> object_field_eq (row_value env r) f x)) rows
    \<and> n + length rows' = length rows
    \<and> query_by_field env t ty app f x rows' = Inr []"
proof -
  let ?m = "\<lambda>r. object_field_eq (row_value env r) f x" and ?sel = "select_objects t ty app rows"
  have ok: "tbl_ok object_key rows" using assms by (simp add: objects_inv_def)
  have sel: "set ?sel = {r \<in> set rows. in_scope t ty app r}" by (auto simp: select_objects_eq)
  have "distinct (map or_object_id (filter (in_scope t ty app) rows))"
  proof -
    have "inj_on or_object_id (set (filter (in_scope t ty app) rows))"
      using ok by (auto simp: tbl_ok_def distinct_map inj_on_def object_key_def in_scope_def)
    moreover have "distinct rows" using ok by (auto simp: tbl_ok_def distinct_map)
    ultimately show ?thesis by (simp add: distinct_map)
  qed
  then have d: "distinct (map or_object_id ?sel)"
    by (simp add: select_objects_eq order_by_def distinct_map)
  have f: "filter (\<lambda>r. \<not> (\<exists>s \<in> set ?sel. ?m s \<and> in_scope t ty app r \<and> or_object_id r = or_object_id s)) rows
    = filter (\<lambda>r. \<not> (in_scope t ty app r \<and> ?m r)) rows"
  proof (rule filter_cong)
    fix r assume r: "r \<in> set rows"
    have "s = r" if "s \<in> set ?sel" "in_scope t ty app r" "or_object_id r = or_object_id s" for s
      using that d r sel by (auto simp: distinct_map inj_on_def)
    with r sel show "(\<not> (\<exists>s \<in> set ?sel. ?m s \<and> in_scope t ty app r \<and> or_object_id r = or_object_id s))
        = (\<not> (in_scope t ty app r \<and> ?m r))" by blast
  qed simp
  let ?rows' = "filter (\<lambda>r. \<not> (in_scope t ty app r \<and> ?m r)) rows"
  have "delete_by_field env t ty app f x rows = Inr (length (filter ?m ?sel), ?rows')"
    using delete_by_field_loop_eq [of ?sel t ty app rows "row_value env" f x 0] d f objects_inv_row [OF assms] sel
    by (simp add: delete_by_field_def list_objects_inv [OF assms])
  moreover have "length (filter ?m ?sel) + length ?rows' = length rows"
  proof -
    have "length (filter ?m ?sel) = length (filter (\<lambda>r. in_scope t ty app r \<and> ?m r) rows)"
      by (simp add: select_objects_eq order_by_def filter_sort conj_commute)
    then show ?thesis by (simp only: sum_length_filter_compl)
  qed
  moreover have "query_by_field env t ty app f x ?rows' = Inr []"
    by (auto simp: query_by_field_def list_objects_inv objects_inv_filter assms filter_empty_conv select_objects_eq)
  ultimately show ?thesis by blast
qed

section \<open>A concrete store\<close>

text \<open>An encoder that knows one record, one event with its tombstone and one value, with the cipher of the encryption
  theory attached.\<close>

definition fixed_wire :: "packed_record \<Rightarrow> packed_stream_event \<Rightarrow> value \<Rightarrow> wire" where
  "fixed_wire r e v =
     \<lparr>wi_enc_record = (\<lambda>x. if x = r then Inr ''R'' else Inl ''unsupported''),
      wi_dec_record = (\<lambda>b. if b = ''R'' then Inr r else Inl ''invalid''),
      wi_enc_event = (\<lambda>x. if x = e then Inr ''E'' else if x = e\<lparr>pse_fields := []\<rparr> then Inr ''T'' else Inl ''unsupported''),
      wi_dec_event = (\<lambda>b. if b = ''E'' then Inr e else if b = ''T'' then Inr (e\<lparr>pse_fields := []\<rparr>) else Inl ''invalid''),
      wi_enc_value = (\<lambda>x. if x = v then Inr ''V'' else Inl ''unsupported''),
      wi_dec_value = (\<lambda>b. if b = ''V'' then Inr v else Inl ''invalid'')\<rparr>"

definition sample_event :: packed_stream_event where
  "sample_event = \<lparr>pse_stream = 3, pse_key = ''r1'', pse_sequence = 1, pse_event_id = ''e1'', pse_event = 4,
     pse_fields = [(1, VString ''hi'')]\<rparr>"

definition sample_env :: store_env where
  "sample_env = \<lparr>se_schema = sample_schema,
     se_wire = fixed_wire (1, ''u1'', [(2, VInteger 36)]) sample_event VNil,
     se_crypto = plain_crypto, se_provider = Some sample_provider, se_unique_error = ''unique''\<rparr>"

lemma sample_env_ok: "env_ok sample_env" "validate_schema ascii_lower (se_schema sample_env) = Inr ()"
  using plain_crypto_contract(1) sample_schema_valid
  by (auto simp: env_ok_def wire_inverse_def sample_env_def fixed_wire_def sample_provider_def starts_with_def
      ENVELOPE_MAGIC_def utf8_tail_ok_def utf8_more_def)

abbreviation (input) "sample_nonce \<equiv> ''nonce0123456''"
abbreviation (input) "sample_user \<equiv> VMap [(VString ''age'', VInteger 36)]"

definition sample_objects :: objects where
  "sample_objects = (case upsert sample_env sample_nonce ''t'' ''User'' ''u1'' sample_user 7 ''app'' 0 [] of
     Inr rows \<Rightarrow> rows | Inl _ \<Rightarrow> [])"

lemma sample_objects_inv: "objects_inv sample_env sample_objects"
proof -
  have e: "objects_inv sample_env []" by (simp add: objects_inv_def tbl_ok_def)
  have "objects_inv sample_env rows"
    if "upsert sample_env sample_nonce ''t'' ''User'' ''u1'' sample_user 7 ''app'' 0 [] = Inr rows" for rows
    using that objects_inv_write [OF e sample_env_ok, of sample_nonce]
    by (elim upsert_Inr) (auto simp: NONCE_LEN_def)
  then show ?thesis using e by (simp add: sample_objects_def split: sum.split)
qed

theorem object_read_after_write_witness:
  "\<exists>res rows. upsert_with_policy sample_env sample_nonce ''app'' ''t'' ''User'' ''u1'' sample_user (Some 7)
       VersionPrecondition 5 sample_objects = Inr (res, rows)
     \<and> read_object sample_env ''t'' ''User'' ''u1'' ''app'' rows =
         Inr (Some (VMap [(VString ''id'', VString ''u1''), (VString ''age'', VInteger 36)]))
     \<and> read_version ''t'' ''User'' ''u1'' ''app'' rows = 8"
proof -
  let ?r = "upsert_with_policy sample_env sample_nonce ''app'' ''t'' ''User'' ''u1'' sample_user (Some 7)
       VersionPrecondition 5 sample_objects"
  have "is_ok ?r" and v: "read_version ''t'' ''User'' ''u1'' ''app'' sample_objects = 7" by code_simp+
  then obtain res rows where r: "?r = Inr (res, rows)" by (cases ?r) auto
  have ok: "tbl_ok object_key sample_objects" using sample_objects_inv by (simp add: objects_inv_def)
  from object_read_after_write [OF sample_env_ok _ ok _ r] r v show ?thesis
    by (simp add: NONCE_LEN_def string_keyed_def)
qed

theorem object_write_rejections_witness:
  "upsert_with_policy sample_env sample_nonce ''other'' ''t'' ''User'' ''u1'' sample_user None VersionPrecondition 5
     sample_objects = Inl (CrossAppAccess ''other'' ''app'' ''t'' ''User'' ''u1'')"
proof -
  have ok: "tbl_ok object_key sample_objects" using sample_objects_inv by (simp add: objects_inv_def)
  have "is_ok (pack_object sample_env sample_nonce ''t'' ''User'' ''u1'' sample_user)" by code_simp
  then have p: "\<exists>packed. pack_object sample_env sample_nonce ''t'' ''User'' ''u1'' sample_user = Inr packed"
    by (cases "pack_object sample_env sample_nonce ''t'' ''User'' ''u1'' sample_user") auto
  have "list_ex (\<lambda>r. object_key r = (''t'', ''User'', ''u1'') \<and> or_app_id r = ''app'') sample_objects"
    "\<not> list_ex (\<lambda>r. object_key r = (''t'', ''User'', ''u1'') \<and> or_app_id r = ''other'') sample_objects"
    by code_simp+
  then have "\<exists>r \<in> set sample_objects. object_key r = (''t'', ''User'', ''u1'') \<and> or_app_id r = ''app''"
    "\<not> (\<exists>r \<in> set sample_objects. object_key r = (''t'', ''User'', ''u1'') \<and> or_app_id r = ''other'')"
    by (simp_all add: list_ex_iff)
  with p object_write_rejections [OF ok, of sample_env sample_nonce "''other''" "''t''" "''User''" "''u1''"
      sample_user None VersionPrecondition 5 "CrossAppAccess ''other'' ''app'' ''t'' ''User'' ''u1''"]
  show ?thesis by fastforce
qed


theorem object_store_invariant_witness:
  "\<exists>vs. list_objects sample_env ''t'' ''User'' ''app'' sample_objects = Inr vs \<and> map id_of_value vs = [Some ''u1'']"
proof -
  have "list_ids ''t'' ''User'' ''app'' sample_objects = [''u1'']" by code_simp
  with object_store_invariant [OF sample_objects_inv sample_env_ok, of sample_nonce "''t''" "''User''" _ _ _ "''app''"]
  show ?thesis by (auto simp: NONCE_LEN_def)
qed

theorem delete_by_field_exact_witness:
  "\<exists>n rows. delete_by_field sample_env ''t'' ''User'' ''app'' ''id'' ''u1'' sample_objects = Inr (n, rows)
     \<and> n + length rows = 1 \<and> query_by_field sample_env ''t'' ''User'' ''app'' ''id'' ''u1'' rows = Inr []"
proof -
  have "length sample_objects = 1" by code_simp
  with delete_by_field_exact [OF sample_objects_inv, of "''t''" "''User''" "''app''" "''id''" "''u1''"]
  show ?thesis by auto
qed

end
