(* ===== verification/FrickIdempotency.thy ===== *)
theory FrickIdempotency
  imports FrickPrelude Complex_Main "HOL-Library.AList"
begin

text \<open>
  The bounded idempotency cache of \<open>frick-store/src/stores/idempotency.rs\<close>: an LRU map made of a
  hash map from keys to stamped values and an ordered map from stamps to keys.

  The hash map is an association list with pairwise different keys (its order is never observed),
  the ordered map a list in increasing stamp order.  Stamps and counters are \<open>nat\<close>: an overflow of
  the \<open>u64\<close> stamp takes \<open>2 ^ 64\<close> operations.  The specification is the recency list.
\<close>

section \<open>The cache\<close>

record 'v idem_cache =
  ic_capacity :: nat
  ic_entries :: "(string \<times> nat \<times> 'v) list"
  ic_order :: "(nat \<times> string) list"
  ic_next_stamp :: nat
  ic_evictions :: nat

text \<open>An \<open>f64\<close> capacity: not finite, or a rational value.  \<open>floor() as usize\<close> saturates.\<close>

datatype f64_capacity = NonFinite | Finite rat

definition cache_new :: "f64_capacity \<Rightarrow> (f64_capacity, 'v idem_cache) result" where
  "cache_new capacity = (case capacity of
      NonFinite \<Rightarrow> Err capacity
    | Finite c \<Rightarrow> if c \<le> 0 then Err capacity
        else Ok \<lparr>ic_capacity = min (nat (floor c)) (2 ^ 64 - 1), ic_entries = [], ic_order = [],
                 ic_next_stamp = 0, ic_evictions = 0\<rparr>)"

definition cache_size :: "'v idem_cache \<Rightarrow> nat" where
  "cache_size c = length (ic_entries c)"

definition order_remove :: "nat \<Rightarrow> (nat \<times> string) list \<Rightarrow> (nat \<times> string) list" where
  "order_remove stamp order = filter (\<lambda>e. fst e \<noteq> stamp) order"

definition order_insert :: "nat \<Rightarrow> string \<Rightarrow> (nat \<times> string) list \<Rightarrow> (nat \<times> string) list" where
  "order_insert stamp key order = insort_key fst (stamp, key) (order_remove stamp order)"

definition cache_get :: "string \<Rightarrow> 'v idem_cache \<Rightarrow> 'v option \<times> 'v idem_cache" where
  "cache_get key c = (case map_of (ic_entries c) key of
      None \<Rightarrow> (None, c)
    | Some (stale, v) \<Rightarrow>
        let fresh = ic_next_stamp c
        in (Some v, c\<lparr>ic_next_stamp := fresh + 1,
              ic_order := order_insert fresh key (order_remove stale (ic_order c)),
              ic_entries := AList.update key (fresh, v) (ic_entries c)\<rparr>))"

text \<open>The eviction loop of \<open>set\<close>: \<open>pop_first\<close> until the size is within the capacity.\<close>

fun evict :: "nat \<Rightarrow> (nat \<times> string) list \<Rightarrow> (string \<times> nat \<times> 'v) list \<Rightarrow> nat
    \<Rightarrow> (nat \<times> string) list \<times> (string \<times> nat \<times> 'v) list \<times> nat" where
  "evict capacity [] entries evictions = ([], entries, evictions)"
| "evict capacity ((stamp, oldest) # order) entries evictions =
    (if length entries > capacity
     then evict capacity order (AList.delete oldest entries) (evictions + 1)
     else ((stamp, oldest) # order, entries, evictions))"

definition cache_set :: "string \<Rightarrow> 'v \<Rightarrow> 'v idem_cache \<Rightarrow> 'v idem_cache" where
  "cache_set key v c =
    (let order = (case map_of (ic_entries c) key of
           None \<Rightarrow> ic_order c | Some (stale, _) \<Rightarrow> order_remove stale (ic_order c));
         entries = AList.delete key (ic_entries c);
         fresh = ic_next_stamp c;
         (order', entries', evictions') = evict (ic_capacity c) (order_insert fresh key order)
           ((key, (fresh, v)) # entries) (ic_evictions c)
     in c\<lparr>ic_next_stamp := fresh + 1, ic_order := order', ic_entries := entries',
          ic_evictions := evictions'\<rparr>)"

section \<open>The specification: a recency list\<close>

text \<open>Oldest first.\<close>

definition rec_get :: "string \<Rightarrow> (string \<times> 'v) list \<Rightarrow> 'v option \<times> (string \<times> 'v) list" where
  "rec_get key l = (case map_of l key of
      None \<Rightarrow> (None, l)
    | Some v \<Rightarrow> (Some v, filter (\<lambda>e. fst e \<noteq> key) l @ [(key, v)]))"

definition rec_set :: "nat \<Rightarrow> string \<Rightarrow> 'v \<Rightarrow> (string \<times> 'v) list \<Rightarrow> (string \<times> 'v) list" where
  "rec_set capacity key v l =
    (let l' = filter (\<lambda>e. fst e \<noteq> key) l @ [(key, v)] in drop (length l' - capacity) l')"

definition cache_abs :: "'v idem_cache \<Rightarrow> (string \<times> 'v) list" where
  "cache_abs c = map (\<lambda>(stamp, key). (key, snd (the (map_of (ic_entries c) key)))) (ic_order c)"

text \<open>Consistency of the two maps: stamps increase and stay below the next one, and the order index
  lists exactly the stamped keys of the entries.\<close>

definition cache_inv :: "'v idem_cache \<Rightarrow> bool" where
  "cache_inv c \<longleftrightarrow> distinct (map fst (ic_entries c))
     \<and> sorted_wrt (<) (map fst (ic_order c))
     \<and> (\<forall>e \<in> set (ic_order c). fst e < ic_next_stamp c)
     \<and> distinct (map snd (ic_order c))
     \<and> set (ic_order c) = (\<lambda>e. (fst (snd e), fst e)) ` set (ic_entries c)"

section \<open>The two maps agree\<close>

definition consistent :: "(nat \<times> string) list \<Rightarrow> (string \<times> nat \<times> 'v) list \<Rightarrow> bool" where
  "consistent order entries \<longleftrightarrow> distinct (map fst entries) \<and> distinct (map snd order)
     \<and> set order = (\<lambda>e. (fst (snd e), fst e)) ` set entries"

lemma cache_inv_consistent: "cache_inv c \<Longrightarrow> consistent (ic_order c) (ic_entries c)"
  by (simp add: cache_inv_def consistent_def)

lemma consistent_stamp:
  assumes "consistent order entries"
  shows "(s, k) \<in> set order \<longleftrightarrow> (\<exists>v. map_of entries k = Some (s, v))"
proof -
  have "(s, k) \<in> set order \<longleftrightarrow> (s, k) \<in> (\<lambda>e. (fst (snd e), fst e)) ` set entries"
    using assms by (simp only: consistent_def)
  also have "\<dots> \<longleftrightarrow> (\<exists>v. (k, s, v) \<in> set entries)" by force
  finally show ?thesis using assms by (simp add: consistent_def)
qed

lemma consistent_length:
  assumes "consistent order entries"
  shows "length order = length entries"
proof -
  have "length order = card (set order)"
    using assms by (metis consistent_def distinct_card distinct_map)
  also have "\<dots> = card (set entries)"
  proof -
    have inj: "inj_on fst (set entries)" using assms by (simp add: consistent_def distinct_map)
    have "inj_on (\<lambda>e. (fst (snd e), fst e)) (set entries)"
    proof (rule inj_onI)
      fix x y assume xy: "x \<in> set entries" "y \<in> set entries"
        and "(fst (snd x), fst x) = (fst (snd y), fst y)"
      then have "fst x = fst y" by simp
      then show "x = y" using inj_onD [OF inj] xy by blast
    qed
    then show ?thesis using assms by (simp add: consistent_def card_image)
  qed
  also have "\<dots> = length entries"
    using assms by (metis consistent_def distinct_card distinct_map)
  finally show ?thesis .
qed

lemma consistent_keys:
  assumes "consistent order entries"
  shows "snd ` set order = fst ` set entries"
  using assms by (simp add: consistent_def image_image split_def)

lemma consistent_delete:
  assumes "consistent ((s, k) # order) entries"
  shows "consistent order (AList.delete k entries)"
proof -
  have "k \<notin> snd ` set order" using assms by (simp add: consistent_def)
  then have "set order = {e \<in> set ((s, k) # order). snd e \<noteq> k}" by auto
  also have "\<dots> = {e \<in> (\<lambda>e. (fst (snd e), fst e)) ` set entries. snd e \<noteq> k}"
    using assms by (simp only: consistent_def)
  also have "\<dots> = (\<lambda>e. (fst (snd e), fst e)) ` set (AList.delete k entries)"
    by (auto simp: AList.delete_eq)
  finally have "set order = (\<lambda>e. (fst (snd e), fst e)) ` set (AList.delete k entries)" .
  moreover have "distinct (map fst entries)" "distinct (map snd order)"
    using assms by (simp_all add: consistent_def)
  ultimately show ?thesis unfolding consistent_def by (simp add: distinct_delete)
qed

lemma filter_all: "\<forall>x \<in> set xs. P x \<Longrightarrow> filter P xs = xs"
  by (induction xs) auto

lemma filter_delete:
  "k \<notin> K \<Longrightarrow> filter (\<lambda>e. fst e \<in> K) (AList.delete k es) = filter (\<lambda>e. fst e \<in> K) es"
  by (induction es) auto

lemma evict_spec:
  "consistent order entries \<Longrightarrow> evict cap order entries n =
     (drop (length order - cap) order,
      filter (\<lambda>e. fst e \<in> snd ` set (drop (length order - cap) order)) entries,
      n + (length order - cap))"
proof (induction cap order entries n rule: evict.induct)
  case (1 cap entries n)
  then show ?case by (simp add: consistent_def)
next
  case (2 cap s k order entries n)
  note len = consistent_length [OF "2.prems"]
  show ?case
  proof (cases "length entries > cap")
    case True
    let ?d = "drop (length order - cap) order"
    have n: "length ((s, k) # order) - cap = Suc (length order - cap)"
      using True len by (simp only: list.size)
    then have d: "drop (length ((s, k) # order) - cap) ((s, k) # order) = ?d" by simp
    have "k \<notin> snd ` set order" using "2.prems" by (simp add: consistent_def)
    then have k: "k \<notin> snd ` set ?d" using set_drop_subset [of "length order - cap" order] by blast
    have "filter (\<lambda>e. fst e \<in> snd ` set ?d) (AList.delete k entries) =
      filter (\<lambda>e. fst e \<in> snd ` set ?d) entries"
      by (rule filter_delete [OF k])
    with "2.IH" [OF True consistent_delete [OF "2.prems"]] True len
    show ?thesis unfolding d n by simp
  next
    case False
    have "filter (\<lambda>e. fst e \<in> snd ` set ((s, k) # order)) entries = entries"
      using consistent_keys [OF "2.prems"] by (intro filter_all) auto
    with False len show ?thesis by simp
  qed
qed

lemma image_keys_filter:
  "{e \<in> (\<lambda>e. (fst (snd e), fst e)) ` A. snd e \<in> K} = (\<lambda>e. (fst (snd e), fst e)) ` {x \<in> A. fst x \<in> K}"
  by auto

lemma consistent_drop:
  assumes "consistent order entries"
  shows "consistent (drop n order) (filter (\<lambda>e. fst e \<in> snd ` set (drop n order)) entries)"
proof -
  let ?D = "drop n order"
  have "set ?D = {e \<in> set order. snd e \<in> snd ` set ?D}"
  proof (rule set_eqI)
    fix e
    have "e \<in> set ?D" if "e \<in> set order" "e' \<in> set ?D" "snd e = snd e'" for e'
    proof -
      have "e' \<in> set order" using that(2) by (rule in_set_dropD)
      then have "e = e'" using that assms by (auto simp: consistent_def distinct_map inj_on_def)
      with that show ?thesis by simp
    qed
    then show "e \<in> set ?D \<longleftrightarrow> e \<in> {e \<in> set order. snd e \<in> snd ` set ?D}"
      by (auto dest: in_set_dropD)
  qed
  also have "\<dots> = {e \<in> (\<lambda>e. (fst (snd e), fst e)) ` set entries. snd e \<in> snd ` set ?D}"
    using assms by (simp only: consistent_def)
  also have "\<dots> = (\<lambda>e. (fst (snd e), fst e)) ` set (filter (\<lambda>e. fst e \<in> snd ` set ?D) entries)"
    by (simp only: image_keys_filter set_filter)
  finally have "set ?D = (\<lambda>e. (fst (snd e), fst e)) ` set (filter (\<lambda>e. fst e \<in> snd ` set ?D) entries)" .
  moreover have "distinct (map fst entries)" "distinct (map snd order)"
    using assms by (simp_all add: consistent_def)
  ultimately show ?thesis unfolding consistent_def
    by (simp add: distinct_map_filter drop_map [symmetric])
qed

section \<open>Inserting at the fresh end\<close>

lemma insort_last: "\<forall>e \<in> set xs. fst e < s \<Longrightarrow> insort_key fst (s, k) xs = xs @ [(s, k)]"
  by (induction xs) (auto simp: not_le)

lemma order_insert_fresh:
  assumes "\<forall>e \<in> set order. fst e < (s::nat)"
  shows "order_insert s k order = order @ [(s, k)]"
proof -
  have "order_remove s order = order" using assms by (auto simp: order_remove_def intro!: filter_all)
  then show ?thesis using assms insort_last [of order s k] by (simp add: order_insert_def)
qed

lemma order_remove_key:
  assumes "cache_inv c" "map_of (ic_entries c) k = Some (s, v)"
  shows "order_remove s (ic_order c) = filter (\<lambda>e. snd e \<noteq> k) (ic_order c)"
proof -
  have m: "(s, k) \<in> set (ic_order c)"
    using assms consistent_stamp [OF cache_inv_consistent] by blast
  have i: "inj_on fst (set (ic_order c))" "inj_on snd (set (ic_order c))"
    using assms(1) by (auto simp: cache_inv_def strict_sorted_iff distinct_map)
  have "fst e = s \<longleftrightarrow> snd e = k" if "e \<in> set (ic_order c)" for e
    using inj_onD [OF i(1), of e "(s, k)"] inj_onD [OF i(2), of e "(s, k)"] that m by (cases e) auto
  then show ?thesis by (auto simp: order_remove_def intro!: filter_cong)
qed

lemma filter_absent: "k \<notin> snd ` set order \<Longrightarrow> filter (\<lambda>e. snd e \<noteq> k) order = order"
  by (auto intro: filter_all)

lemma cache_new_inv [frick_inv]: "cache_new cap = Inr c \<Longrightarrow> cache_inv c \<and> cache_abs c = []"
  by (auto simp: cache_new_def cache_inv_def cache_abs_def split: f64_capacity.splits if_splits)

lemma map_of_cache_abs:
  fixes c :: "'v idem_cache"
  assumes "cache_inv c"
  shows "map_of (cache_abs c) k = map_option snd (map_of (ic_entries c) k)"
proof -
  have "map_of (map (\<lambda>(s, k). (k, snd (the (map_of es k)))) order) k =
      (if k \<in> snd ` set order then Some (snd (the (map_of es k))) else None)"
    for es :: "(string \<times> nat \<times> 'v) list" and order :: "(nat \<times> string) list"
    by (induction order) auto
  then show ?thesis
    using consistent_keys [OF cache_inv_consistent [OF assms]]
    by (cases "map_of (ic_entries c) k") (auto simp: cache_abs_def map_of_eq_None_iff intro: rev_image_eqI dest: map_of_SomeD)
qed

lemma cache_abs_filter:
  assumes "cache_inv c"
  shows "filter (\<lambda>e. fst e \<noteq> k) (cache_abs c) =
    map (\<lambda>(s, k). (k, snd (the (map_of (ic_entries c) k)))) (filter (\<lambda>e. snd e \<noteq> k) (ic_order c))"
  by (simp add: cache_abs_def filter_map comp_def split_def)

lemma cache_abs_cong:
  assumes "\<And>k. k \<in> snd ` set order \<Longrightarrow> map_of es k = map_of es' k"
  shows "map (\<lambda>(s, k). (k, snd (the (map_of es k)))) order = map (\<lambda>(s, k). (k, snd (the (map_of es' k)))) order"
  using assms by (auto simp: split_def intro!: image_eqI)

lemma consistentI:
  assumes "distinct (map fst es)" "distinct (map snd order)"
    and "\<And>s k. (s, k) \<in> set order \<longleftrightarrow> (\<exists>v. map_of es k = Some (s, v))"
  shows "consistent order es"
proof -
  have "(s, k) \<in> (\<lambda>e. (fst (snd e), fst e)) ` set es \<longleftrightarrow> (\<exists>v. (k, s, v) \<in> set es)" for s k by force
  then have "e \<in> set order \<longleftrightarrow> e \<in> (\<lambda>e. (fst (snd e), fst e)) ` set es" for e
    using assms(1,3) by (cases e) simp
  with assms(1,2) show ?thesis unfolding consistent_def by blast
qed

text \<open>Moving a key to the fresh end, as both operations do.\<close>

lemma touch:
  assumes "cache_inv c" "distinct (map fst es)" "n = ic_next_stamp c"
    and "map_of es = (map_of (ic_entries c))(k \<mapsto> (n, v))"
    and "order = filter (\<lambda>e. snd e \<noteq> k) (ic_order c) @ [(n, k)]"
  shows "consistent order es" "sorted_wrt (<) (map fst order)" "\<forall>e \<in> set order. fst e < n + 1"
    "map (\<lambda>(s, k). (k, snd (the (map_of es k)))) order = filter (\<lambda>e. fst e \<noteq> k) (cache_abs c) @ [(k, v)]"
proof -
  have inv: "sorted_wrt (<) (map fst (ic_order c))" "\<forall>e \<in> set (ic_order c). fst e < n"
    "distinct (map snd (ic_order c))"
    using assms(1,3) by (simp_all add: cache_inv_def)
  note st = consistent_stamp [OF cache_inv_consistent [OF assms(1)]]
  show "consistent order es"
    using inv assms(2,4,5) st by (intro consistentI) (auto simp: distinct_map_filter)
  have "sorted_wrt (<) (map fst (filter (\<lambda>e. snd e \<noteq> k) (ic_order c)))"
    using inv(1) by (simp add: sorted_wrt_map sorted_wrt_filter)
  then show "sorted_wrt (<) (map fst order)" using inv(2) assms(5) by (auto simp: sorted_wrt_append)
  show "\<forall>e \<in> set order. fst e < n + 1" using inv(2) assms(5) by auto
  have "map (\<lambda>(s, k). (k, snd (the (map_of es k)))) (filter (\<lambda>e. snd e \<noteq> k) (ic_order c)) =
      filter (\<lambda>e. fst e \<noteq> k) (cache_abs c)"
    unfolding cache_abs_filter [OF assms(1)] by (rule cache_abs_cong) (auto simp: assms(4))
  then show "map (\<lambda>(s, k). (k, snd (the (map_of es k)))) order = filter (\<lambda>e. fst e \<noteq> k) (cache_abs c) @ [(k, v)]"
    using assms(4,5) by simp
qed

lemma order_without_key:
  assumes "cache_inv c"
  shows "(case map_of (ic_entries c) k of None \<Rightarrow> ic_order c | Some (s, _) \<Rightarrow> order_remove s (ic_order c))
    = filter (\<lambda>e. snd e \<noteq> k) (ic_order c)"
proof (cases "map_of (ic_entries c) k")
  case None
  then have "k \<notin> snd ` set (ic_order c)"
    using consistent_keys [OF cache_inv_consistent [OF assms]] by (simp add: map_of_eq_None_iff)
  with None show ?thesis using filter_absent by fastforce
next
  case (Some sv)
  then show ?thesis using order_remove_key [OF assms, of k "fst sv" "snd sv"] by (cases sv) simp
qed

lemma order_insert_after_remove:
  assumes "cache_inv c"
  shows "order_insert (ic_next_stamp c) k (filter (\<lambda>e. snd e \<noteq> k) (ic_order c)) =
    filter (\<lambda>e. snd e \<noteq> k) (ic_order c) @ [(ic_next_stamp c, k)]"
  using assms by (intro order_insert_fresh) (auto simp: cache_inv_def)

lemma cache_get_refines:
  assumes "cache_inv c"
  shows "fst (cache_get k c) = fst (rec_get k (cache_abs c))"
    "cache_abs (snd (cache_get k c)) = snd (rec_get k (cache_abs c))"
    "cache_inv (snd (cache_get k c))"
proof -
  have "fst (cache_get k c) = fst (rec_get k (cache_abs c))
    \<and> cache_abs (snd (cache_get k c)) = snd (rec_get k (cache_abs c)) \<and> cache_inv (snd (cache_get k c))"
  proof (cases "map_of (ic_entries c) k")
    case None
    then show ?thesis using assms by (simp add: cache_get_def rec_get_def map_of_cache_abs)
  next
    case (Some sv)
    obtain s v where sv: "sv = (s, v)" by (cases sv)
    let ?n = "ic_next_stamp c"
    let ?O = "filter (\<lambda>e. snd e \<noteq> k) (ic_order c) @ [(?n, k)]"
    let ?E = "AList.update k (?n, v) (ic_entries c)"
    have rem: "order_remove s (ic_order c) = filter (\<lambda>e. snd e \<noteq> k) (ic_order c)"
      using order_remove_key [OF assms Some [unfolded sv]] .
    have g: "cache_get k c = (Some v, c\<lparr>ic_next_stamp := ?n + 1, ic_order := ?O, ic_entries := ?E\<rparr>)"
      using Some sv by (simp add: cache_get_def Let_def rem order_insert_after_remove [OF assms])
    have "distinct (map fst ?E)" using assms by (simp add: cache_inv_def distinct_update)
    note t = touch [OF assms this refl update_conv' refl]
    have "cache_inv (snd (cache_get k c))"
      using t(1-3) by (simp add: g cache_inv_def consistent_def)
    moreover have "cache_abs (snd (cache_get k c)) = filter (\<lambda>e. fst e \<noteq> k) (cache_abs c) @ [(k, v)]"
      using t(4) by (simp add: g cache_abs_def)
    ultimately show ?thesis using Some sv
      by (simp add: g rec_get_def map_of_cache_abs [OF assms])
  qed
  then show "fst (cache_get k c) = fst (rec_get k (cache_abs c))"
    "cache_abs (snd (cache_get k c)) = snd (rec_get k (cache_abs c))"
    "cache_inv (snd (cache_get k c))" by simp_all
qed

lemma map_of_filter_keys: "k \<in> K \<Longrightarrow> map_of (filter (\<lambda>e. fst e \<in> K) es) k = map_of es k"
  by (induction es) auto

lemma cache_set_refines:
  assumes "cache_inv c"
  shows "cache_abs (cache_set k v c) = rec_set (ic_capacity c) k v (cache_abs c)"
    "cache_inv (cache_set k v c)" "ic_capacity (cache_set k v c) = ic_capacity c"
    "ic_evictions (cache_set k v c) = ic_evictions c
       + (length (filter (\<lambda>e. fst e \<noteq> k) (cache_abs c)) + 1 - ic_capacity c)"
proof -
  let ?n = "ic_next_stamp c" and ?cap = "ic_capacity c"
  let ?O = "filter (\<lambda>e. snd e \<noteq> k) (ic_order c) @ [(?n, k)]"
  let ?E = "(k, (?n, v)) # AList.delete k (ic_entries c)"
  let ?D = "drop (length ?O - ?cap) ?O"
  let ?E' = "filter (\<lambda>e. fst e \<in> snd ` set ?D) ?E"
  have "distinct (map fst ?E)" using assms by (simp add: cache_inv_def delete_keys distinct_removeAll)
  moreover have "map_of ?E = (map_of (ic_entries c))(k \<mapsto> (?n, v))"
    by (simp add: delete_conv')
  ultimately have t: "consistent ?O ?E" "sorted_wrt (<) (map fst ?O)" "\<forall>e \<in> set ?O. fst e < ?n + 1"
    "map (\<lambda>(s, k). (k, snd (the (map_of ?E k)))) ?O = filter (\<lambda>e. fst e \<noteq> k) (cache_abs c) @ [(k, v)]"
    using touch [OF assms _ refl _ refl] by blast+
  have s: "cache_set k v c = c\<lparr>ic_next_stamp := ?n + 1, ic_order := ?D, ic_entries := ?E',
      ic_evictions := ic_evictions c + (length ?O - ?cap)\<rparr>"
    unfolding cache_set_def Let_def order_without_key [OF assms]
      order_insert_after_remove [OF assms] evict_spec [OF t(1)] by simp
  have len: "length (filter (\<lambda>e. fst e \<noteq> k) (cache_abs c)) + 1 = length ?O"
    using arg_cong [OF t(4), of length] by simp
  show "ic_capacity (cache_set k v c) = ic_capacity c" by (simp add: s)
  show "ic_evictions (cache_set k v c) = ic_evictions c
       + (length (filter (\<lambda>e. fst e \<noteq> k) (cache_abs c)) + 1 - ic_capacity c)"
    unfolding len by (simp add: s)
  have "sorted_wrt (<) (map fst ?D)" using t(2) by (simp only: drop_map [symmetric] sorted_wrt_drop)
  moreover have "\<forall>e \<in> set ?D. fst e < ?n + 1" using t(3) in_set_dropD by metis
  ultimately show "cache_inv (cache_set k v c)"
    using consistent_drop [OF t(1), of "length ?O - ?cap"] by (simp only: s cache_inv_def consistent_def) simp
  have "map (\<lambda>(s, k). (k, snd (the (map_of ?E' k)))) ?D = map (\<lambda>(s, k). (k, snd (the (map_of ?E k)))) ?D"
    by (rule cache_abs_cong) (rule map_of_filter_keys)
  also have "\<dots> = drop (length ?O - ?cap) (filter (\<lambda>e. fst e \<noteq> k) (cache_abs c) @ [(k, v)])"
    unfolding t(4) [symmetric] drop_map ..
  finally show "cache_abs (cache_set k v c) = rec_set (ic_capacity c) k v (cache_abs c)"
    using len by (simp add: s cache_abs_def rec_set_def Let_def)
qed

lemma cache_abs_distinct:
  assumes "cache_inv c"
  shows "distinct (map fst (cache_abs c))"
proof -
  have "map fst (cache_abs c) = map snd (ic_order c)" by (simp add: cache_abs_def split_def)
  then show ?thesis using assms by (simp add: cache_inv_def)
qed

lemma cache_size_abs: "cache_inv c \<Longrightarrow> cache_size c = length (cache_abs c)"
  using consistent_length [OF cache_inv_consistent, of c] by (simp add: cache_size_def cache_abs_def)

section \<open>What clients of a recency cache rely on\<close>

datatype 'v cache_op = GetOp string | SetOp string 'v

fun apply_op :: "(string \<Rightarrow> 's \<Rightarrow> 'v option \<times> 's) \<Rightarrow> (string \<Rightarrow> 'v \<Rightarrow> 's \<Rightarrow> 's) \<Rightarrow> 'v cache_op \<Rightarrow> 's \<Rightarrow> 's" where
  "apply_op getf setf (GetOp k) s = snd (getf k s)"
| "apply_op getf setf (SetOp k v) s = setf k v s"

fun last_set :: "string \<Rightarrow> 'v option \<Rightarrow> 'v cache_op list \<Rightarrow> 'v option" where
  "last_set k acc [] = acc"
| "last_set k acc (GetOp _ # ops) = last_set k acc ops"
| "last_set k acc (SetOp j v # ops) = last_set k (if j = k then Some v else acc) ops"

lemma length_filter_key:
  "distinct (map fst l) \<Longrightarrow> map_of l k = Some v \<Longrightarrow> length (filter (\<lambda>e. fst e \<noteq> k) l) + 1 = length l"
proof (induction l)
  case (Cons e l)
  show ?case
  proof (cases "fst e = k")
    case True
    with Cons.prems have "k \<notin> fst ` set l" by auto
    then have "filter (\<lambda>e. fst e \<noteq> k) l = l" by (intro filter_all) auto
    with True show ?thesis by simp
  next
    case False
    with Cons show ?thesis by (cases e) auto
  qed
qed simp

lemma rec_get_length: "distinct (map fst l) \<Longrightarrow> length (snd (rec_get k l)) = length l"
  using length_filter_key [of l k] by (auto simp: rec_get_def split: option.splits)

lemma map_of_filter_other: "map_of (filter (\<lambda>e. fst e \<noteq> k) l) j = (if j = k then None else map_of l j)"
  by (induction l) auto

lemma rec_get_map_of: "distinct (map fst l) \<Longrightarrow> map_of (snd (rec_get k l)) = map_of l"
  by (rule ext) (auto simp: rec_get_def map_add_def map_of_filter_other split: option.splits)

lemma rec_set_map_of:
  assumes "distinct (map fst l)" "map_of (rec_set cap k v l) j = Some w"
  shows "if j = k then w = v else map_of l j = Some w"
proof -
  let ?l = "filter (\<lambda>e. fst e \<noteq> k) l @ [(k, v)]"
  have d: "distinct (map fst ?l)" using assms(1) by (auto simp: distinct_map_filter)
  have "(j, w) \<in> set ?l"
    using assms(2) by (auto simp: rec_set_def Let_def dest!: map_of_SomeD in_set_dropD)
  then have "map_of ?l j = Some w" using d by (simp only: map_of_eq_Some_iff)
  then show ?thesis by (auto simp: map_add_def map_of_filter_other split: if_splits option.splits)
qed

locale recency_cache =
  fixes invar :: "'s \<Rightarrow> bool"
    and absl :: "'s \<Rightarrow> (string \<times> 'v) list"
    and cap :: "'s \<Rightarrow> nat"
    and getf :: "string \<Rightarrow> 's \<Rightarrow> 'v option \<times> 's"
    and setf :: "string \<Rightarrow> 'v \<Rightarrow> 's \<Rightarrow> 's"
  assumes get_result: "invar s \<Longrightarrow> fst (getf k s) = fst (rec_get k (absl s))"
    and get_abs: "invar s \<Longrightarrow> absl (snd (getf k s)) = snd (rec_get k (absl s))"
    and set_abs: "invar s \<Longrightarrow> absl (setf k v s) = rec_set (cap s) k v (absl s)"
    and invar_get: "invar s \<Longrightarrow> invar (snd (getf k s))"
    and invar_set: "invar s \<Longrightarrow> invar (setf k v s)"
    and cap_get: "invar s \<Longrightarrow> cap (snd (getf k s)) = cap s"
    and cap_set: "invar s \<Longrightarrow> cap (setf k v s) = cap s"
    and abs_distinct: "invar s \<Longrightarrow> distinct (map fst (absl s))"
begin

lemma hit_after_set:
  assumes "invar s" "0 < cap s"
  shows "fst (getf k (setf k v s)) = Some v"
proof -
  let ?l = "filter (\<lambda>e. fst e \<noteq> k) (absl s)"
  have "drop (length (?l @ [(k, v)]) - cap s) (?l @ [(k, v)])
      = drop (length (?l @ [(k, v)]) - cap s) ?l @ [(k, v)]"
    using assms(2) by simp
  moreover have "map_of (drop n ?l) k = None" for n
    using set_drop_subset [of n ?l] by (auto simp: map_of_eq_None_iff)
  ultimately show ?thesis
    using assms(1) by (simp add: get_result invar_set set_abs rec_set_def Let_def rec_get_def map_add_def)
qed

lemma set_within_capacity: "invar s \<Longrightarrow> length (absl (setf k v s)) \<le> cap s"
  by (simp add: set_abs rec_set_def Let_def)

lemma get_keeps_length: "invar s \<Longrightarrow> length (absl (snd (getf k s))) = length (absl s)"
  by (simp add: get_abs rec_get_length abs_distinct)

lemma run_ops:
  assumes "invar s" "length (absl s) \<le> cap s" "\<forall>k w. map_of (absl s) k = Some w \<longrightarrow> acc k = Some w"
  shows "invar (fold (apply_op getf setf) ops s) \<and> cap (fold (apply_op getf setf) ops s) = cap s
    \<and> length (absl (fold (apply_op getf setf) ops s)) \<le> cap s
    \<and> (\<forall>k w. map_of (absl (fold (apply_op getf setf) ops s)) k = Some w \<longrightarrow> last_set k (acc k) ops = Some w)"
  using assms
proof (induction ops arbitrary: s acc)
  case (Cons op ops)
  show ?case
  proof (cases op)
    case (GetOp k)
    have "map_of (absl (snd (getf k s))) = map_of (absl s)"
      using Cons.prems(1) by (simp add: get_abs rec_get_map_of abs_distinct)
    then show ?thesis
      using Cons.IH [of "snd (getf k s)" acc] Cons.prems
      by (simp add: GetOp invar_get cap_get get_keeps_length)
  next
    case (SetOp k v)
    let ?acc = "\<lambda>j. if k = j then Some v else acc j"
    have "\<forall>j w. map_of (absl (setf k v s)) j = Some w \<longrightarrow> ?acc j = Some w"
    proof (intro allI impI)
      fix j w
      assume "map_of (absl (setf k v s)) j = Some w"
      then have "if j = k then w = v else map_of (absl s) j = Some w"
        using Cons.prems(1) rec_set_map_of [OF abs_distinct, of s "cap s" k v j w] by (simp add: set_abs)
      with Cons.prems(3) show "?acc j = Some w" by (auto split: if_splits)
    qed
    then show ?thesis
      using Cons.IH [of "setf k v s" ?acc] Cons.prems set_within_capacity
      by (simp add: SetOp invar_set cap_set)
  qed
qed simp

end

interpretation idem: recency_cache cache_inv cache_abs ic_capacity cache_get cache_set
proof
  show "ic_capacity (snd (cache_get k c)) = ic_capacity c" for k and c :: "'v idem_cache"
    by (simp add: cache_get_def Let_def split: option.splits)
qed (simp_all add: cache_get_refines cache_set_refines cache_abs_distinct)

section \<open>Properties\<close>

text \<open>C18: on consistent caches the two-map implementation refines the recency list: \<open>get\<close> returns
  what the list holds and moves the key to the recent end, \<open>set\<close> puts the key at the recent end and
  drops the oldest entries beyond the capacity, counting them, and both keep the maps consistent.\<close>

theorem idempotency_cache_refines_lru:
  assumes "cache_inv c"
  shows "fst (cache_get k c) = fst (rec_get k (cache_abs c))
    \<and> cache_abs (snd (cache_get k c)) = snd (rec_get k (cache_abs c))
    \<and> cache_inv (snd (cache_get k c))
    \<and> cache_abs (cache_set k v c) = rec_set (ic_capacity c) k v (cache_abs c)
    \<and> cache_inv (cache_set k v c)
    \<and> ic_evictions (cache_set k v c) = ic_evictions c
        + (length (filter (\<lambda>e. fst e \<noteq> k) (cache_abs c)) + 1 - ic_capacity c)"
  using cache_get_refines [OF assms] cache_set_refines [OF assms] by blast

definition sample_cache :: "nat idem_cache" where
  "sample_cache = cache_set ''b'' 2 (cache_set ''a'' 1 \<lparr>ic_capacity = 2, ic_entries = [], ic_order = [],
     ic_next_stamp = 0, ic_evictions = 0\<rparr>)"

theorem idempotency_cache_refines_lru_witness:
  "cache_inv sample_cache \<and> cache_abs (cache_set ''c'' 3 sample_cache) = [(''b'', 2), (''c'', 3)]"
proof -
  have i: "cache_inv sample_cache" and a: "cache_abs sample_cache = [(''a'', 1), (''b'', 2)]"
      and c: "ic_capacity sample_cache = 2"
    by code_simp+
  from idempotency_cache_refines_lru [OF i, of "''c''" 3] a c i show ?thesis
    by (simp add: rec_set_def)
qed

text \<open>Whatever sequence of operations runs on a fresh cache, its size never exceeds the capacity
  and a hit returns exactly the value most recently set for that key, so an eviction can only cause
  a miss; with a capacity of at least one a key that has just been set hits.\<close>

theorem idempotency_cache_coherent:
  assumes "cache_new cap = Inr c"
  shows "cache_size (fold (apply_op cache_get cache_set) ops c) \<le> ic_capacity c
    \<and> fst (cache_get k (fold (apply_op cache_get cache_set) ops c)) \<in> {None, last_set k None ops}
    \<and> (0 < ic_capacity c \<longrightarrow>
        fst (cache_get k (cache_set k v (fold (apply_op cache_get cache_set) ops c))) = Some v)"
proof -
  let ?c = "fold (apply_op cache_get cache_set) ops c"
  have i: "cache_inv c" "cache_abs c = []" using cache_new_inv [OF assms] by simp_all
  have r: "cache_inv ?c" "ic_capacity ?c = ic_capacity c" "length (cache_abs ?c) \<le> ic_capacity c"
    "\<forall>k w. map_of (cache_abs ?c) k = Some w \<longrightarrow> last_set k None ops = Some w"
    using idem.run_ops [of c "\<lambda>_. None" ops] i by simp_all
  have "fst (cache_get k ?c) = map_of (cache_abs ?c) k"
    using cache_get_refines(1) [OF r(1)] by (simp add: rec_get_def split: option.splits)
  with r idem.hit_after_set [OF r(1)] show ?thesis
    by (cases "map_of (cache_abs ?c) k") (auto simp: cache_size_abs)
qed

theorem idempotency_cache_coherent_witness:
  "cache_size (fold (apply_op cache_get cache_set)
     [SetOp ''a'' (1::nat), SetOp ''b'' 2, GetOp ''a'', SetOp ''c'' 3]
     \<lparr>ic_capacity = 2, ic_entries = [], ic_order = [], ic_next_stamp = 0, ic_evictions = 0\<rparr>) \<le> 2"
proof -
  have "cache_new (Finite (5 / 2)) = Inr \<lparr>ic_capacity = 2, ic_entries = [], ic_order = [],
      ic_next_stamp = 0, ic_evictions = 0\<rparr>"
    using floor_unique [of 2 "5 / 2 :: rat"] by (simp add: cache_new_def)
  from idempotency_cache_coherent [OF this, of "[SetOp ''a'' (1::nat), SetOp ''b'' 2, GetOp ''a'', SetOp ''c'' 3]"]
  show ?thesis by simp
qed

end
