(* ===== verification/FrickStreamStore.thy ===== *)
theory FrickStreamStore
  imports FrickObjectStore FrickIso FrickIdempotency
begin

text \<open>
  The stream store (\<open>frick-store/src/stores/stream.rs\<close>): appending events with request
  deduplication, cursor reads in both directions, retention and redaction.

  The state is the two tables the store writes, \<open>stream_events\<close> (primary key tenant, stream type,
  stream id, sequence; event ids unique per tenant) and \<open>idempotency_keys\<close> (primary key app, tenant,
  replica, request).  The front-cache is the one of \<open>FrickIdempotency\<close>; an absent cache is \<open>None\<close>.
  Timestamps in the cache are epoch milliseconds that the code holds in a 64-bit float: \<open>None\<close>
  stands for not-a-number and integers for the exactly representable rest.
\<close>

section \<open>Types\<close>

record stored_event =
  sv_event :: stream_event_input
  sv_tenant_id :: string
  sv_app_id :: string

record append_result =
  ar_event :: stored_event
  ar_created :: bool

record cached_idempotent_event =
  ci_event :: stored_event
  ci_created_at_ms :: "int option"

record stream_retention_policy =
  rp_max_age_ms :: "int option"
  rp_max_events :: "int option"
  rp_tenant_id :: "string option"
  rp_app_id :: "string option"

record retention_prune_result =
  rr_pruned_by_age :: nat
  rr_pruned_by_count :: nat

record stream_head =
  sh_head_sequence :: int
  sh_count :: int

record event_row =
  er_app_id :: string
  er_tenant_id :: string
  er_stream_type :: string
  er_stream_id :: string
  er_sequence :: int
  er_event_id :: string
  er_event_type :: string
  er_packed :: string
  er_replica_id :: string
  er_request_id :: string
  er_created_at :: string

record idempotency_row =
  ik_app_id :: string
  ik_tenant_id :: string
  ik_replica_id :: string
  ik_request_id :: string
  ik_result_event_id :: string
  ik_created_at :: string

record stream_state =
  ss_events :: "event_row list"
  ss_keys :: "idempotency_row list"

type_synonym front_cache = "cached_idempotent_event idem_cache option"

definition REDACTED_EVENT_TYPE_MARKER :: string where
  "REDACTED_EVENT_TYPE_MARKER = ''__redacted__''"

definition event_key :: "event_row \<Rightarrow> string \<times> string \<times> string \<times> int" where
  "event_key r = (er_tenant_id r, er_stream_type r, er_stream_id r, er_sequence r)"

definition idempotency_key :: "idempotency_row \<Rightarrow> string \<times> string \<times> string \<times> string" where
  "idempotency_key r = (ik_app_id r, ik_tenant_id r, ik_replica_id r, ik_request_id r)"

section \<open>Reading rows\<close>

definition within_replay_window :: "int option \<Rightarrow> int option \<Rightarrow> int \<Rightarrow> bool" where
  "within_replay_window replay_window_ms created_at_ms now_ms = (case replay_window_ms of
      None \<Rightarrow> True
    | Some window \<Rightarrow> (case created_at_ms of None \<Rightarrow> False | Some created \<Rightarrow> now_ms - created \<le> window))"

definition enabled_window :: "int option \<Rightarrow> int option" where
  "enabled_window replay_window_ms =
     (case replay_window_ms of Some w \<Rightarrow> if w > 0 then Some w else None | None \<Rightarrow> None)"

definition unpack_row :: "store_env \<Rightarrow> string \<Rightarrow> string \<Rightarrow> event_row \<Rightarrow> (store_error, stored_event) result" where
  "unpack_row env tenant_id app_id row =
     rbind (open_column env tenant_id (er_packed row)) (\<lambda>opened.
     rbind (decode_packed (wi_dec_event (se_wire env)) opened) (\<lambda>packed.
     rbind (map_err Store (unpack_stream_event (se_schema env) packed)) (\<lambda>event.
     Ok \<lparr>sv_event = event, sv_tenant_id = tenant_id, sv_app_id = app_id\<rparr>)))"

definition map_events :: "store_env \<Rightarrow> event_row list \<Rightarrow> string \<Rightarrow> string \<Rightarrow> (store_error, stored_event list) result" where
  "map_events env rows tenant_id app_id = rmap (unpack_row env tenant_id app_id) rows"

definition list_all_by_stream_type ::
  "store_env \<Rightarrow> string \<Rightarrow> string \<Rightarrow> string \<Rightarrow> stream_state \<Rightarrow> (store_error, stored_event list) result" where
  "list_all_by_stream_type env tenant_id stream app_id st =
     map_events env (order_by er_stream_id (order_by er_sequence
       (filter (\<lambda>r. er_app_id r = app_id \<and> er_tenant_id r = tenant_id \<and> er_stream_type r = stream) (ss_events st))))
       tenant_id app_id"

definition list_all_events ::
  "store_env \<Rightarrow> string \<Rightarrow> string \<Rightarrow> stream_state \<Rightarrow> (store_error, stored_event list) result" where
  "list_all_events env tenant_id app_id st =
     map_events env (order_by er_stream_type (order_by er_stream_id (order_by er_sequence
       (filter (\<lambda>r. er_app_id r = app_id \<and> er_tenant_id r = tenant_id) (ss_events st))))) tenant_id app_id"

definition stream_rows :: "string \<Rightarrow> string \<Rightarrow> string \<Rightarrow> string \<Rightarrow> stream_state \<Rightarrow> event_row list" where
  "stream_rows app_id tenant_id stream stream_id st =
     filter (\<lambda>r. er_app_id r = app_id \<and> er_tenant_id r = tenant_id \<and> er_stream_type r = stream
       \<and> er_stream_id r = stream_id) (ss_events st)"

definition read_stream ::
  "store_env \<Rightarrow> string \<Rightarrow> string \<Rightarrow> string \<Rightarrow> int \<Rightarrow> int option \<Rightarrow> string \<Rightarrow> stream_state
    \<Rightarrow> (store_error, stored_event list) result" where
  "read_stream env tenant_id stream stream_id after limit app_id st =
    (let rows = order_by er_sequence (filter (\<lambda>r. er_sequence r > after)
                  (stream_rows app_id tenant_id stream stream_id st))
     in map_events env (case limit of None \<Rightarrow> rows | Some l \<Rightarrow> take (nat (max l 1)) rows) tenant_id app_id)"

definition head :: "string \<Rightarrow> string \<Rightarrow> string \<Rightarrow> string \<Rightarrow> stream_state \<Rightarrow> stream_head" where
  "head tenant_id stream stream_id app_id st =
    (let rows = stream_rows app_id tenant_id stream stream_id st
     in \<lparr>sh_head_sequence = (if rows = [] then 0 else Max (set (map er_sequence rows))),
         sh_count = int (length rows)\<rparr>)"

definition read_before ::
  "store_env \<Rightarrow> string \<Rightarrow> string \<Rightarrow> string \<Rightarrow> int \<Rightarrow> int \<Rightarrow> string \<Rightarrow> stream_state
    \<Rightarrow> (store_error, stored_event list) result" where
  "read_before env tenant_id stream stream_id before limit app_id st =
    (let clamped = min (max limit 1) 500;
         cutoff = (if before > 0 then before else 9007199254740991)
     in rbind (map_events env (take (nat clamped) (order_by_desc er_sequence
          (filter (\<lambda>r. er_sequence r < cutoff) (stream_rows app_id tenant_id stream stream_id st))))
          tenant_id app_id) (\<lambda>events. Ok (rev events)))"

definition read_by_event_id ::
  "store_env \<Rightarrow> string \<Rightarrow> string \<Rightarrow> string \<Rightarrow> stream_state \<Rightarrow> (store_error, stored_event option) result" where
  "read_by_event_id env app_id tenant_id event_id st =
    (case find (\<lambda>r. er_app_id r = app_id \<and> er_tenant_id r = tenant_id \<and> er_event_id r = event_id) (ss_events st) of
       None \<Rightarrow> Ok None
     | Some row \<Rightarrow> rbind (unpack_row env tenant_id app_id row) (\<lambda>e. Ok (Some e)))"

definition read_idempotent_event ::
  "store_env \<Rightarrow> int option \<Rightarrow> string \<Rightarrow> string \<Rightarrow> string \<Rightarrow> string \<Rightarrow> int \<Rightarrow> stream_state
    \<Rightarrow> (store_error, cached_idempotent_event option) result" where
  "read_idempotent_event env window app_id tenant_id replica_id request_id now_ms st =
    (case tbl_get idempotency_key (app_id, tenant_id, replica_id, request_id) (ss_keys st) of
       None \<Rightarrow> Ok None
     | Some row \<Rightarrow>
        (let created_at_ms = parse_iso_ms_opt (ik_created_at row) in
         if \<not> within_replay_window window created_at_ms now_ms then Ok None
         else rbind (read_by_event_id env app_id tenant_id (ik_result_event_id row) st) (\<lambda>event.
           Ok (map_option (\<lambda>e. \<lparr>ci_event = e, ci_created_at_ms = created_at_ms\<rparr>) event))))"

definition next_sequence :: "string \<Rightarrow> string \<Rightarrow> string \<Rightarrow> stream_state \<Rightarrow> int" where
  "next_sequence tenant_id stream stream_id st =
    (let rows = filter (\<lambda>r. er_tenant_id r = tenant_id \<and> er_stream_type r = stream \<and> er_stream_id r = stream_id)
                  (ss_events st)
     in (if rows = [] then 0 else Max (set (map er_sequence rows))) + 1)"

section \<open>Appending\<close>

definition cache_key :: "string \<Rightarrow> string \<Rightarrow> string \<Rightarrow> string \<Rightarrow> string" where
  "cache_key app_id tenant_id replica_id request_id =
     app_id @ ''|'' @ tenant_id @ ''|'' @ replica_id @ ''|'' @ request_id"

fun front_get :: "string \<Rightarrow> front_cache \<Rightarrow> cached_idempotent_event option \<times> front_cache" where
  "front_get k None = (None, None)"
| "front_get k (Some c) = (case cache_get k c of (hit, c') \<Rightarrow> (hit, Some c'))"

fun front_set :: "string \<Rightarrow> cached_idempotent_event \<Rightarrow> front_cache \<Rightarrow> front_cache" where
  "front_set k v None = None"
| "front_set k v (Some c) = Some (cache_set k v c)"

text \<open>\<open>INSERT INTO stream_events\<close>: the primary key and the unique index on the event id.\<close>

definition insert_event :: "store_env \<Rightarrow> event_row \<Rightarrow> stream_state \<Rightarrow> (store_error, stream_state) result" where
  "insert_event env row st =
    (if list_ex (\<lambda>r. event_key r = event_key row
         \<or> er_tenant_id r = er_tenant_id row \<and> er_event_id r = er_event_id row) (ss_events st)
     then Err (Driver (se_unique_error env))
     else Ok (st\<lparr>ss_events := ss_events st @ [row]\<rparr>))"

record append_request =
  aq_tenant_id :: string
  aq_stream :: string
  aq_stream_id :: string
  aq_replica_id :: string
  aq_request_id :: string
  aq_event :: string
  aq_payload :: "value"
  aq_app_id :: string
  aq_event_id :: string
  aq_now_ms :: int

definition append_fresh ::
  "store_env \<Rightarrow> string \<Rightarrow> append_request \<Rightarrow> stream_state \<Rightarrow> (store_error, stored_event \<times> stream_state) result" where
  "append_fresh env nonce q st =
    (let sequence = next_sequence (aq_tenant_id q) (aq_stream q) (aq_stream_id q) st;
         wire_event = \<lparr>sei_stream = aq_stream q, sei_stream_id = aq_stream_id q, sei_sequence = sequence,
                       sei_event_id = aq_event_id q, sei_event = aq_event q, sei_payload = aq_payload q\<rparr>;
         created_at = iso_from_epoch_ms_blob (aq_now_ms q)
     in rbind (map_err Store (pack_stream_event (se_schema env) wire_event)) (\<lambda>packed.
        rbind (encode_packed (wi_enc_event (se_wire env)) packed) (\<lambda>encoded.
        rbind (seal_column env nonce (aq_tenant_id q) encoded) (\<lambda>stored_packed.
        rbind (insert_event env
            \<lparr>er_app_id = aq_app_id q, er_tenant_id = aq_tenant_id q, er_stream_type = aq_stream q,
             er_stream_id = aq_stream_id q, er_sequence = sequence, er_event_id = aq_event_id q,
             er_event_type = aq_event q, er_packed = stored_packed, er_replica_id = aq_replica_id q,
             er_request_id = aq_request_id q, er_created_at = created_at\<rparr> st) (\<lambda>st'.
        Ok (\<lparr>sv_event = wire_event, sv_tenant_id = aq_tenant_id q, sv_app_id = aq_app_id q\<rparr>,
            st'\<lparr>ss_keys := tbl_upsert idempotency_key
              \<lparr>ik_app_id = aq_app_id q, ik_tenant_id = aq_tenant_id q, ik_replica_id = aq_replica_id q,
               ik_request_id = aq_request_id q, ik_result_event_id = aq_event_id q,
               ik_created_at = created_at\<rparr> (ss_keys st')\<rparr>))))))"

definition append_stream ::
  "store_env \<Rightarrow> int option \<Rightarrow> string \<Rightarrow> append_request \<Rightarrow> stream_state \<Rightarrow> front_cache
    \<Rightarrow> (store_error, append_result) result \<times> stream_state \<times> front_cache" where
  "append_stream env window nonce q st cache =
    (let key = cache_key (aq_app_id q) (aq_tenant_id q) (aq_replica_id q) (aq_request_id q);
         (cached, cache1) = front_get key cache
     in case (case cached of Some c \<Rightarrow> if within_replay_window window (ci_created_at_ms c) (aq_now_ms q)
                                       then Some c else None | None \<Rightarrow> None) of
       Some c \<Rightarrow> (Ok \<lparr>ar_event = ci_event c, ar_created = False\<rparr>, st, cache1)
     | None \<Rightarrow>
        (case read_idempotent_event env window (aq_app_id q) (aq_tenant_id q) (aq_replica_id q) (aq_request_id q)
                (aq_now_ms q) st of
           Inl e \<Rightarrow> (Inl e, st, cache1)
         | Inr (Some existing) \<Rightarrow>
             (Ok \<lparr>ar_event = ci_event existing, ar_created = False\<rparr>, st, front_set key existing cache1)
         | Inr None \<Rightarrow>
            (case append_fresh env nonce q st of
               Inl e \<Rightarrow> (Inl e, st, cache1)
             | Inr (event, st') \<Rightarrow>
                (Ok \<lparr>ar_event = event, ar_created = True\<rparr>, st',
                 front_set key \<lparr>ci_event = event,
                   ci_created_at_ms = parse_iso_ms_opt (iso_from_epoch_ms_blob (aq_now_ms q))\<rparr> cache1))))"

section \<open>Retention and redaction\<close>

definition in_policy_scope :: "stream_retention_policy \<Rightarrow> event_row \<Rightarrow> bool" where
  "in_policy_scope policy r \<longleftrightarrow>
     (case rp_tenant_id policy of Some t \<Rightarrow> er_tenant_id r = t | None \<Rightarrow> True)
   \<and> (case rp_app_id policy of Some a \<Rightarrow> er_app_id r = a | None \<Rightarrow> True)"

definition prune_by_age :: "string \<Rightarrow> stream_retention_policy \<Rightarrow> int \<Rightarrow> event_row list \<Rightarrow> event_row list" where
  "prune_by_age stream_type policy now_ms rows = (case rp_max_age_ms policy of
      Some max_age_ms \<Rightarrow> if max_age_ms > 0
        then filter (\<lambda>r. \<not> (er_stream_type r = stream_type
               \<and> er_created_at r < iso_from_epoch_ms_blob (now_ms - max_age_ms) \<and> in_policy_scope policy r)) rows
        else rows
    | None \<Rightarrow> rows)"

definition stream_max :: "event_row \<Rightarrow> event_row list \<Rightarrow> int" where
  "stream_max r rows = Max (set (map er_sequence (filter (\<lambda>s. er_tenant_id s = er_tenant_id r
     \<and> er_stream_type s = er_stream_type r \<and> er_stream_id s = er_stream_id r) rows)))"

definition prune_by_count :: "string \<Rightarrow> stream_retention_policy \<Rightarrow> event_row list \<Rightarrow> event_row list" where
  "prune_by_count stream_type policy rows = (case rp_max_events policy of
      Some max_events \<Rightarrow> if max_events \<ge> 0
        then filter (\<lambda>r. \<not> (er_stream_type r = stream_type
               \<and> er_sequence r \<le> stream_max r rows - max_events \<and> in_policy_scope policy r)) rows
        else rows
    | None \<Rightarrow> rows)"

fun prune_retention_loop ::
  "(string \<times> stream_retention_policy) list \<Rightarrow> int \<Rightarrow> retention_prune_result \<Rightarrow> event_row list
    \<Rightarrow> retention_prune_result \<times> event_row list"
where
  "prune_retention_loop [] now_ms res rows = (res, rows)"
| "prune_retention_loop ((stream_type, policy) # policies) now_ms res rows =
    (let rows1 = prune_by_age stream_type policy now_ms rows;
         rows2 = prune_by_count stream_type policy rows1
     in prune_retention_loop policies now_ms
          \<lparr>rr_pruned_by_age = rr_pruned_by_age res + (length rows - length rows1),
           rr_pruned_by_count = rr_pruned_by_count res + (length rows1 - length rows2)\<rparr> rows2)"

definition prune_retention ::
  "(string \<times> stream_retention_policy) list \<Rightarrow> int \<Rightarrow> stream_state \<Rightarrow> retention_prune_result \<times> stream_state" where
  "prune_retention policies now_ms st =
    (case prune_retention_loop policies now_ms \<lparr>rr_pruned_by_age = 0, rr_pruned_by_count = 0\<rparr> (ss_events st) of
       (res, rows) \<Rightarrow> (res, st\<lparr>ss_events := rows\<rparr>))"

definition at_address :: "string \<Rightarrow> string \<Rightarrow> string \<Rightarrow> int \<Rightarrow> string \<Rightarrow> event_row \<Rightarrow> bool" where
  "at_address tenant_id stream stream_id sequence app_id r \<longleftrightarrow>
     er_app_id r = app_id \<and> er_tenant_id r = tenant_id \<and> er_stream_type r = stream
     \<and> er_stream_id r = stream_id \<and> er_sequence r = sequence"

definition redact_event ::
  "store_env \<Rightarrow> string \<Rightarrow> string \<Rightarrow> string \<Rightarrow> string \<Rightarrow> int \<Rightarrow> string \<Rightarrow> stream_state
    \<Rightarrow> (store_error, bool \<times> stream_state) result" where
  "redact_event env nonce tenant_id stream stream_id sequence app_id st =
    (case find (at_address tenant_id stream stream_id sequence app_id) (ss_events st) of
       None \<Rightarrow> Ok (False, st)
     | Some row \<Rightarrow>
        rbind (open_column env tenant_id (er_packed row)) (\<lambda>opened.
        rbind (decode_packed (wi_dec_event (se_wire env)) opened) (\<lambda>packed.
        rbind (encode_packed (wi_enc_event (se_wire env)) (packed\<lparr>pse_fields := []\<rparr>)) (\<lambda>tombstoned.
        rbind (seal_column env nonce tenant_id tombstoned) (\<lambda>encoded.
        Ok (list_ex (at_address tenant_id stream stream_id sequence app_id) (ss_events st),
            st\<lparr>ss_events := tbl_update (at_address tenant_id stream stream_id sequence app_id)
              (\<lambda>r. r\<lparr>er_packed := encoded, er_event_type := REDACTED_EVENT_TYPE_MARKER\<rparr>) (ss_events st)\<rparr>))))))"

definition event_field_eq :: "value \<Rightarrow> string \<Rightarrow> string \<Rightarrow> bool" where
  "event_field_eq payload field expected = (case as_map payload of
      Some entries \<Rightarrow> list_ex (\<lambda>e. as_str (fst e) = Some field \<and> as_str (snd e) = Some expected) entries
    | None \<Rightarrow> False)"

text \<open>The loop of \<open>redact_by_field\<close>; an error stops it and keeps the redactions made so far.\<close>

fun redact_loop ::
  "store_env \<Rightarrow> (nat \<Rightarrow> string) \<Rightarrow> string \<Rightarrow> string \<Rightarrow> string \<Rightarrow> string \<Rightarrow> string \<Rightarrow> stored_event list \<Rightarrow> nat
    \<Rightarrow> stream_state \<Rightarrow> (store_error, nat) result \<times> stream_state"
where
  "redact_loop env nonces tenant_id stream app_id field v [] redacted st = (Ok redacted, st)"
| "redact_loop env nonces tenant_id stream app_id field v (stored # events) redacted st =
    (if \<not> event_field_eq (sei_payload (sv_event stored)) field v
     then redact_loop env nonces tenant_id stream app_id field v events redacted st
     else case redact_event env (nonces (length events)) tenant_id stream (sei_stream_id (sv_event stored))
                 (sei_sequence (sv_event stored)) app_id st of
       Inl e \<Rightarrow> (Inl e, st)
     | Inr (found, st') \<Rightarrow>
         redact_loop env nonces tenant_id stream app_id field v events (if found then redacted + 1 else redacted) st')"

definition redact_by_field ::
  "store_env \<Rightarrow> (nat \<Rightarrow> string) \<Rightarrow> string \<Rightarrow> string \<Rightarrow> string \<Rightarrow> string \<Rightarrow> string \<Rightarrow> stream_state
    \<Rightarrow> (store_error, nat) result \<times> stream_state" where
  "redact_by_field env nonces tenant_id stream app_id field v st =
    (case list_all_by_stream_type env tenant_id stream app_id st of
       Inl e \<Rightarrow> (Inl e, st)
     | Inr events \<Rightarrow> redact_loop env nonces tenant_id stream app_id field v events 0 st)"

end
