(* ===== verification/FrickStream.thy ===== *)
theory FrickStream
  imports FrickStreamStore
begin

text \<open>
  What the stream store guarantees: deduplication of retried appends with or without the
  front-cache, fresh and increasing sequence numbers, complete cursor paging in both directions, and
  redaction that erases payloads without moving any cursor; and, at the end, three behaviours the
  guarantees do not reach (bars in cache keys, payloads kept by the cache, pruned streams).
\<close>

section \<open>Invariant\<close>

text \<open>The constraints of the two tables, and that every row can be read and its packed event names
  the stream, key, sequence and event id of its columns.\<close>

definition names_row :: "stream_event_input \<Rightarrow> event_row \<Rightarrow> bool" where
  "names_row e r \<longleftrightarrow> sei_stream e = er_stream_type r \<and> sei_stream_id e = er_stream_id r
     \<and> sei_sequence e = er_sequence r \<and> sei_event_id e = er_event_id r"

definition stream_inv :: "store_env \<Rightarrow> stream_state \<Rightarrow> bool" where
  "stream_inv env st \<longleftrightarrow> tbl_ok event_key (ss_events st)
     \<and> tbl_ok (\<lambda>r. (er_tenant_id r, er_event_id r)) (ss_events st)
     \<and> tbl_ok idempotency_key (ss_keys st)
     \<and> (\<forall>r \<in> set (ss_events st). \<exists>b p e. open_column env (er_tenant_id r) (er_packed r) = Inr b
          \<and> wi_dec_event (se_wire env) b = Inr p \<and> unpack_stream_event (se_schema env) p = Inr e \<and> names_row e r)"

interpretation keys_table: table idempotency_key .
interpretation events_table: table event_key .

section \<open>Packing events\<close>

lemma pack_unpack_stream_event:
  assumes "validate_schema lc s = Inr ()" "pack_stream_event s i = Inr p"
  shows "unpack_stream_event s p = Inr (i\<lparr>sei_payload := VMap (assign_entries [] (value_entries (sei_payload i)))\<rparr>)"
proof -
  from assms(2) obtain sm ev ps where e: "stream_by_name s (sei_stream i) = Inr sm"
    "event_by_name s (sei_event i) = Inr ev" "pack_fields (ev_fields ev) (sei_payload i) = Inr ps"
    "p = \<lparr>pse_stream = sm_id sm, pse_key = sei_stream_id i, pse_sequence = sei_sequence i,
         pse_event_id = sei_event_id i, pse_event = ev_id ev, pse_fields = ps\<rparr>"
    by (auto simp: pack_stream_event_def)
  with validated_lookup_by_id(2) [OF assms(1) e(1)] validated_lookup_by_id(3) [OF assms(1) e(2)]
    unpack_pack_any [OF validated_field_ids(2) [OF assms(1) e(2)] e(3)]
  show ?thesis by (simp add: unpack_stream_event_def unpack_fields_def)
qed

text \<open>A payload whose keys are pairwise different strings is stored as it is.\<close>

lemma assign_entries_string_keyed: "string_keyed es \<Longrightarrow> assign_entries [] es = es"
  using assign_entries_fresh [of es "[]"] by simp

section \<open>The effect of a fresh append\<close>

definition fresh_event :: "append_request \<Rightarrow> stream_state \<Rightarrow> stored_event" where
  "fresh_event q st = \<lparr>sv_event = \<lparr>sei_stream = aq_stream q, sei_stream_id = aq_stream_id q,
      sei_sequence = next_sequence (aq_tenant_id q) (aq_stream q) (aq_stream_id q) st,
      sei_event_id = aq_event_id q, sei_event = aq_event q, sei_payload = aq_payload q\<rparr>,
     sv_tenant_id = aq_tenant_id q, sv_app_id = aq_app_id q\<rparr>"

definition fresh_row :: "append_request \<Rightarrow> string \<Rightarrow> stream_state \<Rightarrow> event_row" where
  "fresh_row q packed st = \<lparr>er_app_id = aq_app_id q, er_tenant_id = aq_tenant_id q, er_stream_type = aq_stream q,
     er_stream_id = aq_stream_id q, er_sequence = next_sequence (aq_tenant_id q) (aq_stream q) (aq_stream_id q) st,
     er_event_id = aq_event_id q, er_event_type = aq_event q, er_packed = packed, er_replica_id = aq_replica_id q,
     er_request_id = aq_request_id q, er_created_at = iso_from_epoch_ms_blob (aq_now_ms q)\<rparr>"

definition fresh_key :: "append_request \<Rightarrow> idempotency_row" where
  "fresh_key q = \<lparr>ik_app_id = aq_app_id q, ik_tenant_id = aq_tenant_id q, ik_replica_id = aq_replica_id q,
     ik_request_id = aq_request_id q, ik_result_event_id = aq_event_id q,
     ik_created_at = iso_from_epoch_ms_blob (aq_now_ms q)\<rparr>"

lemma fresh_simps [simp]:
  "er_app_id (fresh_row q packed st) = aq_app_id q" "er_tenant_id (fresh_row q packed st) = aq_tenant_id q"
  "er_event_id (fresh_row q packed st) = aq_event_id q" "er_packed (fresh_row q packed st) = packed"
  "er_stream_type (fresh_row q packed st) = aq_stream q" "er_stream_id (fresh_row q packed st) = aq_stream_id q"
  "er_sequence (fresh_row q packed st) = next_sequence (aq_tenant_id q) (aq_stream q) (aq_stream_id q) st"
  "idempotency_key (fresh_key q) = (aq_app_id q, aq_tenant_id q, aq_replica_id q, aq_request_id q)"
  "ik_result_event_id (fresh_key q) = aq_event_id q"
  "ik_created_at (fresh_key q) = iso_from_epoch_ms_blob (aq_now_ms q)"
  by (simp_all add: fresh_row_def fresh_key_def idempotency_key_def)

lemma append_fresh_Inr:
  assumes "append_fresh env nonce q st = Inr (ev, st')"
  obtains p b packed where "pack_stream_event (se_schema env) (sv_event (fresh_event q st)) = Inr p"
    "wi_enc_event (se_wire env) p = Inr b" "seal_column env nonce (aq_tenant_id q) b = Inr packed"
    "ev = fresh_event q st"
    "st' = \<lparr>ss_events = ss_events st @ [fresh_row q packed st],
            ss_keys = tbl_upsert idempotency_key (fresh_key q) (ss_keys st)\<rparr>"
    "\<And>r. r \<in> set (ss_events st) \<Longrightarrow> er_tenant_id r = aq_tenant_id q \<Longrightarrow> er_event_id r \<noteq> aq_event_id q"
  using assms
  by (auto simp: append_fresh_def Let_def insert_event_def encode_packed_def map_err_Inr_iff list_ex_iff
      fresh_event_def fresh_row_def fresh_key_def split: if_splits)

lemma next_sequence_spec:
  "next_sequence t s i st = (let stream = {x \<in> set (ss_events st). er_tenant_id x = t \<and> er_stream_type x = s \<and> er_stream_id x = i}
     in if stream = {} then 1 else Max (er_sequence ` stream) + 1)"
  by (simp add: next_sequence_def Let_def filter_empty_conv) blast

lemma next_sequence_greater:
  assumes "r \<in> set (ss_events st)" "er_tenant_id r = t" "er_stream_type r = s" "er_stream_id r = i"
  shows "er_sequence r < next_sequence t s i st"
proof -
  let ?rows = "filter (\<lambda>r. er_tenant_id r = t \<and> er_stream_type r = s \<and> er_stream_id r = i) (ss_events st)"
  have "r \<in> set ?rows" using assms by simp
  then have m: "er_sequence r \<in> set (map er_sequence ?rows)" unfolding set_map by (rule imageI)
  then have "er_sequence r \<le> Max (set (map er_sequence ?rows))" by (intro Max_ge) simp_all
  moreover have "?rows \<noteq> []" using m by (metis empty_iff list.map_disc_iff list.set(1))
  ultimately show ?thesis by (simp add: next_sequence_def Let_def)
qed

lemma append_fresh_inv:
  assumes "env_ok env" "validate_schema lc (se_schema env) = Inr ()" "length nonce = NONCE_LEN"
    and "stream_inv env st" "append_fresh env nonce q st = Inr (ev, st')"
  shows "stream_inv env st'"
proof -
  from append_fresh_Inr [OF assms(5)] obtain p b packed where
    f: "pack_stream_event (se_schema env) (sv_event (fresh_event q st)) = Inr p"
    "wi_enc_event (se_wire env) p = Inr b" "seal_column env nonce (aq_tenant_id q) b = Inr packed"
    and st': "st' = \<lparr>ss_events = ss_events st @ [fresh_row q packed st],
            ss_keys = tbl_upsert idempotency_key (fresh_key q) (ss_keys st)\<rparr>"
    and uniq: "\<And>r. r \<in> set (ss_events st) \<Longrightarrow> er_tenant_id r = aq_tenant_id q \<Longrightarrow> er_event_id r \<noteq> aq_event_id q"
    by metis
  have w: "wi_dec_event (se_wire env) b = Inr p" "\<not> starts_with b ENVELOPE_MAGIC"
    using assms(1) f(2) by (auto simp: env_ok_def wire_inverse_def)
  have o: "open_column env (aq_tenant_id q) packed = Inr b"
    using open_seal_column [OF assms(1,3) w(2) f(3)] .
  have u: "\<exists>e. unpack_stream_event (se_schema env) p = Inr e \<and> names_row e (fresh_row q packed st)"
    using pack_unpack_stream_event [OF assms(2) f(1)] by (simp add: names_row_def fresh_event_def)
  have k: "event_key (fresh_row q packed st) \<notin> event_key ` set (ss_events st)"
    using next_sequence_greater [of _ st "aq_tenant_id q" "aq_stream q" "aq_stream_id q"]
    by (fastforce simp: event_key_def)
  have i: "(aq_tenant_id q, aq_event_id q) \<notin> (\<lambda>r. (er_tenant_id r, er_event_id r)) ` set (ss_events st)"
    using uniq by fastforce
  show ?thesis
    using assms(4) w(1) o u k i
    by (auto simp: stream_inv_def st' tbl_ok_def tbl_ok_upsert [unfolded tbl_ok_def])
qed

section \<open>The front-cache in front of the table\<close>

lemma bar_split:
  assumes "CHR ''|'' \<notin> set x" "CHR ''|'' \<notin> set y" "x @ ''|'' @ u = y @ ''|'' @ v"
  shows "x = y \<and> u = v"
  using assms
proof (induction x arbitrary: y)
  case Nil
  then show ?case by (cases y) auto
next
  case (Cons a x)
  then show ?case by (cases y) auto
qed

definition request_key :: "append_request \<Rightarrow> string \<times> string \<times> string \<times> string" where
  "request_key q = (aq_app_id q, aq_tenant_id q, aq_replica_id q, aq_request_id q)"

definition front_key :: "append_request \<Rightarrow> string" where
  "front_key q = cache_key (aq_app_id q) (aq_tenant_id q) (aq_replica_id q) (aq_request_id q)"

text \<open>Identifiers without the separator of the cache key.\<close>

definition unambiguous :: "append_request \<Rightarrow> bool" where
  "unambiguous q \<longleftrightarrow> CHR ''|'' \<notin> set (aq_app_id q) \<union> set (aq_tenant_id q) \<union> set (aq_replica_id q)"

lemma front_key_inj:
  assumes "unambiguous q" "unambiguous q'"
  shows "front_key q = front_key q' \<longleftrightarrow> request_key q = request_key q'"
proof
  assume "front_key q = front_key q'"
  then have e: "aq_app_id q @ ''|'' @ aq_tenant_id q @ ''|'' @ aq_replica_id q @ ''|'' @ aq_request_id q
    = aq_app_id q' @ ''|'' @ aq_tenant_id q' @ ''|'' @ aq_replica_id q' @ ''|'' @ aq_request_id q'"
    by (simp add: front_key_def cache_key_def)
  have n: "CHR ''|'' \<notin> set (aq_app_id q)" "CHR ''|'' \<notin> set (aq_app_id q')"
    "CHR ''|'' \<notin> set (aq_tenant_id q)" "CHR ''|'' \<notin> set (aq_tenant_id q')"
    "CHR ''|'' \<notin> set (aq_replica_id q)" "CHR ''|'' \<notin> set (aq_replica_id q')"
    using assms by (auto simp: unambiguous_def)
  from bar_split [OF n(1,2) e] have a: "aq_app_id q = aq_app_id q'"
    and e1: "aq_tenant_id q @ ''|'' @ aq_replica_id q @ ''|'' @ aq_request_id q
      = aq_tenant_id q' @ ''|'' @ aq_replica_id q' @ ''|'' @ aq_request_id q'" by simp_all
  from bar_split [OF n(3,4) e1] have b: "aq_tenant_id q = aq_tenant_id q'"
    and e2: "aq_replica_id q @ ''|'' @ aq_request_id q = aq_replica_id q' @ ''|'' @ aq_request_id q'" by simp_all
  from bar_split [OF n(5,6) e2] a b show "request_key q = request_key q'" by (simp add: request_key_def)
qed (simp add: request_key_def front_key_def)

definition front_inv :: "front_cache \<Rightarrow> bool" where
  "front_inv cache \<longleftrightarrow> (case cache of None \<Rightarrow> True | Some c \<Rightarrow> cache_inv c)"

definition front_lookup :: "front_cache \<Rightarrow> string \<Rightarrow> cached_idempotent_event option" where
  "front_lookup cache k = (case cache of None \<Rightarrow> None | Some c \<Rightarrow> map_of (cache_abs c) k)"

lemma front_get_spec:
  assumes "front_inv cache"
  shows "fst (front_get k cache) = front_lookup cache k"
    and "front_lookup (snd (front_get k cache)) = front_lookup cache"
    and "front_inv (snd (front_get k cache))"
proof (atomize (full), cases cache)
  case (Some c)
  have i: "cache_inv c" using assms Some by (simp add: front_inv_def)
  have "fst (cache_get k c) = map_of (cache_abs c) k"
    using idem.get_result [OF i, of k] by (simp add: rec_get_def split: option.splits)
  moreover have "map_of (cache_abs (snd (cache_get k c))) = map_of (cache_abs c)"
    using idem.get_abs [OF i, of k] by (simp add: rec_get_map_of idem.abs_distinct [OF i])
  ultimately show "fst (front_get k cache) = front_lookup cache k \<and>
    front_lookup (snd (front_get k cache)) = front_lookup cache \<and> front_inv (snd (front_get k cache))"
    using idem.invar_get [OF i, of k] Some
    by (simp add: front_lookup_def front_inv_def fun_eq_iff split_beta)
qed (simp_all add: front_lookup_def front_inv_def fun_eq_iff)

lemma front_set_spec:
  assumes "front_inv cache"
  shows "front_inv (front_set k v cache)"
    and "front_lookup (front_set k v cache) j = Some w \<Longrightarrow> if j = k then w = v else front_lookup cache j = Some w"
proof -
  show "front_inv (front_set k v cache)"
    using assms idem.invar_set by (cases cache) (auto simp: front_inv_def)
  show "if j = k then w = v else front_lookup cache j = Some w"
    if "front_lookup (front_set k v cache) j = Some w"
  proof (cases cache)
    case (Some c)
    have i: "cache_inv c" using assms Some by (simp add: front_inv_def)
    show ?thesis
      using that Some rec_set_map_of [OF idem.abs_distinct [OF i], of "ic_capacity c" k v j w] idem.set_abs [OF i, of k v]
      by (simp add: front_lookup_def)
  qed (use that in \<open>simp add: front_lookup_def\<close>)
qed

section \<open>Remembered requests\<close>

lemma find_append_Some: "find P xs = Some x \<Longrightarrow> find P (xs @ ys) = Some x"
  by (induction xs) (auto split: if_splits)

definition remembered ::
  "store_env \<Rightarrow> string \<times> string \<times> string \<times> string \<Rightarrow> stored_event \<Rightarrow> int \<Rightarrow> stream_state \<Rightarrow> bool" where
  "remembered env k ev t st \<longleftrightarrow> (\<exists>row. tbl_get idempotency_key k (ss_keys st) = Some row
     \<and> parse_iso_ms_opt (ik_created_at row) = Some t
     \<and> read_by_event_id env (fst k) (fst (snd k)) (ik_result_event_id row) st = Inr (Some ev))"

text \<open>What the cache holds for the request agrees with the table.\<close>

definition front_agrees :: "append_request \<Rightarrow> stored_event \<Rightarrow> int \<Rightarrow> front_cache \<Rightarrow> bool" where
  "front_agrees q ev t cache \<longleftrightarrow> front_inv cache \<and>
     front_lookup cache (front_key q) \<in> {None, Some \<lparr>ci_event = ev, ci_created_at_ms = Some t\<rparr>}"

lemma read_remembered:
  assumes "remembered env (request_key q) ev t st" "within_replay_window w (Some t) now"
  shows "read_idempotent_event env w (aq_app_id q) (aq_tenant_id q) (aq_replica_id q) (aq_request_id q) now st =
    Inr (Some \<lparr>ci_event = ev, ci_created_at_ms = Some t\<rparr>)"
  using assms by (auto simp: remembered_def read_idempotent_event_def request_key_def Let_def)

lemma retry_remembered:
  assumes "remembered env (request_key q) ev t st" "front_agrees q ev t cache"
    and "within_replay_window w (Some t) (aq_now_ms q)"
  shows "fst (append_stream env w nonce q st cache) = Inr \<lparr>ar_event = ev, ar_created = False\<rparr>
    \<and> fst (snd (append_stream env w nonce q st cache)) = st"
proof -
  have "fst (front_get (front_key q) cache) \<in> {None, Some \<lparr>ci_event = ev, ci_created_at_ms = Some t\<rparr>}"
    using assms(2) by (simp add: front_agrees_def front_get_spec(1))
  then show ?thesis using read_remembered [OF assms(1,3)] assms(3)
    by (auto simp: append_stream_def Let_def split_beta front_key_def [symmetric])
qed

lemma read_by_event_id_append:
  assumes "read_by_event_id env a t i st = Inr (Some ev)" "ss_events st' = ss_events st @ rows"
  shows "read_by_event_id env a t i st' = Inr (Some ev)"
  using assms find_append_Some by (fastforce simp: read_by_event_id_def split: option.splits)

lemma remembered_append_fresh:
  assumes "remembered env k ev t st" "append_fresh env nonce q st = Inr (ev', st')" "request_key q \<noteq> k"
  shows "remembered env k ev t st'"
proof -
  from append_fresh_Inr [OF assms(2)] obtain packed where
    s: "st' = \<lparr>ss_events = ss_events st @ [fresh_row q packed st],
            ss_keys = tbl_upsert idempotency_key (fresh_key q) (ss_keys st)\<rparr>" by metis
  then have "ss_events st' = ss_events st @ [fresh_row q packed st]" by simp
  moreover have "tbl_get idempotency_key k (ss_keys st') = tbl_get idempotency_key k (ss_keys st)"
    using assms(3) by (auto simp: s tbl_get_upsert request_key_def)
  ultimately show ?thesis
    using assms(1) read_by_event_id_append unfolding remembered_def by metis
qed

lemma append_stream_other:
  assumes "remembered env (request_key q) ev t st" "front_agrees q ev t cache"
    and "request_key q' \<noteq> request_key q" "unambiguous q" "unambiguous q'"
    and "append_stream env w nonce q' st cache = (r, st', cache')"
  shows "remembered env (request_key q) ev t st' \<and> front_agrees q ev t cache'"
proof -
  have k: "front_key q \<noteq> front_key q'" using assms(3-5) by (simp add: front_key_inj)
  have fi: "front_inv cache" using assms(2) by (simp add: front_agrees_def)
  obtain c1 where c1: "snd (front_get (front_key q') cache) = c1" by simp
  have a1: "front_agrees q ev t c1"
    using assms(2) front_get_spec [OF fi, of "front_key q'"] c1 by (simp add: front_agrees_def)
  have a2: "front_agrees q ev t (front_set (front_key q') v c1)" for v
    using a1 front_set_spec [of c1 "front_key q'" v] k
    by (cases "front_lookup (front_set (front_key q') v c1) (front_key q)") (auto simp: front_agrees_def)
  from assms(6) have "(st' = st \<or> (\<exists>ev'. append_fresh env nonce q' st = Inr (ev', st')))
    \<and> (cache' = c1 \<or> (\<exists>v. cache' = front_set (front_key q') v c1))"
    by (auto simp: append_stream_def Let_def split_beta front_key_def [symmetric] c1
        split: option.splits sum.splits if_splits)
  with a1 a2 assms(1) remembered_append_fresh [OF assms(1) _ assms(3)] show ?thesis by metis
qed

lemma find_append_None: "find P xs = None \<Longrightarrow> find P (xs @ ys) = find P ys"
  by (induction xs) (auto split: if_splits)

lemma remembered_fresh:
  assumes "env_ok env" "validate_schema lc (se_schema env) = Inr ()" "length nonce = NONCE_LEN"
    and "append_fresh env nonce q st = Inr (ev, st')" "iso_range (aq_now_ms q)"
    and "aq_payload q = VMap es" "string_keyed es"
  shows "remembered env (request_key q) ev (aq_now_ms q) st'"
proof -
  from append_fresh_Inr [OF assms(4)] obtain p b packed where
    f: "pack_stream_event (se_schema env) (sv_event (fresh_event q st)) = Inr p"
    "wi_enc_event (se_wire env) p = Inr b" "seal_column env nonce (aq_tenant_id q) b = Inr packed"
    and ev: "ev = fresh_event q st"
    and st': "st' = \<lparr>ss_events = ss_events st @ [fresh_row q packed st],
            ss_keys = tbl_upsert idempotency_key (fresh_key q) (ss_keys st)\<rparr>"
    and uniq: "\<And>r. r \<in> set (ss_events st) \<Longrightarrow> er_tenant_id r = aq_tenant_id q \<Longrightarrow> er_event_id r \<noteq> aq_event_id q"
    by metis
  have w: "wi_dec_event (se_wire env) b = Inr p" "\<not> starts_with b ENVELOPE_MAGIC"
    using assms(1) f(2) by (auto simp: env_ok_def wire_inverse_def)
  have "open_column env (aq_tenant_id q) packed = Inr b"
    using open_seal_column [OF assms(1,3) w(2) f(3)] .
  moreover have "unpack_stream_event (se_schema env) p = Inr (sv_event (fresh_event q st))"
    using pack_unpack_stream_event [OF assms(2) f(1)] assms(6,7)
    by (simp add: fresh_event_def value_entries_def assign_entries_string_keyed)
  ultimately have u: "unpack_row env (aq_tenant_id q) (aq_app_id q) (fresh_row q packed st) = Inr ev"
    using w(1) by (simp add: unpack_row_def decode_packed_def ev fresh_event_def)
  have "find (\<lambda>r. er_app_id r = aq_app_id q \<and> er_tenant_id r = aq_tenant_id q \<and> er_event_id r = aq_event_id q)
      (ss_events st) = None"
    using uniq by (auto simp: find_None_iff)
  then have "read_by_event_id env (aq_app_id q) (aq_tenant_id q) (aq_event_id q) st' = Inr (Some ev)"
    using u by (simp add: read_by_event_id_def st' find_append_None)
  then show ?thesis
    using parse_printed_now [OF assms(5)]
    by (simp add: remembered_def request_key_def st' tbl_get_upsert)
qed

text \<open>What a call that creates an event has done.\<close>

lemma append_stream_created:
  assumes "append_stream env w nonce q st cache = (Inr \<lparr>ar_event = ev, ar_created = True\<rparr>, st1, cache1)"
  shows "append_fresh env nonce q st = Inr (ev, st1)"
    "cache1 = front_set (front_key q) \<lparr>ci_event = ev,
        ci_created_at_ms = parse_iso_ms_opt (iso_from_epoch_ms_blob (aq_now_ms q))\<rparr> (snd (front_get (front_key q) cache))"
  using assms
  by (auto simp: append_stream_def Let_def split_beta front_key_def [symmetric]
      split: option.splits sum.splits if_splits)

text \<open>A sequence of appends by any clients.\<close>

definition run_append ::
  "store_env \<Rightarrow> int option \<Rightarrow> string \<times> append_request \<Rightarrow> stream_state \<times> front_cache \<Rightarrow> stream_state \<times> front_cache" where
  "run_append env w nq s = snd (append_stream env w (fst nq) (snd nq) (fst s) (snd s))"

lemma run_append_others:
  assumes "remembered env (request_key q) ev t (fst s)" "front_agrees q ev t (snd s)" "unambiguous q"
    and "\<forall>nq \<in> set later. request_key (snd nq) \<noteq> request_key q \<and> unambiguous (snd nq)"
  shows "remembered env (request_key q) ev t (fst (fold (run_append env w) later s))
    \<and> front_agrees q ev t (snd (fold (run_append env w) later s))"
  using assms
proof (induction later arbitrary: s)
  case (Cons nq later)
  have "remembered env (request_key q) ev t (fst (run_append env w nq s)) \<and> front_agrees q ev t (snd (run_append env w nq s))"
    using append_stream_other [OF Cons.prems(1,2), of "snd nq" w "fst nq"] Cons.prems(3,4)
    unfolding run_append_def by (metis list.set_intros(1) prod.collapse)
  with Cons show ?case by simp
qed simp

section \<open>Properties of the stream store\<close>

text \<open>C1: a request that created an event is answered with that very event, and the tables stay as
  they are, when the same app, tenant, replica and request id come again inside the replay window,
  whatever event, payload or event id the retry carries, whatever other requests were appended in
  between, and whether the answer comes from the front-cache, after an eviction from the table, or
  no cache is attached.  This needs that no app, tenant or replica id of the request and of the
  requests in between contains the separator bar of the front-cache key (\<open>unambiguous\<close>): with a bar
  two different requests may share a key, and the cache then answers with the other one's event.\<close>

theorem append_exactly_once:
  assumes "env_ok env" "validate_schema lc (se_schema env) = Inr ()" "length nonce = NONCE_LEN" "front_inv cache"
    and "append_stream env w nonce q st cache = (Inr \<lparr>ar_event = ev, ar_created = True\<rparr>, st1, cache1)"
    and "iso_range (aq_now_ms q)" "aq_payload q = VMap es" "string_keyed es"
    and "unambiguous q" "\<forall>nq \<in> set later. request_key (snd nq) \<noteq> request_key q \<and> unambiguous (snd nq)"
    and "request_key q' = request_key q" "within_replay_window w (Some (aq_now_ms q)) (aq_now_ms q')"
  shows "let (st2, cache2) = fold (run_append env w) later (st1, cache1) in
      fst (append_stream env w nonce' q' st2 cache2) = Inr \<lparr>ar_event = ev, ar_created = False\<rparr>
    \<and> fst (snd (append_stream env w nonce' q' st2 cache2)) = st2"
proof -
  note created = append_stream_created [OF assms(5)]
  have r: "remembered env (request_key q) ev (aq_now_ms q) st1"
    by (rule remembered_fresh [OF assms(1-3) created(1) assms(6-8)])
  have i1: "front_inv (snd (front_get (front_key q) cache))" using assms(4) by (rule front_get_spec(3))
  have "front_agrees q ev (aq_now_ms q) cache1"
  proof (cases "front_lookup cache1 (front_key q)")
    case (Some v)
    then show ?thesis
      using front_set_spec(1) [OF i1] front_set_spec(2) [OF i1, of "front_key q" _ "front_key q" v] parse_printed_now [OF assms(6)]
      by (simp add: front_agrees_def created(2))
  qed (use front_set_spec(1) [OF i1] in \<open>simp add: front_agrees_def created(2)\<close>)
  with r assms(9,10) have l: "remembered env (request_key q) ev (aq_now_ms q) (fst (fold (run_append env w) later (st1, cache1)))"
    "front_agrees q ev (aq_now_ms q) (snd (fold (run_append env w) later (st1, cache1)))"
    using run_append_others [of env q ev "aq_now_ms q" "(st1, cache1)" later w] by simp_all
  have "front_key q' = front_key q" using assms(11) by (simp add: front_key_def request_key_def)
  with l(2) have "front_agrees q' ev (aq_now_ms q) (snd (fold (run_append env w) later (st1, cache1)))"
    by (simp add: front_agrees_def)
  with retry_remembered [of env q' ev "aq_now_ms q"] l(1) assms(11,12) show ?thesis
    by (simp add: split_beta)
qed

text \<open>C5: an append that creates an event adds exactly one row at the end of the table, with the
  identifiers of the request and the next sequence number: one for the first event of a stream, and
  otherwise the largest sequence of the stream in any app plus one.  It keeps primary keys and event
  ids unique and all rows readable; every other outcome, errors included, leaves the tables alone.\<close>

theorem append_effect:
  assumes "env_ok env" "validate_schema lc (se_schema env) = Inr ()" "length nonce = NONCE_LEN" "stream_inv env st"
    and "append_stream env w nonce q st cache = (r, st1, cache1)"
  shows "stream_inv env st1 \<and>
    (if is_ok r \<and> ar_created (projr r)
     then (\<exists>row. ss_events st1 = ss_events st @ [row]
        \<and> er_app_id row = aq_app_id q \<and> er_tenant_id row = aq_tenant_id q \<and> er_stream_type row = aq_stream q
        \<and> er_stream_id row = aq_stream_id q \<and> er_event_id row = aq_event_id q
        \<and> er_sequence row = sei_sequence (sv_event (ar_event (projr r)))
        \<and> (let stream = {x \<in> set (ss_events st). er_tenant_id x = aq_tenant_id q \<and> er_stream_type x = aq_stream q
               \<and> er_stream_id x = aq_stream_id q}
           in er_sequence row = (if stream = {} then 1 else Max (er_sequence ` stream) + 1)
             \<and> (\<forall>x \<in> stream. er_sequence x < er_sequence row)))
     else st1 = st)"
proof (cases "is_ok r \<and> ar_created (projr r)")
  case True
  then obtain ev where r: "r = Inr \<lparr>ar_event = ev, ar_created = True\<rparr>"
    by (cases r) (auto, metis (full_types) append_result.surjective old.unit.exhaust)
  note f = append_stream_created(1) [OF assms(5) [unfolded r]]
  from append_fresh_Inr [OF f] obtain packed where "ev = fresh_event q st"
    "ss_events st1 = ss_events st @ [fresh_row q packed st]" by (metis stream_state.select_convs(1))
  with True append_fresh_inv [OF assms(1-4) f] next_sequence_greater [of _ st] next_sequence_spec show ?thesis
    by (auto simp: r fresh_event_def Let_def)
next
  case False
  then have "st1 = st"
    using assms(5)
    by (auto simp: append_stream_def Let_def split_beta split: option.splits sum.splits if_splits)
  with False assms(4) show ?thesis by simp
qed

section \<open>Reading\<close>

definition row_event :: "store_env \<Rightarrow> event_row \<Rightarrow> stored_event" where
  "row_event env r = projr (unpack_row env (er_tenant_id r) (er_app_id r) r)"

definition stream_events :: "store_env \<Rightarrow> string \<Rightarrow> string \<Rightarrow> string \<Rightarrow> string \<Rightarrow> stream_state \<Rightarrow> stored_event list" where
  "stream_events env t s i app st = map (row_event env) (order_by er_sequence (stream_rows app t s i st))"

abbreviation (input) seq_of :: "stored_event \<Rightarrow> int" where
  "seq_of e \<equiv> sei_sequence (sv_event e)"

lemma unpack_row_inv:
  assumes "stream_inv env st" "r \<in> set (ss_events st)"
  shows "unpack_row env (er_tenant_id r) (er_app_id r) r = Inr (row_event env r)" "names_row (sv_event (row_event env r)) r"
proof -
  from assms obtain b p e where "open_column env (er_tenant_id r) (er_packed r) = Inr b"
    "wi_dec_event (se_wire env) b = Inr p" "unpack_stream_event (se_schema env) p = Inr e" "names_row e r"
    by (auto simp: stream_inv_def)
  then show "unpack_row env (er_tenant_id r) (er_app_id r) r = Inr (row_event env r)" "names_row (sv_event (row_event env r)) r"
    by (simp_all add: row_event_def unpack_row_def decode_packed_def)
qed

lemma map_events_inv:
  assumes "stream_inv env st" "set rows \<subseteq> set (stream_rows app t s i st)"
  shows "map_events env rows t app = Inr (map (row_event env) rows)"
  unfolding map_events_def
proof (rule rmap_pure)
  fix r assume "r \<in> set rows"
  with assms(2) have "r \<in> set (ss_events st)" "er_tenant_id r = t" "er_app_id r = app" by (auto simp: stream_rows_def)
  with unpack_row_inv(1) [OF assms(1)] show "unpack_row env t app r = Inr (row_event env r)" by auto
qed

lemma stream_rows_distinct:
  assumes "stream_inv env st"
  shows "distinct (map er_sequence (stream_rows app t s i st))"
proof -
  have d: "distinct (map event_key (ss_events st))" using assms by (simp add: stream_inv_def tbl_ok_def)
  then have "inj_on er_sequence (set (stream_rows app t s i st))"
    by (auto simp: distinct_map inj_on_def event_key_def stream_rows_def)
  moreover have "distinct (stream_rows app t s i st)" using d by (simp add: distinct_map stream_rows_def)
  ultimately show ?thesis by (simp add: distinct_map)
qed

lemma row_event_sequence:
  "stream_inv env st \<Longrightarrow> r \<in> set (stream_rows app t s i st) \<Longrightarrow> seq_of (row_event env r) = er_sequence r"
  using unpack_row_inv(2) [of env st r] by (auto simp: names_row_def stream_rows_def)

lemma filter_stream_events:
  assumes "stream_inv env st"
  shows "map (row_event env) (order_by er_sequence (filter (\<lambda>r. P (er_sequence r)) (stream_rows app t s i st)))
    = filter (\<lambda>e. P (seq_of e)) (stream_events env t s i app st)"
proof -
  have "filter (\<lambda>r. P (er_sequence r)) (order_by er_sequence (stream_rows app t s i st))
    = filter (\<lambda>r. P (seq_of (row_event env r))) (order_by er_sequence (stream_rows app t s i st))"
    using row_event_sequence [OF assms] by (intro filter_cong) auto
  then show ?thesis
    by (simp add: stream_events_def filter_map o_def order_by_def filter_sort)
qed

lemma stream_events_sorted:
  assumes "stream_inv env st"
  shows "sorted_wrt (<) (map seq_of (stream_events env t s i app st))"
proof -
  let ?rows = "order_by er_sequence (stream_rows app t s i st)"
  have "map seq_of (stream_events env t s i app st) = map er_sequence ?rows"
    using row_event_sequence [OF assms] by (simp add: stream_events_def)
  moreover have "distinct (map er_sequence ?rows)"
    using stream_rows_distinct [OF assms, of app t s i] by (simp add: order_by_def distinct_map)
  ultimately show ?thesis using sorted_order_by [of er_sequence "stream_rows app t s i st"]
    by (simp add: strict_sorted_iff)
qed

lemma order_by_desc_distinct:
  assumes "distinct (map f xs)"
  shows "order_by_desc f xs = rev (order_by f xs)"
  using sort_key_perm [of "rev xs" xs f] assms by (simp add: order_by_desc_def order_by_def rev_map [symmetric])

lemma filter_after_nth:
  assumes "sorted_wrt (<) (map f xs)" "k < length xs"
  shows "filter (\<lambda>x. (f (xs ! k) :: int) < f x) xs = drop (Suc k) xs"
proof -
  have xs: "xs = take (Suc k) xs @ drop (Suc k) xs" by simp
  have lt: "f (xs ! a) < f (xs ! b)" if "a < b" "b < length xs" for a b
    using assms(1) that by (simp add: sorted_wrt_iff_nth_less)
  have "\<not> f (xs ! k) < f x" if x: "x \<in> set (take (Suc k) xs)" for x
  proof -
    from x obtain a where "a < Suc k" "a < length xs" "x = xs ! a" by (auto simp: in_set_conv_nth)
    then show ?thesis using lt [of a k] assms(2) by (cases "a = k") auto
  qed
  moreover have "f (xs ! k) < f x" if "x \<in> set (drop (Suc k) xs)" for x
    using that lt [of k] by (auto simp: in_set_conv_nth)
  ultimately have "filter (\<lambda>x. f (xs ! k) < f x) (take (Suc k) xs) = []"
    "filter (\<lambda>x. f (xs ! k) < f x) (drop (Suc k) xs) = drop (Suc k) xs"
    by (auto simp: filter_empty_conv intro!: filter_True)
  then show ?thesis by (metis append_Nil filter_append xs)
qed

text \<open>C14: cursor reads page through a stream without loss or duplication: the events of a stream are
  strictly ordered by sequence, an after-cursor read returns exactly those above the cursor (a page
  its first entries, at least one), reading on from any event of a page continues directly behind it,
  and a backward page holds the newest entries below the cursor, at most 500, oldest first.\<close>

theorem stream_paging:
  assumes "stream_inv env st"
  shows "let L = stream_events env t s i app st; F = filter (\<lambda>e. after < seq_of e) L;
             B = filter (\<lambda>e. seq_of e < (if before > 0 then before else 9007199254740991)) L in
      sorted_wrt (<) (map seq_of L)
    \<and> read_stream env t s i after None app st = Inr F
    \<and> read_stream env t s i after (Some l) app st = Inr (take (nat (max l 1)) F)
    \<and> (\<forall>k < length F. read_stream env t s i (seq_of (F ! k)) None app st = Inr (drop (Suc k) F))
    \<and> read_before env t s i before l app st = Inr (drop (length B - nat (min (max l 1) 500)) B)"
proof -
  let ?L = "stream_events env t s i app st"
  have r: "read_stream env t s i a lim app st = Inr (case lim of None \<Rightarrow> filter (\<lambda>e. a < seq_of e) ?L
      | Some l \<Rightarrow> take (nat (max l 1)) (filter (\<lambda>e. a < seq_of e) ?L))" for a lim
  proof (cases lim)
    case None
    then show ?thesis
      using map_events_inv [OF assms, of "order_by er_sequence (filter (\<lambda>r. a < er_sequence r) (stream_rows app t s i st))" app t s i]
        filter_stream_events [OF assms, of "\<lambda>x. a < x" app t s i]
      by (simp add: read_stream_def Let_def subset_iff)
  next
    case (Some l)
    let ?rows = "order_by er_sequence (filter (\<lambda>r. a < er_sequence r) (stream_rows app t s i st))"
    have "set (take (nat (max l 1)) ?rows) \<subseteq> set (stream_rows app t s i st)"
      using set_take_subset [of "nat (max l 1)" ?rows] by auto
    from map_events_inv [OF assms this] Some filter_stream_events [OF assms, of "\<lambda>x. a < x" app t s i]
    show ?thesis by (simp add: read_stream_def Let_def take_map [symmetric])
  qed
  have s: "sorted_wrt (<) (map seq_of ?L)" by (rule stream_events_sorted [OF assms])
  let ?F = "filter (\<lambda>e. after < seq_of e) ?L"
  have "filter (\<lambda>e. seq_of (?F ! k) < seq_of e) ?L = drop (Suc k) ?F" if k: "k < length ?F" for k
  proof -
    have "after < seq_of (?F ! k)" using nth_mem [OF k] by simp
    then have "filter (\<lambda>e. seq_of (?F ! k) < seq_of e) ?L = filter (\<lambda>e. seq_of (?F ! k) < seq_of e) ?F"
      by (auto simp: filter_filter intro!: filter_cong)
    also have "sorted_wrt (<) (map seq_of ?F)"
      using s by (simp add: sorted_wrt_map sorted_wrt_filter)
    then have "filter (\<lambda>e. seq_of (?F ! k) < seq_of e) ?F = drop (Suc k) ?F" using k by (rule filter_after_nth)
    finally show ?thesis .
  qed
  moreover have "read_before env t s i before l app st =
      Inr (drop (length B - nat (min (max l 1) 500)) B)"
    if B: "B = filter (\<lambda>e. seq_of e < (if before > 0 then before else 9007199254740991)) ?L" for B
  proof -
    define cut where "cut = (if before > 0 then before else 9007199254740991)"
    define n where "n = nat (min (max l 1) 500)"
    let ?rows = "filter (\<lambda>r. er_sequence r < cut) (stream_rows app t s i st)"
    have d: "distinct (map er_sequence ?rows)" using stream_rows_distinct [OF assms] by (simp add: distinct_map_filter)
    have sub: "set (take n (order_by_desc er_sequence ?rows)) \<subseteq> set (stream_rows app t s i st)"
      using set_take_subset [of n "order_by_desc er_sequence ?rows"] by auto
    have "map (row_event env) (order_by er_sequence ?rows) = B"
      using filter_stream_events [OF assms, of "\<lambda>x. x < cut" app t s i] by (simp add: B cut_def)
    then have "rev (map (row_event env) (take n (order_by_desc er_sequence ?rows))) = drop (length B - n) B"
      by (auto simp: order_by_desc_distinct [OF d] rev_map rev_take drop_map)
    with map_events_inv [OF assms sub] show ?thesis
      by (simp add: read_before_def Let_def cut_def [symmetric] n_def [symmetric])
  qed
  ultimately show ?thesis using r s by (simp add: Let_def)
qed

section \<open>Redaction\<close>

text \<open>A redacted row: all columns but the packed event and the event type are kept, and the event
  reads with an empty payload.\<close>

definition redacted :: "store_env \<Rightarrow> event_row \<Rightarrow> event_row \<Rightarrow> bool" where
  "redacted env r r' \<longleftrightarrow> r' = r\<lparr>er_packed := er_packed r', er_event_type := REDACTED_EVENT_TYPE_MARKER\<rparr>
     \<and> sei_payload (sv_event (row_event env r')) = VMap []"

lemma redacted_trans: "redacted env r r1 \<Longrightarrow> redacted env r1 r' \<Longrightarrow> redacted env r r'"
  by (cases r; cases r1; cases r') (auto simp: redacted_def)

lemma redacted_at_address: "redacted env r r' \<Longrightarrow> at_address t s i n app r' \<longleftrightarrow> at_address t s i n app r"
  by (cases r; cases r') (auto simp: redacted_def at_address_def)

lemma unpack_tombstone:
  assumes "unpack_stream_event s p = Inr e"
  shows "unpack_stream_event s (p\<lparr>pse_fields := []\<rparr>) = Inr (e\<lparr>sei_payload := VMap []\<rparr>)"
  using assms by (auto simp: unpack_stream_event_def unpack_fields_def)

lemma redact_event_rows:
  assumes "env_ok env" "length nonce = NONCE_LEN" "stream_inv env st"
    and "redact_event env nonce t s i n app st = Inr (found, st')"
  shows "list_all2 (\<lambda>r r'. if at_address t s i n app r then redacted env r r' else r' = r) (ss_events st) (ss_events st')
    \<and> ss_keys st' = ss_keys st \<and> stream_inv env st'
    \<and> (found \<longleftrightarrow> (\<exists>r \<in> set (ss_events st). at_address t s i n app r))"
proof (cases "find (at_address t s i n app) (ss_events st)")
  case None
  then have "\<forall>r \<in> set (ss_events st). \<not> at_address t s i n app r" by (auto simp: find_None_iff)
  with None assms(3,4) show ?thesis by (auto simp: redact_event_def list_all2_same)
next
  case (Some row)
  from find_Some_set [OF Some] have row: "row \<in> set (ss_events st)" "at_address t s i n app row" by simp_all
  then obtain b p e where read: "open_column env t (er_packed row) = Inr b" "wi_dec_event (se_wire env) b = Inr p"
    "unpack_stream_event (se_schema env) p = Inr e" "names_row e row"
    using assms(3) by (fastforce simp: stream_inv_def at_address_def)
  obtain tomb packed where tomb: "wi_enc_event (se_wire env) (p\<lparr>pse_fields := []\<rparr>) = Inr tomb"
    "seal_column env nonce t tomb = Inr packed"
    and st': "st' = st\<lparr>ss_events := tbl_update (at_address t s i n app)
        (\<lambda>r. r\<lparr>er_packed := packed, er_event_type := REDACTED_EVENT_TYPE_MARKER\<rparr>) (ss_events st)\<rparr>"
    and found: "found = list_ex (at_address t s i n app) (ss_events st)"
    using assms(4) Some read by (auto simp: redact_event_def decode_packed_def encode_packed_def map_err_Inr_iff)
  have w: "wi_dec_event (se_wire env) tomb = Inr (p\<lparr>pse_fields := []\<rparr>)" "\<not> starts_with tomb ENVELOPE_MAGIC"
    using assms(1) tomb(1) by (auto simp: env_ok_def wire_inverse_def)
  have o: "open_column env t packed = Inr tomb" using open_seal_column [OF assms(1,2) w(2) tomb(2)] .
  let ?f = "\<lambda>r. r\<lparr>er_packed := packed, er_event_type := REDACTED_EVENT_TYPE_MARKER\<rparr>"
  have same: "r = row" if "r \<in> set (ss_events st)" "at_address t s i n app r" for r
  proof -
    have "event_key r = event_key row" using that row by (simp add: event_key_def at_address_def)
    then show ?thesis using that(1) row(1) assms(3) by (auto simp: stream_inv_def tbl_ok_def distinct_map inj_on_def)
  qed
  have red: "redacted env row (?f row)"
    using row(2) o w(1) unpack_tombstone [OF read(3)]
    by (simp add: redacted_def row_event_def unpack_row_def decode_packed_def at_address_def)
  have rows: "ss_events st' = map (\<lambda>r. if at_address t s i n app r then ?f r else r) (ss_events st)"
    by (simp add: st' tbl_update_def)
  have l: "list_all2 (\<lambda>r r'. if at_address t s i n app r then redacted env r r' else r' = r) (ss_events st) (ss_events st')"
    using red same by (auto simp: rows list_all2_map2 list_all2_same)
  have k: "map event_key (ss_events st') = map event_key (ss_events st)"
    "map (\<lambda>r. (er_tenant_id r, er_event_id r)) (ss_events st') = map (\<lambda>r. (er_tenant_id r, er_event_id r)) (ss_events st)"
    by (auto simp: rows event_key_def)
  have "\<exists>b p e. open_column env (er_tenant_id r') (er_packed r') = Inr b
      \<and> wi_dec_event (se_wire env) b = Inr p \<and> unpack_stream_event (se_schema env) p = Inr e \<and> names_row e r'"
    if r': "r' \<in> set (ss_events st')" for r'
  proof -
    from r' obtain r where r: "r \<in> set (ss_events st)" "r' = (if at_address t s i n app r then ?f r else r)"
      by (auto simp: rows)
    show ?thesis
    proof (cases "at_address t s i n app r")
      case True
      then show ?thesis using same [OF r(1)] r(2) o w(1) unpack_tombstone [OF read(3)] read(4) row(2)
        by (auto simp: names_row_def at_address_def)
    next
      case False
      then show ?thesis using r assms(3) by (auto simp: stream_inv_def)
    qed
  qed
  then have "stream_inv env st'" using assms(3) k by (simp add: stream_inv_def tbl_ok_def st')
  with l show ?thesis by (simp add: st' found list_ex_iff)
qed

lemma redact_loop_rows:
  assumes "env_ok env" "\<forall>k. length (nonces k) = NONCE_LEN" "stream_inv env st"
    and "redact_loop env nonces t s app f x es n st = (Inr m, st')"
  shows "list_all2 (\<lambda>r r'. if \<exists>e \<in> set es. event_field_eq (sei_payload (sv_event e)) f x
        \<and> at_address t s (sei_stream_id (sv_event e)) (seq_of e) app r then redacted env r r' else r' = r)
      (ss_events st) (ss_events st') \<and> ss_keys st' = ss_keys st \<and> stream_inv env st'"
  using assms(3,4)
proof (induction es arbitrary: n st)
  case Nil
  then show ?case by (simp add: list_all2_same)
next
  case (Cons e es)
  show ?case
  proof (cases "event_field_eq (sei_payload (sv_event e)) f x")
    case False
    with Cons show ?thesis by simp
  next
    case True
    let ?at = "at_address t s (sei_stream_id (sv_event e)) (seq_of e) app"
    from Cons.prems(2) True obtain found st1 where
      step: "redact_event env (nonces (length es)) t s (sei_stream_id (sv_event e)) (seq_of e) app st = Inr (found, st1)"
      and rest: "redact_loop env nonces t s app f x es (if found then n + 1 else n) st1 = (Inr m, st')"
      by (auto split: sum.splits prod.splits)
    note a = redact_event_rows [OF assms(1) _ Cons.prems(1) step] and nn = assms(2)
    have l1: "list_all2 (\<lambda>r r'. if ?at r then redacted env r r' else r' = r) (ss_events st) (ss_events st1)"
      "ss_keys st1 = ss_keys st" "stream_inv env st1" using a nn by simp_all
    note l2 = Cons.IH [OF l1(3) rest]
    have "list_all2 (\<lambda>r r'. if \<exists>e' \<in> set (e # es). event_field_eq (sei_payload (sv_event e')) f x
        \<and> at_address t s (sei_stream_id (sv_event e')) (seq_of e') app r then redacted env r r' else r' = r)
      (ss_events st) (ss_events st')"
    proof (rule list_all2_trans [OF _ l1(1)])
      show "list_all2 (\<lambda>r r'. if \<exists>e \<in> set es. event_field_eq (sei_payload (sv_event e)) f x
        \<and> at_address t s (sei_stream_id (sv_event e)) (seq_of e) app r then redacted env r r' else r' = r)
      (ss_events st1) (ss_events st')" using l2 by simp
    next
      fix r r1 r'
      assume h1: "if ?at r then redacted env r r1 else r1 = r"
        and h2: "if \<exists>e \<in> set es. event_field_eq (sei_payload (sv_event e)) f x
          \<and> at_address t s (sei_stream_id (sv_event e)) (seq_of e) app r1 then redacted env r1 r' else r' = r1"
      have "at_address t s i n app r1 = at_address t s i n app r" for i n
        using h1 redacted_at_address by (auto split: if_splits)
      with h1 h2 True redacted_trans show "if \<exists>e' \<in> set (e # es). event_field_eq (sei_payload (sv_event e')) f x
        \<and> at_address t s (sei_stream_id (sv_event e')) (seq_of e') app r then redacted env r r' else r' = r"
        by (auto split: if_splits)
    qed
    with l1 l2 show ?thesis by simp
  qed
qed

definition in_stream_scope :: "string \<Rightarrow> string \<Rightarrow> string \<Rightarrow> event_row \<Rightarrow> bool" where
  "in_stream_scope t s app r \<longleftrightarrow> er_app_id r = app \<and> er_tenant_id r = t \<and> er_stream_type r = s"

lemma list_all_by_stream_type_inv:
  assumes "stream_inv env st"
  obtains R where "list_all_by_stream_type env t s app st = Inr (map (row_event env) R)"
    "set R = {r \<in> set (ss_events st). in_stream_scope t s app r}"
proof -
  let ?R = "order_by er_stream_id (order_by er_sequence
       (filter (\<lambda>r. er_app_id r = app \<and> er_tenant_id r = t \<and> er_stream_type r = s) (ss_events st)))"
  have s: "set ?R = {r \<in> set (ss_events st). in_stream_scope t s app r}" by (auto simp: in_stream_scope_def)
  have "map_events env ?R t app = Inr (map (row_event env) ?R)"
    unfolding map_events_def
  proof (rule rmap_pure)
    fix r assume "r \<in> set ?R"
    then have "r \<in> set (ss_events st)" "er_tenant_id r = t" "er_app_id r = app" by auto
    with unpack_row_inv(1) [OF assms] show "unpack_row env t app r = Inr (row_event env r)" by auto
  qed
  with s that show ?thesis by (simp add: list_all_by_stream_type_def)
qed

text \<open>C13: when redaction by field succeeds, the events of the app, tenant and stream type that carry
  the field read with an empty payload afterwards and keep sequence, event id, key and order, every
  other row is untouched, and no event that matches is left; so cursors of other readers stay valid.\<close>

theorem redact_by_field_erases:
  assumes "env_ok env" "\<forall>k. length (nonces k) = NONCE_LEN" "stream_inv env st"
    and "redact_by_field env nonces t s app f x st = (Inr n, st')"
  shows "list_all2 (\<lambda>r r'. if in_stream_scope t s app r
          \<and> event_field_eq (sei_payload (sv_event (row_event env r))) f x
        then redacted env r r' \<and> names_row (sv_event (row_event env r')) r else r' = r)
      (ss_events st) (ss_events st')
    \<and> (\<forall>r \<in> set (ss_events st'). in_stream_scope t s app r \<longrightarrow>
         \<not> event_field_eq (sei_payload (sv_event (row_event env r))) f x)
    \<and> ss_keys st' = ss_keys st \<and> stream_inv env st'"
proof -
  let ?m = "\<lambda>r. event_field_eq (sei_payload (sv_event (row_event env r))) f x"
  obtain R where R: "list_all_by_stream_type env t s app st = Inr (map (row_event env) R)"
    "set R = {r \<in> set (ss_events st). in_stream_scope t s app r}"
    by (rule list_all_by_stream_type_inv [OF assms(3)])
  note loop = redact_loop_rows [OF assms(1-3), of t s app f x "map (row_event env) R" 0 n st']
  have inv': "stream_inv env st'" using loop assms(4) R(1) by (simp add: redact_by_field_def)
  have hit: "(\<exists>e \<in> set (map (row_event env) R). event_field_eq (sei_payload (sv_event e)) f x
        \<and> at_address t s (sei_stream_id (sv_event e)) (seq_of e) app r) \<longleftrightarrow> in_stream_scope t s app r \<and> ?m r"
    if r: "r \<in> set (ss_events st)" for r
  proof -
    have "q = r" if "q \<in> set R" "at_address t s (sei_stream_id (sv_event (row_event env q))) (seq_of (row_event env q)) app r" for q
    proof -
      have "event_key q = event_key r"
        using that R(2) unpack_row_inv(2) [OF assms(3), of q]
        by (simp add: event_key_def names_row_def at_address_def in_stream_scope_def)
      then show ?thesis using that(1) r R(2) assms(3) by (auto simp: stream_inv_def tbl_ok_def distinct_map inj_on_def)
    qed
    moreover have "at_address t s (sei_stream_id (sv_event (row_event env r))) (seq_of (row_event env r)) app r"
      if "in_stream_scope t s app r"
      using that unpack_row_inv(2) [OF assms(3) r] by (simp add: names_row_def at_address_def in_stream_scope_def)
    ultimately show ?thesis using r R(2) by (auto simp: at_address_def in_stream_scope_def)
  qed
  have l: "list_all2 (\<lambda>r r'. if in_stream_scope t s app r \<and> ?m r
        then redacted env r r' \<and> names_row (sv_event (row_event env r')) r else r' = r) (ss_events st) (ss_events st')"
  proof (rule list.rel_mono_strong)
    show "list_all2 (\<lambda>r r'. if \<exists>e \<in> set (map (row_event env) R). event_field_eq (sei_payload (sv_event e)) f x
        \<and> at_address t s (sei_stream_id (sv_event e)) (seq_of e) app r then redacted env r r' else r' = r)
      (ss_events st) (ss_events st')" using loop assms(4) R(1) by (simp add: redact_by_field_def)
  next
    fix r r'
    assume "r \<in> set (ss_events st)" "r' \<in> set (ss_events st')"
      "if \<exists>e \<in> set (map (row_event env) R). event_field_eq (sei_payload (sv_event e)) f x
        \<and> at_address t s (sei_stream_id (sv_event e)) (seq_of e) app r then redacted env r r' else r' = r"
    then have "if in_stream_scope t s app r \<and> ?m r then redacted env r r' else r' = r"
      "names_row (sv_event (row_event env r')) r'"
      using hit unpack_row_inv(2) [OF inv'] by simp_all
    moreover have "names_row e r' \<longleftrightarrow> names_row e r" if "redacted env r r'" for e
      using that by (cases r; cases r') (auto simp: redacted_def names_row_def)
    ultimately show "if in_stream_scope t s app r \<and> ?m r
        then redacted env r r' \<and> names_row (sv_event (row_event env r')) r else r' = r" by (simp split: if_splits)
  qed
  have "\<not> ?m r'" if "r' \<in> set (ss_events st')" "in_stream_scope t s app r'" for r'
  proof -
    from that(1) obtain r where "if in_stream_scope t s app r \<and> ?m r
        then redacted env r r' \<and> names_row (sv_event (row_event env r')) r else r' = r"
      using l by (auto simp: list_all2_conv_all_nth in_set_conv_nth)
    then show ?thesis using that(2) by (auto simp: redacted_def event_field_eq_def split: if_splits)
  qed
  with l inv' loop assms(4) R(1) show ?thesis by (simp add: redact_by_field_def)
qed

section \<open>Limits of the guarantees\<close>

text \<open>The cache key joins the four identifiers with a bar, so two different requests can share it:
  the second one is then answered with the first one's event, although the table would have told
  them apart, and its own event is never stored.\<close>

lemma ambiguous_cache_key_drops_event:
  assumes "front_inv cache" "front_lookup cache (front_key q) = Some c"
    and "front_key q' = front_key q" "within_replay_window w (ci_created_at_ms c) (aq_now_ms q')"
  shows "fst (append_stream env w nonce q' st cache) = Inr \<lparr>ar_event = ci_event c, ar_created = False\<rparr>
    \<and> fst (snd (append_stream env w nonce q' st cache)) = st"
  using assms front_get_spec(1) [OF assms(1), of "front_key q"]
  by (auto simp: append_stream_def Let_def split_beta front_key_def [symmetric])

lemma cache_keys_collide:
  "front_key (q\<lparr>aq_replica_id := ''a'', aq_request_id := ''b|c''\<rparr>)
   = front_key (q\<lparr>aq_replica_id := ''a|b'', aq_request_id := ''c''\<rparr>)"
  by (simp add: front_key_def cache_key_def)

text \<open>Redaction rewrites the table and not the front-cache: a retry inside the replay window still
  gets the payload that was erased.\<close>

lemma redaction_leaves_cached_payload:
  assumes "redact_event env nonce t s i n app st = Inr (found, st')"
    and "front_inv cache" "front_lookup cache (front_key q) = Some c"
    and "within_replay_window w (ci_created_at_ms c) (aq_now_ms q)"
  shows "fst (append_stream env w nonce' q st' cache) = Inr \<lparr>ar_event = ci_event c, ar_created = False\<rparr>"
  using ambiguous_cache_key_drops_event [OF assms(2,3) refl assms(4)] by simp

text \<open>Sequences continue after the largest stored one, so a stream whose rows were all pruned starts
  over at 1, below the cursors handed out before.\<close>

lemma pruned_stream_restarts:
  assumes "\<forall>r \<in> set (ss_events st). er_stream_type r \<noteq> s"
  shows "next_sequence t s i st = 1"
proof -
  have "filter (\<lambda>r. er_tenant_id r = t \<and> er_stream_type r = s \<and> er_stream_id r = i) (ss_events st) = []"
    using assms by (auto simp: filter_empty_conv)
  then show ?thesis by (simp add: next_sequence_def Let_def)
qed

lemma prune_to_zero_restarts:
  assumes "rp_max_events policy = Some 0" "rp_max_age_ms policy = None" "rp_tenant_id policy = None" "rp_app_id policy = None"
  shows "next_sequence t s i (snd (prune_retention [(s, policy)] now st)) = 1"
proof -
  have "er_sequence r \<le> stream_max r (ss_events st)" if "r \<in> set (ss_events st)" for r
    unfolding stream_max_def using that by (intro Max_ge) auto
  then have "\<forall>r \<in> set (prune_by_count s policy (ss_events st)). er_stream_type r \<noteq> s"
    using assms by (auto simp: prune_by_count_def in_policy_scope_def)
  then show ?thesis
    using assms by (intro pruned_stream_restarts) (simp add: prune_retention_def prune_by_age_def Let_def)
qed

section \<open>A concrete stream\<close>

definition sample_request :: append_request where
  "sample_request = \<lparr>aq_tenant_id = ''t'', aq_stream = ''Room'', aq_stream_id = ''r1'', aq_replica_id = ''ios'',
     aq_request_id = ''1'', aq_event = ''Message'', aq_payload = VMap [(VString ''text'', VString ''hi'')],
     aq_app_id = ''app'', aq_event_id = ''e1'', aq_now_ms = 1700000000000\<rparr>"

definition empty_stream_state :: stream_state where
  "empty_stream_state = \<lparr>ss_events = [], ss_keys = []\<rparr>"

definition sample_append ::
  "(store_error, append_result) result \<times> stream_state \<times> front_cache" where
  "sample_append = append_stream sample_env (Some 60000) sample_nonce sample_request empty_stream_state None"

lemma sample_append_created:
  obtains ev st where "sample_append = (Inr \<lparr>ar_event = ev, ar_created = True\<rparr>, st, None)"
proof -
  have "is_ok (fst sample_append)" "ar_created (projr (fst sample_append))" "snd (snd sample_append) = None" by code_simp+
  then obtain r st where "sample_append = (Inr r, st, None)" "ar_created r"
    by (cases "fst sample_append") (auto simp: prod_eq_iff)
  then show ?thesis using that by (cases r) auto
qed

lemma sample_append_inv: "stream_inv sample_env (fst (snd sample_append))"
proof -
  have "stream_inv sample_env empty_stream_state" by (simp add: stream_inv_def empty_stream_state_def tbl_ok_def)
  moreover obtain ev st where s: "sample_append = (Inr \<lparr>ar_event = ev, ar_created = True\<rparr>, st, None)"
    by (rule sample_append_created)
  ultimately show ?thesis
    using append_fresh_inv [OF sample_env_ok, of sample_nonce empty_stream_state sample_request ev st]
      append_stream_created(1) [OF s [unfolded sample_append_def]]
    by (simp add: NONCE_LEN_def s)
qed

theorem append_exactly_once_witness:
  "\<exists>ev st. sample_append = (Inr \<lparr>ar_event = ev, ar_created = True\<rparr>, st, None)
     \<and> fst (append_stream sample_env (Some 60000) sample_nonce
         (sample_request\<lparr>aq_event_id := ''e2'', aq_now_ms := 1700000060000\<rparr>) st None)
       = Inr \<lparr>ar_event = ev, ar_created = False\<rparr>"
proof -
  obtain ev st where s: "sample_append = (Inr \<lparr>ar_event = ev, ar_created = True\<rparr>, st, None)"
    by (rule sample_append_created)
  from append_exactly_once [OF sample_env_ok _ _ s [unfolded sample_append_def], of "[(VString ''text'', VString ''hi'')]"
      "[]" "sample_request\<lparr>aq_event_id := ''e2'', aq_now_ms := 1700000060000\<rparr>" sample_nonce] s
  show ?thesis
    by (intro exI [of _ ev] exI [of _ st]) (simp add: NONCE_LEN_def front_inv_def sample_request_def iso_range_def string_keyed_def unambiguous_def
        request_key_def within_replay_window_def)
qed

theorem append_effect_witness:
  "stream_inv sample_env empty_stream_state \<and> stream_inv sample_env (fst (snd sample_append))"
proof -
  have e: "stream_inv sample_env empty_stream_state" by (simp add: stream_inv_def empty_stream_state_def tbl_ok_def)
  have "append_stream sample_env (Some 60000) sample_nonce sample_request empty_stream_state None =
      (fst sample_append, fst (snd sample_append), snd (snd sample_append))" by (simp add: sample_append_def)
  from append_effect [OF sample_env_ok _ e this] e show ?thesis by (simp add: NONCE_LEN_def)
qed

theorem stream_paging_witness:
  "read_stream sample_env ''t'' ''Room'' ''r1'' 0 None ''app'' (fst (snd sample_append))
   = Inr (filter (\<lambda>e. 0 < sei_sequence (sv_event e))
       (stream_events sample_env ''t'' ''Room'' ''r1'' ''app'' (fst (snd sample_append))))"
  using stream_paging [OF sample_append_inv, of "''t''" "''Room''" "''r1''" "''app''" 0 1 1] by (simp add: Let_def)

theorem redact_by_field_erases_witness:
  "\<exists>st'. redact_by_field sample_env (\<lambda>_. sample_nonce) ''t'' ''Room'' ''app'' ''text'' ''hi'' (fst (snd sample_append))
      = (Inr 1, st') \<and> (\<forall>r \<in> set (ss_events st'). in_stream_scope ''t'' ''Room'' ''app'' r \<longrightarrow>
         \<not> event_field_eq (sei_payload (sv_event (row_event sample_env r))) ''text'' ''hi'')"
proof -
  have "fst (redact_by_field sample_env (\<lambda>_. sample_nonce) ''t'' ''Room'' ''app'' ''text'' ''hi'' (fst (snd sample_append))) = Inr 1"
    by code_simp
  then obtain st' where r: "redact_by_field sample_env (\<lambda>_. sample_nonce) ''t'' ''Room'' ''app'' ''text'' ''hi'' (fst (snd sample_append))
      = (Inr 1, st')" by (metis prod.collapse)
  from redact_by_field_erases [OF sample_env_ok(1) _ sample_append_inv r] r show ?thesis by (simp add: NONCE_LEN_def)
qed

end
