(* ===== verification/FrickJobs.thy ===== *)
theory FrickJobs
  imports FrickObjectStore FrickIso
begin

text \<open>
  The background job store (\<open>frick-store/src/stores/job.rs\<close>): enqueueing with idempotency keys,
  claiming, completing, failing with exponential backoff, and the introspection queries.

  A row of the \<open>jobs\<close> table keeps its columns as the database does (the status is its text, nullable
  columns are options); \<open>map_row\<close> turns it into the \<open>job_row\<close> callers see.  The table carries the next
  value of its autoincrement id.  The rows a claim returns are listed in table order.  SQL \<open>LIMIT\<close>
  follows SQLite, where a negative limit means none.
\<close>

section \<open>Types\<close>

datatype job_status = Ready | Running | Completed | DeadLettered

fun job_status_as_str :: "job_status \<Rightarrow> string" where
  "job_status_as_str Ready = ''ready''"
| "job_status_as_str Running = ''running''"
| "job_status_as_str Completed = ''completed''"
| "job_status_as_str DeadLettered = ''dead_lettered''"

definition parse_job_status :: "string \<Rightarrow> job_status option" where
  "parse_job_status v =
    (if v = ''ready'' then Some Ready else if v = ''running'' then Some Running
     else if v = ''completed'' then Some Completed else if v = ''dead_lettered'' then Some DeadLettered
     else None)"

record job_row =
  jr_id :: int
  jr_tenant_id :: string
  jr_app_id :: string
  jr_job_type :: string
  jr_payload :: "value"
  jr_status :: job_status
  jr_attempt_count :: int
  jr_max_attempts :: int
  jr_available_at :: string
  jr_created_at :: string
  jr_claimed_at :: "string option"
  jr_claimed_by :: "string option"
  jr_completed_at :: "string option"
  jr_failed_at :: "string option"
  jr_dead_lettered_at :: "string option"
  jr_idempotency_key :: "string option"
  jr_last_error_code :: "string option"
  jr_last_error_message :: "string option"

record stored_job =
  sj_id :: int
  sj_name :: string
  sj_value :: "value"

record enqueue_input =
  en_tenant_id :: string
  en_app_id :: "string option"
  en_job_type :: string
  en_payload :: "value"
  en_idempotency_key :: "string option"
  en_available_at :: "string option"
  en_max_attempts :: "int option"

record list_jobs_filter =
  lf_tenant_id :: "string option"
  lf_app_id :: "string option"
  lf_status :: "job_status option"
  lf_job_type :: "string option"
  lf_limit :: "int option"

record job_counts =
  jc_ready :: int
  jc_running :: int
  jc_completed :: int
  jc_dead_lettered :: int
  jc_failed :: int

record job_db_row =
  jd_row_id :: int
  jd_tenant_id :: string
  jd_app_id :: string
  jd_job_type :: string
  jd_packed :: string
  jd_status :: string
  jd_attempt_count :: int
  jd_max_attempts :: int
  jd_available_at :: string
  jd_created_at :: string
  jd_claimed_at :: "string option"
  jd_claimed_by :: "string option"
  jd_completed_at :: "string option"
  jd_failed_at :: "string option"
  jd_dead_lettered_at :: "string option"
  jd_idempotency_key :: "string option"
  jd_last_error_code :: "string option"
  jd_last_error_message :: "string option"

record jobs_state =
  js_rows :: "job_db_row list"
  js_next_id :: int

definition DEFAULT_APP_ID :: string where "DEFAULT_APP_ID = ''_default''"
definition BACKOFF_CAP_MS :: int where "BACKOFF_CAP_MS = 5 * 60 * 1000"
definition BACKOFF_BASE_MS :: int where "BACKOFF_BASE_MS = 60 * 1000"

definition job_backoff_ms :: "int \<Rightarrow> int" where
  "job_backoff_ms attempt_count =
    (let safe = max attempt_count 1;
         exponent = min (safe - 1) 32;
         raw = min (BACKOFF_BASE_MS * 2 ^ nat exponent) (2 ^ 63 - 1)
     in min raw BACKOFF_CAP_MS)"

definition div_euclid :: "int \<Rightarrow> int \<Rightarrow> int" where
  "div_euclid a b = (if b > 0 then a div b else - (a div (- b)))"

definition recurring_window_start :: "int \<Rightarrow> int \<Rightarrow> int" where
  "recurring_window_start now_ms interval_ms = div_euclid now_ms interval_ms * interval_ms"

definition recurring_idempotency_key :: "string \<Rightarrow> string option \<Rightarrow> string \<Rightarrow> int \<Rightarrow> string" where
  "recurring_idempotency_key name app_id tenant_id window_start_ms =
     ''recurring:'' @ name @ '':'' @ (case app_id of Some a \<Rightarrow> a @ '':'' | None \<Rightarrow> [])
     @ tenant_id @ '':'' @ dec_int window_start_ms"

section \<open>Reading rows\<close>

definition optional_text :: "string option \<Rightarrow> string option" where
  "optional_text v = (case v of Some t \<Rightarrow> if t = [] then None else Some t | None \<Rightarrow> None)"

definition map_row :: "store_env \<Rightarrow> job_db_row \<Rightarrow> (store_error, job_row) result" where
  "map_row env row =
     rbind (ok_or (Store (''jobs.map_row: unknown status '' @ quoted (jd_status row)))
              (parse_job_status (jd_status row))) (\<lambda>status.
     rbind (open_column env (jd_tenant_id row) (jd_packed row)) (\<lambda>packed.
     rbind (decode_packed (wi_dec_value (se_wire env)) packed) (\<lambda>payload.
     Ok \<lparr>jr_id = jd_row_id row, jr_tenant_id = jd_tenant_id row,
         jr_app_id = (case optional_text (Some (jd_app_id row)) of Some a \<Rightarrow> a | None \<Rightarrow> DEFAULT_APP_ID),
         jr_job_type = jd_job_type row, jr_payload = payload, jr_status = status,
         jr_attempt_count = jd_attempt_count row, jr_max_attempts = jd_max_attempts row,
         jr_available_at = jd_available_at row, jr_created_at = jd_created_at row,
         jr_claimed_at = optional_text (jd_claimed_at row), jr_claimed_by = optional_text (jd_claimed_by row),
         jr_completed_at = optional_text (jd_completed_at row), jr_failed_at = optional_text (jd_failed_at row),
         jr_dead_lettered_at = optional_text (jd_dead_lettered_at row),
         jr_idempotency_key = optional_text (jd_idempotency_key row),
         jr_last_error_code = optional_text (jd_last_error_code row),
         jr_last_error_message = optional_text (jd_last_error_message row)\<rparr>)))"

fun transpose_row :: "store_env \<Rightarrow> job_db_row option \<Rightarrow> (store_error, job_row option) result" where
  "transpose_row env None = Ok None"
| "transpose_row env (Some row) = rbind (map_row env row) (\<lambda>r. Ok (Some r))"

definition matches_opt :: "'a option \<Rightarrow> 'a \<Rightarrow> bool" where
  "matches_opt filt v \<longleftrightarrow> (case filt of None \<Rightarrow> True | Some x \<Rightarrow> v = x)"

definition get_job_by_id ::
  "store_env \<Rightarrow> int \<Rightarrow> string option \<Rightarrow> string option \<Rightarrow> jobs_state \<Rightarrow> (store_error, job_row option) result" where
  "get_job_by_id env job_id tenant_id app_id st =
     transpose_row env (find (\<lambda>r. jd_row_id r = job_id \<and> matches_opt tenant_id (jd_tenant_id r)
       \<and> matches_opt app_id (jd_app_id r)) (js_rows st))"

definition find_by_idempotency_key ::
  "store_env \<Rightarrow> string \<Rightarrow> string \<Rightarrow> string \<Rightarrow> string \<Rightarrow> jobs_state \<Rightarrow> (store_error, job_row option) result" where
  "find_by_idempotency_key env tenant_id job_type key app_id st =
     transpose_row env (find (\<lambda>r. jd_app_id r = app_id \<and> jd_tenant_id r = tenant_id \<and> jd_job_type r = job_type
       \<and> jd_idempotency_key r = Some key) (js_rows st))"

definition sql_limit :: "int \<Rightarrow> 'a list \<Rightarrow> 'a list" where
  "sql_limit limit rows = (if limit < 0 then rows else take (nat limit) rows)"

definition list_jobs :: "store_env \<Rightarrow> list_jobs_filter \<Rightarrow> jobs_state \<Rightarrow> (store_error, job_row list) result" where
  "list_jobs env filt st =
     rmap (map_row env) (sql_limit (case lf_limit filt of Some l \<Rightarrow> l | None \<Rightarrow> 100)
       (order_by_desc jd_row_id (filter (\<lambda>r. matches_opt (lf_tenant_id filt) (jd_tenant_id r)
          \<and> matches_opt (lf_app_id filt) (jd_app_id r)
          \<and> matches_opt (map_option job_status_as_str (lf_status filt)) (jd_status r)
          \<and> matches_opt (lf_job_type filt) (jd_job_type r)) (js_rows st))))"

definition count_status :: "job_status \<Rightarrow> jobs_state \<Rightarrow> int" where
  "count_status s st = int (length (filter (\<lambda>r. parse_job_status (jd_status r) = Some s) (js_rows st)))"

definition counts_by_status :: "jobs_state \<Rightarrow> job_counts" where
  "counts_by_status st = \<lparr>jc_ready = count_status Ready st, jc_running = count_status Running st,
     jc_completed = count_status Completed st, jc_dead_lettered = count_status DeadLettered st,
     jc_failed = int (length (filter (\<lambda>r. jd_last_error_code r \<noteq> None) (js_rows st)))\<rparr>"

section \<open>Writing rows\<close>

text \<open>\<open>INSERT ... RETURNING id\<close> under the unique index on app, tenant, type and idempotency key.\<close>

definition insert_job :: "store_env \<Rightarrow> job_db_row \<Rightarrow> jobs_state \<Rightarrow> (store_error, int \<times> jobs_state) result" where
  "insert_job env row st =
    (if jd_idempotency_key row \<noteq> None \<and> list_ex (\<lambda>r. jd_app_id r = jd_app_id row
         \<and> jd_tenant_id r = jd_tenant_id row \<and> jd_job_type r = jd_job_type row
         \<and> jd_idempotency_key r = jd_idempotency_key row) (js_rows st)
     then Err (Driver (se_unique_error env))
     else Ok (js_next_id st, \<lparr>js_rows = js_rows st @ [row\<lparr>jd_row_id := js_next_id st\<rparr>], js_next_id = js_next_id st + 1\<rparr>))"

definition enqueue_job ::
  "store_env \<Rightarrow> string \<Rightarrow> enqueue_input \<Rightarrow> int \<Rightarrow> jobs_state \<Rightarrow> (store_error, job_row) result \<times> jobs_state" where
  "enqueue_job env nonce input now_ms st =
    (let app_id = (case en_app_id input of Some a \<Rightarrow> a | None \<Rightarrow> DEFAULT_APP_ID);
         now = epoch_ms_to_iso now_ms
     in case (case en_idempotency_key input of
                Some key \<Rightarrow> find_by_idempotency_key env (en_tenant_id input) (en_job_type input) key app_id st
              | None \<Rightarrow> Ok None) of
       Inl e \<Rightarrow> (Inl e, st)
     | Inr (Some existing) \<Rightarrow> (Ok existing, st)
     | Inr None \<Rightarrow>
        (case rbind (encode_packed (wi_enc_value (se_wire env)) (en_payload input)) (\<lambda>encoded.
              rbind (seal_column env nonce (en_tenant_id input) encoded) (\<lambda>packed.
              insert_job env
                \<lparr>jd_row_id = 0, jd_tenant_id = en_tenant_id input, jd_app_id = app_id,
                 jd_job_type = en_job_type input, jd_packed = packed, jd_status = ''ready'',
                 jd_attempt_count = 0, jd_max_attempts = (case en_max_attempts input of Some m \<Rightarrow> m | None \<Rightarrow> 5),
                 jd_available_at = (case en_available_at input of Some a \<Rightarrow> a | None \<Rightarrow> now),
                 jd_created_at = now, jd_claimed_at = None, jd_claimed_by = None, jd_completed_at = None,
                 jd_failed_at = None, jd_dead_lettered_at = None, jd_idempotency_key = en_idempotency_key input,
                 jd_last_error_code = None, jd_last_error_message = None\<rparr> st)) of
           Inl e \<Rightarrow> (Inl e, st)
         | Inr (job_id, st') \<Rightarrow>
            (rbind (get_job_by_id env job_id None None st') (\<lambda>row.
               ok_or (Store (''jobs.enqueue: inserted row '' @ dec_int job_id @ '' not found'')) row), st')))"

definition due_jobs :: "string \<Rightarrow> string option \<Rightarrow> string option \<Rightarrow> jobs_state \<Rightarrow> job_db_row list" where
  "due_jobs now job_type app_id st =
     order_by jd_available_at (order_by jd_row_id (filter (\<lambda>r. jd_status r = ''ready'' \<and> jd_available_at r \<le> now
       \<and> matches_opt job_type (jd_job_type r) \<and> matches_opt app_id (jd_app_id r)) (js_rows st)))"

definition claim_jobs ::
  "store_env \<Rightarrow> string \<Rightarrow> string option \<Rightarrow> int \<Rightarrow> string option \<Rightarrow> int \<Rightarrow> jobs_state
    \<Rightarrow> (store_error, job_row list) result \<times> jobs_state" where
  "claim_jobs env worker_id job_type limit app_id now_ms st =
    (let now = epoch_ms_to_iso now_ms;
         ids = map jd_row_id (sql_limit limit (due_jobs now job_type app_id st));
         claimed = (\<lambda>r. r\<lparr>jd_status := ''running'', jd_claimed_at := Some now, jd_claimed_by := Some worker_id,
                          jd_attempt_count := jd_attempt_count r + 1\<rparr>);
         rows = tbl_update (\<lambda>r. jd_row_id r \<in> set ids) claimed (js_rows st)
     in (rmap (map_row env) (filter (\<lambda>r. jd_row_id r \<in> set ids) rows), st\<lparr>js_rows := rows\<rparr>))"

definition complete_job ::
  "store_env \<Rightarrow> string \<Rightarrow> int \<Rightarrow> value option \<Rightarrow> int \<Rightarrow> jobs_state \<Rightarrow> (store_error, unit) result \<times> jobs_state" where
  "complete_job env nonce job_id res now_ms st =
    (let now = epoch_ms_to_iso now_ms;
         update = (\<lambda>f. st\<lparr>js_rows := tbl_update (\<lambda>r. jd_row_id r = job_id \<and> jd_status r \<noteq> ''dead_lettered'') f (js_rows st)\<rparr>)
     in case res of
       Some v \<Rightarrow>
        (case rbind (encode_packed (wi_enc_value (se_wire env)) v) (\<lambda>encoded.
            (case se_provider env of
               Some kp \<Rightarrow> if is_active kp
                 then rbind (get_job_by_id env job_id None None st) (\<lambda>row.
                      case row of None \<Rightarrow> Ok None
                      | Some r \<Rightarrow> rbind (encrypt (se_crypto env) kp nonce (jr_tenant_id r) encoded) (\<lambda>s. Ok (Some s)))
                 else Ok (Some encoded)
             | None \<Rightarrow> Ok (Some encoded))) of
           Inl e \<Rightarrow> (Inl e, st)
         | Inr None \<Rightarrow> (Ok (), st)
         | Inr (Some stored) \<Rightarrow>
             (Ok (), update (\<lambda>r. r\<lparr>jd_status := ''completed'', jd_completed_at := Some now, jd_packed := stored\<rparr>)))
     | None \<Rightarrow> (Ok (), update (\<lambda>r. r\<lparr>jd_status := ''completed'', jd_completed_at := Some now\<rparr>)))"

definition fail_job ::
  "store_env \<Rightarrow> int \<Rightarrow> string \<Rightarrow> string \<Rightarrow> bool \<Rightarrow> int \<Rightarrow> jobs_state \<Rightarrow> (store_error, unit) result \<times> jobs_state" where
  "fail_job env job_id error_code error_message retryable now_ms st =
    (case get_job_by_id env job_id None None st of
       Inl e \<Rightarrow> (Inl e, st)
     | Inr None \<Rightarrow> (Ok (), st)
     | Inr (Some row) \<Rightarrow>
        (let now = epoch_ms_to_iso now_ms in
         if retryable \<and> jr_attempt_count row < jr_max_attempts row
         then let next_available = epoch_ms_to_iso (now_ms + job_backoff_ms (jr_attempt_count row)) in
           (Ok (), st\<lparr>js_rows := tbl_update (\<lambda>r. jd_row_id r = job_id) (\<lambda>r. r\<lparr>jd_status := ''ready'',
              jd_available_at := next_available, jd_failed_at := Some now, jd_last_error_code := Some error_code,
              jd_last_error_message := Some error_message, jd_claimed_at := None, jd_claimed_by := None\<rparr>) (js_rows st)\<rparr>)
         else
           (Ok (), st\<lparr>js_rows := tbl_update (\<lambda>r. jd_row_id r = job_id) (\<lambda>r. r\<lparr>jd_status := ''dead_lettered'',
              jd_dead_lettered_at := Some now, jd_failed_at := Some now, jd_last_error_code := Some error_code,
              jd_last_error_message := Some error_message\<rparr>) (js_rows st)\<rparr>)))"

definition next_job ::
  "store_env \<Rightarrow> string \<Rightarrow> string \<Rightarrow> string option \<Rightarrow> int \<Rightarrow> jobs_state
    \<Rightarrow> (store_error, stored_job option) result \<times> jobs_state" where
  "next_job env tenant_id job_type app_id now_ms st =
    (let app = (case app_id of Some a \<Rightarrow> a | None \<Rightarrow> DEFAULT_APP_ID);
         worker_id = ''legacy:'' @ tenant_id
     in case claim_jobs env worker_id (Some job_type) 1 (Some app) now_ms st of
       (r, st') \<Rightarrow> (rbind r (\<lambda>claimed. Ok (case claimed of [] \<Rightarrow> None
          | row # _ \<Rightarrow> Some \<lparr>sj_id = jr_id row, sj_name = jr_job_type row, sj_value = jr_payload row\<rparr>)), st'))"

section \<open>The invariant of the jobs table\<close>

definition job_ident :: "job_db_row \<Rightarrow> string \<times> string \<times> string \<times> string option" where
  "job_ident r = (jd_app_id r, jd_tenant_id r, jd_job_type r, jd_idempotency_key r)"

definition packed_readable :: "store_env \<Rightarrow> job_db_row \<Rightarrow> bool" where
  "packed_readable env r \<longleftrightarrow> (\<exists>b v. open_column env (jd_tenant_id r) (jd_packed r) = Inr b
     \<and> wi_dec_value (se_wire env) b = Inr v)"

text \<open>A row has a known status and a readable payload; it has been claimed at most \<open>max_attempts\<close>
  times, but at least one attempt is always granted; a ready row has attempts left, a running one
  has a claimant.\<close>

definition job_row_inv :: "store_env \<Rightarrow> job_db_row \<Rightarrow> bool" where
  "job_row_inv env r \<longleftrightarrow> parse_job_status (jd_status r) \<noteq> None \<and> packed_readable env r
     \<and> 0 \<le> jd_attempt_count r \<and> jd_attempt_count r \<le> max 1 (jd_max_attempts r)
     \<and> (jd_status r = ''ready'' \<longrightarrow> jd_attempt_count r = 0 \<or> jd_attempt_count r < jd_max_attempts r)
     \<and> (jd_status r = ''running'' \<longrightarrow> 1 \<le> jd_attempt_count r \<and> jd_claimed_by r \<noteq> None \<and> jd_claimed_at r \<noteq> None)"

definition jobs_inv :: "store_env \<Rightarrow> jobs_state \<Rightarrow> bool" where
  "jobs_inv env st \<longleftrightarrow> tbl_ok jd_row_id (js_rows st)
     \<and> (\<forall>r \<in> set (js_rows st). jd_row_id r < js_next_id st \<and> job_row_inv env r)
     \<and> (\<forall>r \<in> set (js_rows st). \<forall>r' \<in> set (js_rows st). jd_idempotency_key r \<noteq> None \<and> job_ident r = job_ident r' \<longrightarrow> r = r')"

interpretation jobs_table: table jd_row_id .

lemma map_row_ok: "job_row_inv env r \<Longrightarrow> is_ok (map_row env r)"
  by (auto simp: job_row_inv_def packed_readable_def map_row_def decode_packed_def ok_or_def)

lemma map_row_Inr:
  assumes "map_row env r = Inr row"
  shows "jr_id row = jd_row_id r" "jr_tenant_id row = jd_tenant_id r" "jr_attempt_count row = jd_attempt_count r"
    "jr_max_attempts row = jd_max_attempts r" "parse_job_status (jd_status r) = Some (jr_status row)"
  using assms by (auto simp: map_row_def ok_or_def split: option.splits)

text \<open>Updates that keep id and identity keep the invariant when the new rows satisfy it.\<close>

lemma jobs_inv_update:
  assumes "jobs_inv env st" "\<And>r. p r \<Longrightarrow> jd_row_id (f r) = jd_row_id r \<and> job_ident (f r) = job_ident r"
    and "\<And>r. r \<in> set (js_rows st) \<Longrightarrow> p r \<Longrightarrow> job_row_inv env (f r)"
  shows "jobs_inv env (st\<lparr>js_rows := tbl_update p f (js_rows st)\<rparr>)"
proof -
  let ?g = "\<lambda>r. if p r then f r else r"
  have g: "jd_row_id (?g r) = jd_row_id r" "job_ident (?g r) = job_ident r" for r using assms(2) by simp_all
  have k: "jd_idempotency_key (?g r) = jd_idempotency_key r" for r using g(2) by (metis job_ident_def prod.inject)
  have rows: "set (tbl_update p f (js_rows st)) = ?g ` set (js_rows st)" by (simp add: tbl_update_def)
  have "tbl_ok jd_row_id (tbl_update p f (js_rows st))"
    using assms(1,2) by (subst tbl_ok_update) (simp_all add: jobs_inv_def)
  moreover have "\<forall>r \<in> set (tbl_update p f (js_rows st)). jd_row_id r < js_next_id st \<and> job_row_inv env r"
    using assms unfolding rows by (auto simp: jobs_inv_def)
  moreover have "\<forall>r \<in> set (tbl_update p f (js_rows st)). \<forall>r' \<in> set (tbl_update p f (js_rows st)).
      jd_idempotency_key r \<noteq> None \<and> job_ident r = job_ident r' \<longrightarrow> r = r'"
    using assms(1) unfolding rows jobs_inv_def ball_simps g(2) k by metis
  ultimately show ?thesis by (simp add: jobs_inv_def)
qed

lemma open_seal_value:
  assumes "env_ok env" "length nonce = NONCE_LEN" "wi_enc_value (se_wire env) v = Inr b" "seal_column env nonce t b = Inr s"
  shows "open_column env t s = Inr b \<and> wi_dec_value (se_wire env) b = Inr v"
proof -
  have "wi_dec_value (se_wire env) b = Inr v" "\<not> starts_with b ENVELOPE_MAGIC"
    using assms(1,3) by (auto simp: env_ok_def wire_inverse_def)
  with open_seal_column [OF assms(1,2) _ assms(4)] show ?thesis by simp
qed

definition new_job :: "enqueue_input \<Rightarrow> string \<Rightarrow> int \<Rightarrow> job_db_row" where
  "new_job input packed now_ms =
     \<lparr>jd_row_id = 0, jd_tenant_id = en_tenant_id input,
      jd_app_id = (case en_app_id input of Some a \<Rightarrow> a | None \<Rightarrow> DEFAULT_APP_ID),
      jd_job_type = en_job_type input, jd_packed = packed, jd_status = ''ready'',
      jd_attempt_count = 0, jd_max_attempts = (case en_max_attempts input of Some m \<Rightarrow> m | None \<Rightarrow> 5),
      jd_available_at = (case en_available_at input of Some a \<Rightarrow> a | None \<Rightarrow> epoch_ms_to_iso now_ms),
      jd_created_at = epoch_ms_to_iso now_ms, jd_claimed_at = None, jd_claimed_by = None, jd_completed_at = None,
      jd_failed_at = None, jd_dead_lettered_at = None, jd_idempotency_key = en_idempotency_key input,
      jd_last_error_code = None, jd_last_error_message = None\<rparr>"

definition enqueue_lookup :: "store_env \<Rightarrow> enqueue_input \<Rightarrow> jobs_state \<Rightarrow> (store_error, job_row option) result" where
  "enqueue_lookup env input st = (case en_idempotency_key input of
      Some key \<Rightarrow> find_by_idempotency_key env (en_tenant_id input) (en_job_type input) key
        (case en_app_id input of Some a \<Rightarrow> a | None \<Rightarrow> DEFAULT_APP_ID) st
    | None \<Rightarrow> Inr None)"

definition enqueue_insert :: "store_env \<Rightarrow> string \<Rightarrow> enqueue_input \<Rightarrow> int \<Rightarrow> jobs_state \<Rightarrow> (store_error, int \<times> jobs_state) result" where
  "enqueue_insert env nonce input now_ms st =
     rbind (encode_packed (wi_enc_value (se_wire env)) (en_payload input)) (\<lambda>encoded.
     rbind (seal_column env nonce (en_tenant_id input) encoded) (\<lambda>packed.
     insert_job env (new_job input packed now_ms) st))"

lemma enqueue_job_eq:
  "enqueue_job env nonce input now_ms st =
    (case enqueue_lookup env input st of
       Inl e \<Rightarrow> (Inl e, st)
     | Inr (Some existing) \<Rightarrow> (Inr existing, st)
     | Inr None \<Rightarrow>
        (case enqueue_insert env nonce input now_ms st of
           Inl e \<Rightarrow> (Inl e, st)
         | Inr (job_id, st') \<Rightarrow>
            (rbind (get_job_by_id env job_id None None st') (\<lambda>row.
               ok_or (Store (''jobs.enqueue: inserted row '' @ dec_int job_id @ '' not found'')) row), st')))"
  unfolding enqueue_job_def Let_def enqueue_lookup_def enqueue_insert_def new_job_def ..

lemma insert_job_Inr:
  assumes "insert_job env row st = Inr (i, st')"
  shows "i = js_next_id st" "st' = \<lparr>js_rows = js_rows st @ [row\<lparr>jd_row_id := js_next_id st\<rparr>], js_next_id = js_next_id st + 1\<rparr>"
    "jd_idempotency_key row \<noteq> None \<Longrightarrow> \<forall>r \<in> set (js_rows st). job_ident r \<noteq> job_ident row"
  using assms by (auto simp: insert_job_def job_ident_def list_ex_iff split: if_splits)

lemma enqueue_insert_inv:
  assumes "env_ok env" "length nonce = NONCE_LEN" "jobs_inv env st" "enqueue_insert env nonce input now st = Inr (i, st')"
  shows "jobs_inv env st'"
proof -
  from assms(4) obtain b packed where b: "wi_enc_value (se_wire env) (en_payload input) = Inr b"
    "seal_column env nonce (en_tenant_id input) b = Inr packed"
    and ins: "insert_job env (new_job input packed now) st = Inr (i, st')"
    by (auto simp: enqueue_insert_def encode_packed_def)
  let ?row = "(new_job input packed now)\<lparr>jd_row_id := js_next_id st\<rparr>"
  note s = insert_job_Inr [OF ins]
  have ri: "job_row_inv env ?row"
    using open_seal_value [OF assms(1,2) b]
    by (auto simp: job_row_inv_def packed_readable_def parse_job_status_def new_job_def)
  have id: "job_ident ?row = job_ident (new_job input packed now)" by (simp add: job_ident_def)
  have u: "job_ident r \<noteq> job_ident ?row" if "r \<in> set (js_rows st)" "jd_idempotency_key r \<noteq> None" for r
    using that s(3) unfolding id by (auto simp: job_ident_def)
  have fresh: "js_next_id st \<notin> jd_row_id ` set (js_rows st)" using assms(3) by (auto simp: jobs_inv_def)
  have "\<forall>r \<in> set (js_rows st'). \<forall>r' \<in> set (js_rows st'). jd_idempotency_key r \<noteq> None \<and> job_ident r = job_ident r' \<longrightarrow> r = r'"
  proof (intro ballI impI)
    fix r r' assume h: "r \<in> set (js_rows st')" "r' \<in> set (js_rows st')" "jd_idempotency_key r \<noteq> None \<and> job_ident r = job_ident r'"
    then have "jd_idempotency_key r' \<noteq> None" by (auto simp: job_ident_def)
    with h u [of r] u [of r'] assms(3) show "r = r'" by (auto simp: s(2) jobs_inv_def)
  qed
  moreover have "tbl_ok jd_row_id (js_rows st')" using assms(3) fresh by (simp add: s(2) tbl_ok_def jobs_inv_def)
  moreover have "\<forall>r \<in> set (js_rows st'). jd_row_id r < js_next_id st' \<and> job_row_inv env r"
    using assms(3) ri by (auto simp: s(2) jobs_inv_def)
  ultimately show ?thesis by (simp add: jobs_inv_def)
qed

lemma enqueue_inv:
  assumes "env_ok env" "length nonce = NONCE_LEN" "jobs_inv env st"
  shows "jobs_inv env (snd (enqueue_job env nonce input now st))"
  using enqueue_insert_inv [OF assms] assms(3) by (auto simp: enqueue_job_eq split: sum.splits option.splits)

lemma claim_inv: "jobs_inv env st \<Longrightarrow> jobs_inv env (snd (claim_jobs env w ty l app now st))"
proof -
  assume inv: "jobs_inv env st"
  let ?ids = "map jd_row_id (sql_limit l (due_jobs (epoch_ms_to_iso now) ty app st))"
  have due: "r \<in> set (js_rows st) \<Longrightarrow> jd_row_id r \<in> set ?ids \<Longrightarrow> jd_status r = ''ready''" for r
  proof -
    assume r: "r \<in> set (js_rows st)" "jd_row_id r \<in> set ?ids"
    then obtain q where "q \<in> set (due_jobs (epoch_ms_to_iso now) ty app st)" "jd_row_id q = jd_row_id r"
      by (auto simp: sql_limit_def split: if_splits dest: in_set_takeD)
    moreover from this have "q = r" using r(1) inv
      by (auto simp: due_jobs_def jobs_inv_def tbl_ok_def distinct_map inj_on_def)
    ultimately show ?thesis by (simp add: due_jobs_def)
  qed
  show ?thesis
    unfolding claim_jobs_def Let_def snd_conv
  proof (rule jobs_inv_update [OF inv])
    fix r assume r: "r \<in> set (js_rows st)" "jd_row_id r \<in> set ?ids"
    have "job_row_inv env r" "jd_status r = ''ready''" using inv r(1) due [OF r] by (auto simp: jobs_inv_def)
    then show "job_row_inv env (r\<lparr>jd_status := ''running'', jd_claimed_at := Some (epoch_ms_to_iso now), jd_claimed_by := Some w,
        jd_attempt_count := jd_attempt_count r + 1\<rparr>)"
      by (auto simp: job_row_inv_def packed_readable_def parse_job_status_def)
  qed (simp add: job_ident_def)
qed

lemma get_job_by_id_Inr:
  assumes "jobs_inv env st" "get_job_by_id env i None None st = Inr (Some row)" "r \<in> set (js_rows st)" "jd_row_id r = i"
  shows "map_row env r = Inr row"
proof -
  from assms(2) obtain q where q: "find (\<lambda>r. jd_row_id r = i \<and> matches_opt None (jd_tenant_id r) \<and> matches_opt None (jd_app_id r))
      (js_rows st) = Some q" "map_row env q = Inr row"
    by (cases "find (\<lambda>r. jd_row_id r = i \<and> matches_opt None (jd_tenant_id r) \<and> matches_opt None (jd_app_id r)) (js_rows st)")
      (auto simp: get_job_by_id_def)
  from find_Some_set [OF q(1)] assms(1,3,4) have "q = r"
    by (auto simp: jobs_inv_def tbl_ok_def distinct_map inj_on_def)
  with q(2) show ?thesis by simp
qed

lemma get_job_by_id_None:
  "get_job_by_id env i None None st = Inr None \<Longrightarrow> r \<in> set (js_rows st) \<Longrightarrow> jd_row_id r \<noteq> i"
  by (cases "find (\<lambda>r. jd_row_id r = i \<and> matches_opt None (jd_tenant_id r) \<and> matches_opt None (jd_app_id r)) (js_rows st)")
    (auto simp: get_job_by_id_def find_None_iff matches_opt_def)

text \<open>The result column a completion writes is sealed for the tenant of the row.\<close>

definition completion_column :: "store_env \<Rightarrow> string \<Rightarrow> int \<Rightarrow> value \<Rightarrow> jobs_state \<Rightarrow> (store_error, string option) result" where
  "completion_column env nonce job_id v st =
     rbind (encode_packed (wi_enc_value (se_wire env)) v) (\<lambda>encoded.
     (case se_provider env of
        Some kp \<Rightarrow> if is_active kp
          then rbind (get_job_by_id env job_id None None st) (\<lambda>row.
               case row of None \<Rightarrow> Inr None
               | Some r \<Rightarrow> rbind (encrypt (se_crypto env) kp nonce (jr_tenant_id r) encoded) (\<lambda>s. Inr (Some s)))
          else Inr (Some encoded)
      | None \<Rightarrow> Inr (Some encoded)))"

lemma completion_column_readable:
  assumes "env_ok env" "length nonce = NONCE_LEN" "jobs_inv env st" "completion_column env nonce i v st = Inr (Some s)"
    and "r \<in> set (js_rows st)" "jd_row_id r = i"
  shows "packed_readable env (r\<lparr>jd_status := x, jd_completed_at := y, jd_packed := s\<rparr>)"
proof -
  obtain b where b: "wi_enc_value (se_wire env) v = Inr b" "seal_column env nonce (jd_tenant_id r) b = Inr s"
  proof (cases "\<exists>kp. se_provider env = Some kp \<and> is_active kp")
    case True
    with assms(4) obtain b kp row where "wi_enc_value (se_wire env) v = Inr b" "se_provider env = Some kp"
      "get_job_by_id env i None None st = Inr (Some row)" "encrypt (se_crypto env) kp nonce (jr_tenant_id row) b = Inr s"
      by (auto simp: completion_column_def encode_packed_def split: option.splits)
    with get_job_by_id_Inr [OF assms(3) _ assms(5,6)] map_row_Inr(2) that show ?thesis
      by (simp add: seal_column_def)
  next
    case False
    then show ?thesis using assms(4) that
      by (auto simp: completion_column_def encode_packed_def seal_column_def encrypt_def is_active_def
          split: option.splits if_splits)
  qed
  with open_seal_value [OF assms(1,2) b] show ?thesis by (auto simp: packed_readable_def)
qed

lemma complete_job_eq:
  "complete_job env nonce i res now st =
    (let upd = (\<lambda>f. st\<lparr>js_rows := tbl_update (\<lambda>r. jd_row_id r = i \<and> jd_status r \<noteq> ''dead_lettered'') f (js_rows st)\<rparr>) in
     case res of
       Some v \<Rightarrow> (case completion_column env nonce i v st of
           Inl e \<Rightarrow> (Inl e, st)
         | Inr None \<Rightarrow> (Inr (), st)
         | Inr (Some s) \<Rightarrow> (Inr (), upd (\<lambda>r. r\<lparr>jd_status := ''completed'', jd_completed_at := Some (epoch_ms_to_iso now), jd_packed := s\<rparr>)))
     | None \<Rightarrow> (Inr (), upd (\<lambda>r. r\<lparr>jd_status := ''completed'', jd_completed_at := Some (epoch_ms_to_iso now)\<rparr>)))"
  unfolding complete_job_def completion_column_def Let_def ..

lemma complete_inv:
  assumes "env_ok env" "length nonce = NONCE_LEN" "jobs_inv env st"
  shows "jobs_inv env (snd (complete_job env nonce i res now st))"
proof -
  have row: "job_row_inv env r" if "r \<in> set (js_rows st)" for r using assms(3) that by (simp add: jobs_inv_def)
  have plain: "jobs_inv env (st\<lparr>js_rows := tbl_update (\<lambda>r. jd_row_id r = i \<and> jd_status r \<noteq> ''dead_lettered'')
      (\<lambda>r. r\<lparr>jd_status := ''completed'', jd_completed_at := Some (epoch_ms_to_iso now)\<rparr>) (js_rows st)\<rparr>)"
    using row by (intro jobs_inv_update [OF assms(3)])
      (auto simp: job_ident_def job_row_inv_def packed_readable_def parse_job_status_def)
  have "jobs_inv env (st\<lparr>js_rows := tbl_update (\<lambda>r. jd_row_id r = i \<and> jd_status r \<noteq> ''dead_lettered'')
      (\<lambda>r. r\<lparr>jd_status := ''completed'', jd_completed_at := Some (epoch_ms_to_iso now), jd_packed := s\<rparr>) (js_rows st)\<rparr>)"
    if "completion_column env nonce i v st = Inr (Some s)" for v s
    using row completion_column_readable [OF assms that]
    by (intro jobs_inv_update [OF assms(3)]) (auto simp: job_ident_def job_row_inv_def parse_job_status_def)
  with plain assms(3) show ?thesis by (auto simp: complete_job_eq Let_def split: option.splits sum.splits)
qed

lemma fail_inv:
  assumes "jobs_inv env st"
  shows "jobs_inv env (snd (fail_job env i code msg retry now st))"
proof (cases "get_job_by_id env i None None st")
  case (Inl e)
  then show ?thesis using assms by (simp add: fail_job_def)
next
  case (Inr found)
  show ?thesis
  proof (cases found)
    case None
    then show ?thesis using Inr assms by (simp add: fail_job_def)
  next
    case (Some row)
    have row: "job_row_inv env r" if "r \<in> set (js_rows st)" for r using assms that by (simp add: jobs_inv_def)
    have eq: "jd_attempt_count r = jr_attempt_count row" "jd_max_attempts r = jr_max_attempts row"
      if "r \<in> set (js_rows st)" "jd_row_id r = i" for r
      using map_row_Inr(3,4) [OF get_job_by_id_Inr [OF assms Inr [unfolded Some] that]] by simp_all
    have dead: "jobs_inv env (st\<lparr>js_rows := tbl_update (\<lambda>r. jd_row_id r = i) (\<lambda>r. r\<lparr>jd_status := ''dead_lettered'',
        jd_dead_lettered_at := d, jd_failed_at := d, jd_last_error_code := c, jd_last_error_message := m\<rparr>) (js_rows st)\<rparr>)" for d c m
      using row by (intro jobs_inv_update [OF assms])
        (auto simp: job_ident_def job_row_inv_def packed_readable_def parse_job_status_def)
    have arm: "jobs_inv env (st\<lparr>js_rows := tbl_update (\<lambda>r. jd_row_id r = i) (\<lambda>r. r\<lparr>jd_status := ''ready'',
        jd_available_at := a, jd_failed_at := d, jd_last_error_code := c, jd_last_error_message := m,
        jd_claimed_at := None, jd_claimed_by := None\<rparr>) (js_rows st)\<rparr>)"
      if left: "jr_attempt_count row < jr_max_attempts row" for a d c m
    proof (rule jobs_inv_update [OF assms])
      fix r assume r: "r \<in> set (js_rows st)" "jd_row_id r = i"
      have "jd_attempt_count r < jd_max_attempts r" using eq [OF r] left by simp
      with row [OF r(1)] show "job_row_inv env (r\<lparr>jd_status := ''ready'', jd_available_at := a, jd_failed_at := d,
          jd_last_error_code := c, jd_last_error_message := m, jd_claimed_at := None, jd_claimed_by := None\<rparr>)"
        by (simp add: job_row_inv_def packed_readable_def parse_job_status_def)
    qed (simp add: job_ident_def)
    show ?thesis using dead arm by (simp add: fail_job_def Inr Some Let_def)
  qed
qed

section \<open>Steps of the job queue\<close>

text \<open>Workers, clients and operators act in any order: every call of the store is a step.\<close>

inductive job_step :: "store_env \<Rightarrow> jobs_state \<Rightarrow> jobs_state \<Rightarrow> bool" for env where
  step_enqueue: "length nonce = NONCE_LEN \<Longrightarrow> job_step env st (snd (enqueue_job env nonce input now st))"
| step_claim: "job_step env st (snd (claim_jobs env w ty l app now st))"
| step_complete: "length nonce = NONCE_LEN \<Longrightarrow> job_step env st (snd (complete_job env nonce i res now st))"
| step_fail: "job_step env st (snd (fail_job env i code msg retry now st))"

inductive jobs_reachable :: "store_env \<Rightarrow> jobs_state \<Rightarrow> bool" for env where
  empty_queue: "jobs_reachable env \<lparr>js_rows = [], js_next_id = 1\<rparr>"
| next_state: "jobs_reachable env st \<Longrightarrow> job_step env st st' \<Longrightarrow> jobs_reachable env st'"

lemma job_step_inv: "job_step env st st' \<Longrightarrow> env_ok env \<Longrightarrow> jobs_inv env st \<Longrightarrow> jobs_inv env st'"
  by (induction rule: job_step.induct) (auto intro: enqueue_inv claim_inv complete_inv fail_inv)

lemma jobs_reachable_inv: "jobs_reachable env st \<Longrightarrow> env_ok env \<Longrightarrow> jobs_inv env st"
proof (induction rule: jobs_reachable.induct)
  case empty_queue
  show ?case by (simp add: jobs_inv_def tbl_ok_def)
next
  case (next_state st st')
  then show ?case by (blast intro: job_step_inv)
qed

section \<open>Claims\<close>

lemma is_ok_Inr: "is_ok r \<longleftrightarrow> (\<exists>a. r = Inr a)"
  by (cases r) auto

lemma is_ok_projr: "is_ok r \<Longrightarrow> r = Inr (projr r)"
  by (cases r) auto

lemma ids_of_updated:
  assumes "\<And>r. jd_row_id (f r) = jd_row_id r"
  shows "map jd_row_id (filter (\<lambda>r. jd_row_id r \<in> S) (tbl_update p f rows)) = filter (\<lambda>i. i \<in> S) (map jd_row_id rows)"
  using assms by (induction rows) (auto simp: tbl_update_def)

definition claimed_ids :: "int \<Rightarrow> string option \<Rightarrow> string option \<Rightarrow> int \<Rightarrow> jobs_state \<Rightarrow> int set" where
  "claimed_ids l ty app now st = jd_row_id ` set (sql_limit l (due_jobs (epoch_ms_to_iso now) ty app st))"

lemma set_due_jobs:
  "set (due_jobs now ty app st) = {r \<in> set (js_rows st). jd_status r = ''ready'' \<and> jd_available_at r \<le> now
     \<and> matches_opt ty (jd_job_type r) \<and> matches_opt app (jd_app_id r)}"
  by (auto simp: due_jobs_def)

lemma set_sql_limit: "set (sql_limit l xs) \<subseteq> set xs"
  by (auto simp: sql_limit_def dest: in_set_takeD)

lemma claimed_ids_due:
  assumes "jobs_inv env st" "r \<in> set (js_rows st)" "jd_row_id r \<in> claimed_ids l ty app now st"
  shows "r \<in> set (sql_limit l (due_jobs (epoch_ms_to_iso now) ty app st))"
proof -
  from assms(3) obtain q where q: "q \<in> set (sql_limit l (due_jobs (epoch_ms_to_iso now) ty app st))" "jd_row_id q = jd_row_id r"
    by (auto simp: claimed_ids_def)
  then have "q \<in> set (js_rows st)" using set_sql_limit set_due_jobs by fastforce
  with q(2) assms(1,2) have "q = r" by (auto simp: jobs_inv_def tbl_ok_def distinct_map inj_on_def)
  with q(1) show ?thesis by simp
qed

lemma claim_jobs_eq:
  assumes "jobs_inv env st"
  obtains jobs where "claim_jobs env w ty l app now st = (Inr jobs, st\<lparr>js_rows := tbl_update
      (\<lambda>r. jd_row_id r \<in> claimed_ids l ty app now st)
      (\<lambda>r. r\<lparr>jd_status := ''running'', jd_claimed_at := Some (epoch_ms_to_iso now), jd_claimed_by := Some w,
             jd_attempt_count := jd_attempt_count r + 1\<rparr>) (js_rows st)\<rparr>)"
    "jr_id ` set jobs = claimed_ids l ty app now st" "length jobs = card (claimed_ids l ty app now st)"
    "\<forall>j \<in> set jobs. jr_status j = Running"
proof -
  let ?ids = "claimed_ids l ty app now st"
  let ?f = "\<lambda>r. r\<lparr>jd_status := ''running'', jd_claimed_at := Some (epoch_ms_to_iso now), jd_claimed_by := Some w,
             jd_attempt_count := jd_attempt_count r + 1\<rparr>"
  let ?rows = "tbl_update (\<lambda>r. jd_row_id r \<in> ?ids) ?f (js_rows st)"
  let ?hit = "filter (\<lambda>r. jd_row_id r \<in> ?ids) ?rows"
  have ids: "set (map jd_row_id (sql_limit l (due_jobs (epoch_ms_to_iso now) ty app st))) = ?ids"
    by (simp add: claimed_ids_def)
  have c: "claim_jobs env w ty l app now st = (rmap (map_row env) ?hit, st\<lparr>js_rows := ?rows\<rparr>)"
    unfolding claim_jobs_def Let_def ids ..
  have inv: "jobs_inv env (st\<lparr>js_rows := ?rows\<rparr>)" using claim_inv [OF assms, of w ty l app now] by (simp add: c)
  have "rmap (map_row env) ?hit = Inr (map (\<lambda>r. projr (map_row env r)) ?hit)"
  proof (rule rmap_pure)
    fix r assume "r \<in> set ?hit"
    then have "job_row_inv env r" using inv by (simp add: jobs_inv_def)
    then show "map_row env r = Inr (projr (map_row env r))" by (intro is_ok_projr map_row_ok)
  qed
  moreover have jid: "jr_id (projr (map_row env r)) = jd_row_id r" "jr_status (projr (map_row env r)) = Running"
    if "r \<in> set ?hit" for r
  proof -
    have "job_row_inv env r" using that inv by (simp add: jobs_inv_def)
    from is_ok_projr [OF map_row_ok [OF this]] obtain row where row: "map_row env r = Inr row" by blast
    have "jd_status r = ''running''" using that by (auto simp: tbl_update_def)
    with row map_row_Inr(1,5) [OF row] show "jr_id (projr (map_row env r)) = jd_row_id r" "jr_status (projr (map_row env r)) = Running"
      by (simp_all add: parse_job_status_def)
  qed
  moreover have sub: "?ids \<subseteq> jd_row_id ` set (js_rows st)"
    using set_sql_limit set_due_jobs by (fastforce simp: claimed_ids_def)
  have hit: "map jd_row_id ?hit = filter (\<lambda>i. i \<in> ?ids) (map jd_row_id (js_rows st))"
    by (rule ids_of_updated) simp
  then have d: "distinct (map jd_row_id ?hit)" "set (map jd_row_id ?hit) = ?ids"
    using assms sub by (auto simp: jobs_inv_def tbl_ok_def)
  have "jr_id ` set (map (\<lambda>r. projr (map_row env r)) ?hit) = set (map jd_row_id ?hit)"
    using jid(1) by (auto simp: image_image)
  moreover have "length ?hit = card ?ids" using d distinct_card by fastforce
  ultimately show ?thesis using that [of "map (\<lambda>r. projr (map_row env r)) ?hit"] c d(2) by (simp add: jid(2))
qed

lemma card_claimed_ids:
  assumes "jobs_inv env st" "0 \<le> l"
  shows "card (claimed_ids l ty app now st) = min (nat l) (length (due_jobs (epoch_ms_to_iso now) ty app st))"
proof -
  let ?due = "due_jobs (epoch_ms_to_iso now) ty app st"
  have "distinct (map jd_row_id (js_rows st))" using assms(1) by (simp add: jobs_inv_def tbl_ok_def)
  then have "distinct (map jd_row_id ?due)"
    by (simp add: due_jobs_def order_by_def distinct_map inj_on_def)
  then have "distinct (take (nat l) (map jd_row_id ?due))" by simp
  then have "card (set (take (nat l) (map jd_row_id ?due))) = min (nat l) (length ?due)"
    by (simp only: distinct_card length_take length_map min.commute)
  then show ?thesis using assms(2) by (simp add: claimed_ids_def sql_limit_def take_map [symmetric] flip: set_map)
qed

lemma oldest_first:
  assumes "r \<in> set (sql_limit l (due_jobs now ty app st))" "q \<in> set (due_jobs now ty app st)"
    "q \<notin> set (sql_limit l (due_jobs now ty app st))"
  shows "jd_available_at r < jd_available_at q \<or> jd_available_at r = jd_available_at q \<and> jd_row_id r \<le> jd_row_id q"
proof -
  let ?due = "due_jobs now ty app st"
  have l: "0 \<le> l" using assms(2,3) by (simp add: sql_limit_def split: if_splits)
  have r: "r \<in> set (take (nat l) ?due)" using assms(1) l by (simp add: sql_limit_def)
  have q: "q \<in> set (drop (nat l) ?due)"
    using assms(2,3) l by (simp add: sql_limit_def) (metis Un_iff append_take_drop_id set_append)
  have split: "?due = take (nat l) ?due @ drop (nat l) ?due" by simp
  have "sorted (map jd_available_at ?due)" by (simp add: due_jobs_def sorted_order_by)
  then have "jd_available_at r \<le> jd_available_at q"
    using r q by (subst (asm) split) (auto simp: sorted_append simp del: append_take_drop_id)
  moreover have "jd_row_id r \<le> jd_row_id q" if eq: "jd_available_at r = jd_available_at q"
  proof -
    let ?same = "filter (\<lambda>x. jd_available_at x = jd_available_at q)"
    have "sorted (map jd_row_id (?same ?due))"
      unfolding due_jobs_def order_by_def sort_key_stable by (intro sorted_filter sorted_sort_key)
    then have "sorted (map jd_row_id (?same (take (nat l) ?due) @ ?same (drop (nat l) ?due)))"
      by (subst (asm) split) (simp del: append_take_drop_id)
    moreover have "r \<in> set (?same (take (nat l) ?due))" "q \<in> set (?same (drop (nat l) ?due))" using r q eq by simp_all
    ultimately show ?thesis by (simp add: sorted_append)
  qed
  ultimately show ?thesis by (auto simp: order_le_less)
qed

section \<open>Claimed jobs\<close>

text \<open>The calls that do not fail a job of the set \<open>ids\<close>: only failing a job makes it ready again.\<close>

inductive sparing_step :: "store_env \<Rightarrow> int set \<Rightarrow> jobs_state \<Rightarrow> jobs_state \<Rightarrow> bool" for env ids where
  spare_enqueue: "length nonce = NONCE_LEN \<Longrightarrow> sparing_step env ids st (snd (enqueue_job env nonce input now st))"
| spare_claim: "sparing_step env ids st (snd (claim_jobs env w ty l app now st))"
| spare_complete: "length nonce = NONCE_LEN \<Longrightarrow> sparing_step env ids st (snd (complete_job env nonce i res now st))"
| spare_fail: "i \<notin> ids \<Longrightarrow> sparing_step env ids st (snd (fail_job env i code msg retry now st))"

lemma sparing_job_step: "sparing_step env ids st st' \<Longrightarrow> job_step env st st'"
  by (induction rule: sparing_step.induct) (auto intro: job_step.intros)

definition taken :: "int set \<Rightarrow> jobs_state \<Rightarrow> bool" where
  "taken ids st \<longleftrightarrow> (\<forall>r \<in> set (js_rows st). jd_row_id r \<in> ids \<longrightarrow> jd_status r \<noteq> ''ready'') \<and> (\<forall>i \<in> ids. i < js_next_id st)"

lemma taken_update:
  assumes "taken ids st" "\<And>r. p r \<Longrightarrow> jd_row_id (f r) = jd_row_id r"
    and "\<And>r. p r \<Longrightarrow> jd_row_id r \<in> ids \<Longrightarrow> jd_status (f r) \<noteq> ''ready''"
  shows "taken ids (st\<lparr>js_rows := tbl_update p f (js_rows st)\<rparr>)"
  using assms by (auto simp: taken_def tbl_update_def)

lemma sparing_taken: "sparing_step env ids st st' \<Longrightarrow> taken ids st \<Longrightarrow> taken ids st'"
proof (induction rule: sparing_step.induct)
  case (spare_enqueue nonce st input now)
  then show ?case
    by (auto simp: enqueue_job_eq enqueue_insert_def taken_def dest!: insert_job_Inr split: sum.splits option.splits)
      (metis order_less_irrefl)+
next
  case (spare_claim st w ty l app now)
  then show ?case by (auto simp: claim_jobs_def Let_def intro!: taken_update)
next
  case (spare_complete nonce st i res now)
  then show ?case by (auto simp: complete_job_eq Let_def intro!: taken_update split: option.split sum.split)
next
  case (spare_fail i st code msg retry now)
  then show ?case by (auto simp: fail_job_def Let_def intro!: taken_update split: option.split sum.split)
qed

lemma sparing_steps:
  assumes "(sparing_step env ids)\<^sup>*\<^sup>* st st'" "env_ok env"
  shows "jobs_inv env st \<Longrightarrow> taken ids st \<Longrightarrow> jobs_inv env st' \<and> taken ids st'"
  using assms(1) by (induction rule: rtranclp_induct) (use sparing_taken sparing_job_step job_step_inv assms(2) in blast)+

lemma claim_spares_taken:
  assumes "jobs_inv env st" "taken ids st"
  obtains jobs st' where "claim_jobs env w ty l app now st = (Inr jobs, st')" "ids \<inter> jr_id ` set jobs = {}"
proof -
  obtain jobs st' where c: "claim_jobs env w ty l app now st = (Inr jobs, st')" "jr_id ` set jobs = claimed_ids l ty app now st"
    by (rule claim_jobs_eq [OF assms(1), of w ty l app now]) blast
  have "i \<notin> ids" if "i \<in> claimed_ids l ty app now st" for i
  proof -
    from that obtain r where "r \<in> set (js_rows st)" "jd_row_id r = i" "jd_status r = ''ready''"
      using set_sql_limit set_due_jobs by (fastforce simp: claimed_ids_def)
    with assms(2) show ?thesis by (auto simp: taken_def)
  qed
  with c show ?thesis using that by blast
qed

section \<open>Properties of the job queue\<close>

text \<open>C10: whatever sequence of enqueue, claim, complete and fail calls runs on an empty queue, job ids
  and idempotency keys stay unique and every row reads back; a job has been claimed at most
  \<open>max_attempts\<close> times (once if that is not positive), a ready job has attempts left, and a running
  job has a claimant and a counted attempt.\<close>

theorem job_queue_invariant:
  assumes "env_ok env" "jobs_reachable env st"
  shows "distinct (map jd_row_id (js_rows st))
    \<and> (\<forall>r \<in> set (js_rows st). \<exists>row. map_row env r = Inr row
        \<and> 0 \<le> jr_attempt_count row \<and> jr_attempt_count row \<le> max 1 (jr_max_attempts row)
        \<and> (jr_status row = Ready \<longrightarrow> jr_attempt_count row = 0 \<or> jr_attempt_count row < jr_max_attempts row)
        \<and> (jr_status row = Running \<longrightarrow> 1 \<le> jr_attempt_count row \<and> jd_claimed_by r \<noteq> None))
    \<and> (\<forall>r \<in> set (js_rows st). \<forall>r' \<in> set (js_rows st). jd_idempotency_key r \<noteq> None \<and> job_ident r = job_ident r' \<longrightarrow> r = r')"
proof -
  have inv: "jobs_inv env st" by (rule jobs_reachable_inv [OF assms(2,1)])
  have "\<exists>row. map_row env r = Inr row
        \<and> 0 \<le> jr_attempt_count row \<and> jr_attempt_count row \<le> max 1 (jr_max_attempts row)
        \<and> (jr_status row = Ready \<longrightarrow> jr_attempt_count row = 0 \<or> jr_attempt_count row < jr_max_attempts row)
        \<and> (jr_status row = Running \<longrightarrow> 1 \<le> jr_attempt_count row \<and> jd_claimed_by r \<noteq> None)"
    if r: "r \<in> set (js_rows st)" for r
  proof -
    have ri: "job_row_inv env r" using inv r by (simp add: jobs_inv_def)
    from is_ok_projr [OF map_row_ok [OF this]] obtain row where row: "map_row env r = Inr row" by blast
    have st: "jr_status row = Ready \<Longrightarrow> jd_status r = ''ready''" "jr_status row = Running \<Longrightarrow> jd_status r = ''running''"
      using map_row_Inr(5) [OF row] by (auto simp: parse_job_status_def split: if_splits)
    show ?thesis using ri row st map_row_Inr(3,4) [OF row] by (auto simp: job_row_inv_def)
  qed
  with inv show ?thesis by (simp add: jobs_inv_def tbl_ok_def)
qed

text \<open>C3: a claim takes only jobs that are ready, due, of the requested type and of the requested app,
  exactly as many of them as the limit allows (all of them for a negative limit), the oldest first and
  the lower id first among equally old ones; it marks them running under the worker's name and counts
  the attempt.  After any further calls of any workers, none of which fails one of these jobs, every
  claim succeeds and returns none of them.\<close>

theorem claim_exclusive:
  assumes "env_ok env" "jobs_inv env st"
  shows "let due = {r \<in> set (js_rows st). jd_status r = ''ready'' \<and> jd_available_at r \<le> epoch_ms_to_iso now
        \<and> (\<forall>x. ty = Some x \<longrightarrow> jd_job_type r = x) \<and> (\<forall>x. app = Some x \<longrightarrow> jd_app_id r = x)}
    in \<exists>jobs st1. claim_jobs env w ty l app now st = (Inr jobs, st1)
    \<and> jr_id ` set jobs \<subseteq> jd_row_id ` due \<and> length jobs = (if 0 \<le> l then min (nat l) (card due) else card due)
    \<and> distinct (map jr_id jobs)
    \<and> (\<forall>r \<in> due. \<forall>q \<in> due. jd_row_id r \<in> jr_id ` set jobs \<and> jd_row_id q \<notin> jr_id ` set jobs \<longrightarrow>
         jd_available_at r < jd_available_at q \<or> jd_available_at r = jd_available_at q \<and> jd_row_id r < jd_row_id q)
    \<and> js_rows st1 = map (\<lambda>r. if jd_row_id r \<in> jr_id ` set jobs
         then r\<lparr>jd_status := ''running'', jd_claimed_at := Some (epoch_ms_to_iso now), jd_claimed_by := Some w,
                jd_attempt_count := jd_attempt_count r + 1\<rparr> else r) (js_rows st)
    \<and> (\<forall>st2 w' ty' l' app' now'. (sparing_step env (jr_id ` set jobs))\<^sup>*\<^sup>* st1 st2 \<longrightarrow>
         (\<exists>jobs2 st3. claim_jobs env w' ty' l' app' now' st2 = (Inr jobs2, st3) \<and> jr_id ` set jobs \<inter> jr_id ` set jobs2 = {}))"
proof -
  define due where "due = {r \<in> set (js_rows st). jd_status r = ''ready'' \<and> jd_available_at r \<le> epoch_ms_to_iso now
        \<and> (\<forall>x. ty = Some x \<longrightarrow> jd_job_type r = x) \<and> (\<forall>x. app = Some x \<longrightarrow> jd_app_id r = x)}"
  let ?due = "due_jobs (epoch_ms_to_iso now) ty app st" and ?ids = "claimed_ids l ty app now st"
  have due: "set ?due = due" by (auto simp: set_due_jobs due_def matches_opt_def split: option.splits)
  obtain jobs st1 where c: "claim_jobs env w ty l app now st = (Inr jobs, st1)"
    and st1: "st1 = st\<lparr>js_rows := tbl_update (\<lambda>r. jd_row_id r \<in> ?ids)
      (\<lambda>r. r\<lparr>jd_status := ''running'', jd_claimed_at := Some (epoch_ms_to_iso now), jd_claimed_by := Some w,
             jd_attempt_count := jd_attempt_count r + 1\<rparr>) (js_rows st)\<rparr>"
    and ids: "jr_id ` set jobs = ?ids" "length jobs = card ?ids"
    by (rule claim_jobs_eq [OF assms(2), of w ty l app now]) blast
  have inj: "inj_on jd_row_id (set (js_rows st))" "distinct (js_rows st)"
    using assms(2) by (simp_all add: jobs_inv_def tbl_ok_def distinct_map)
  have sub: "?ids \<subseteq> jd_row_id ` due" using set_sql_limit by (fastforce simp: claimed_ids_def simp flip: due)
  have "distinct ?due" using inj(2) by (simp add: due_jobs_def order_by_def)
  from distinct_card [OF this] have n: "length ?due = card due" by (simp add: due)
  have len: "length jobs = (if 0 \<le> l then min (nat l) (card due) else card due)"
  proof (cases "0 \<le> l")
    case False
    then have "?ids = jd_row_id ` due" by (simp add: claimed_ids_def sql_limit_def due)
    moreover have "inj_on jd_row_id due" using inj(1) by (rule inj_on_subset) (auto simp: due_def)
    ultimately show ?thesis using False ids(2) by (simp add: card_image)
  qed (use ids(2) card_claimed_ids [OF assms(2)] n in simp)
  have oldest: "jd_available_at r < jd_available_at q \<or> jd_available_at r = jd_available_at q \<and> jd_row_id r < jd_row_id q"
    if h: "r \<in> due" "q \<in> due" "jd_row_id r \<in> ?ids" "jd_row_id q \<notin> ?ids" for r q
  proof -
    have "r \<in> set (sql_limit l ?due)" using claimed_ids_due [OF assms(2) _ h(3)] h(1) by (simp add: due_def)
    moreover have "q \<notin> set (sql_limit l ?due)" using h(4) by (auto simp: claimed_ids_def)
    moreover have "jd_row_id r \<noteq> jd_row_id q" using h(3,4) by auto
    ultimately show ?thesis using oldest_first [of r l "epoch_ms_to_iso now" ty app st q] h(2) by (simp add: due order_le_less)
  qed
  have t: "taken ?ids st1" "jobs_inv env st1"
  proof -
    have "\<forall>i \<in> ?ids. i < js_next_id st" using sub assms(2) by (auto simp: due_def jobs_inv_def)
    then show "taken ?ids st1" by (auto simp: st1 taken_def tbl_update_def)
    show "jobs_inv env st1" using claim_inv [OF assms(2), of w ty l app now] by (simp add: c)
  qed
  have later: "\<exists>jobs2 st3. claim_jobs env w' ty' l' app' now' st2 = (Inr jobs2, st3) \<and> ?ids \<inter> jr_id ` set jobs2 = {}"
    if "(sparing_step env ?ids)\<^sup>*\<^sup>* st1 st2" for st2 w' ty' l' app' now'
  proof -
    have "jobs_inv env st2" "taken ?ids st2" using sparing_steps [OF that assms(1) t(2,1)] by simp_all
    then show ?thesis by (rule claim_spares_taken) (intro exI conjI)
  qed
  have d: "distinct (map jr_id jobs)" using ids by (simp add: card_distinct)
  have rows: "js_rows st1 = map (\<lambda>r. if jd_row_id r \<in> ?ids
         then r\<lparr>jd_status := ''running'', jd_claimed_at := Some (epoch_ms_to_iso now), jd_claimed_by := Some w,
                jd_attempt_count := jd_attempt_count r + 1\<rparr> else r) (js_rows st)" by (simp add: st1 tbl_update_def)
  show ?thesis
    unfolding Let_def due_def [symmetric]
    by (rule exI [of _ jobs], rule exI [of _ st1], unfold ids(1), intro conjI ballI allI impI)
      (fact c sub len d rows | rule later, assumption | (erule conjE, rule oldest; assumption))+
qed

lemma job_backoff_bounds: "60000 \<le> job_backoff_ms n \<and> job_backoff_ms n \<le> 300000"
proof -
  have "(1::int) \<le> 2 ^ k" for k by simp
  then have "60000 \<le> (60000::int) * 2 ^ k" for k by (metis mult.right_neutral mult_le_cancel_left_pos zero_less_numeral)
  then show ?thesis by (simp add: job_backoff_ms_def Let_def BACKOFF_BASE_MS_def BACKOFF_CAP_MS_def)
qed

lemma job_backoff_values:
  "n \<le> 1 \<Longrightarrow> job_backoff_ms n = 60000" "job_backoff_ms 2 = 120000" "job_backoff_ms 3 = 240000"
  by (simp_all add: job_backoff_ms_def Let_def BACKOFF_BASE_MS_def BACKOFF_CAP_MS_def)

lemma fail_retry_rows:
  assumes "jobs_inv env st" "r \<in> set (js_rows st)" "jd_attempt_count r < jd_max_attempts r"
  shows "fail_job env (jd_row_id r) code msg True now st = (Inr (), st\<lparr>js_rows := tbl_update (\<lambda>q. jd_row_id q = jd_row_id r)
     (\<lambda>q. q\<lparr>jd_status := ''ready'', jd_available_at := epoch_ms_to_iso (now + job_backoff_ms (jd_attempt_count r)),
        jd_failed_at := Some (epoch_ms_to_iso now), jd_last_error_code := Some code, jd_last_error_message := Some msg,
        jd_claimed_at := None, jd_claimed_by := None\<rparr>) (js_rows st)\<rparr>)"
proof -
  have "job_row_inv env r" using assms(1,2) by (simp add: jobs_inv_def)
  from is_ok_projr [OF map_row_ok [OF this]] obtain row where row: "map_row env r = Inr row" by blast
  have "find (\<lambda>q. jd_row_id q = jd_row_id r \<and> matches_opt None (jd_tenant_id q) \<and> matches_opt None (jd_app_id q)) (js_rows st) = Some r"
    using tbl_get_iff [of jd_row_id "js_rows st" "jd_row_id r" r] assms(1,2) by (simp add: jobs_inv_def tbl_get_def matches_opt_def)
  then have "get_job_by_id env (jd_row_id r) None None st = Inr (Some row)" by (simp add: get_job_by_id_def row)
  with assms(3) map_row_Inr(3,4) [OF row] show ?thesis by (simp add: fail_job_def Let_def)
qed

lemma unrestricted:
  "i \<in> claimed_ids (-1) None None now st \<longleftrightarrow>
     (\<exists>q \<in> set (js_rows st). jd_row_id q = i \<and> jd_status q = ''ready'' \<and> jd_available_at q \<le> epoch_ms_to_iso now)"
  by (auto simp: claimed_ids_def sql_limit_def set_due_jobs matches_opt_def)

text \<open>C7: a failed job with attempts left is delayed by between one and five minutes: an unrestricted
  claim returns it exactly from the instant the backoff has passed, not before.\<close>

theorem retry_waits_for_backoff:
  assumes "jobs_inv env st" "r \<in> set (js_rows st)" "jd_attempt_count r < jd_max_attempts r"
    and "iso_range (now + job_backoff_ms (jd_attempt_count r))" "iso_range now'"
  shows "60000 \<le> job_backoff_ms (jd_attempt_count r) \<and> job_backoff_ms (jd_attempt_count r) \<le> 300000
    \<and> (\<exists>jobs st2. claim_jobs env w None (-1) None now' (snd (fail_job env (jd_row_id r) code msg True now st)) = (Inr jobs, st2)
        \<and> (jd_row_id r \<in> jr_id ` set jobs \<longleftrightarrow> now + job_backoff_ms (jd_attempt_count r) \<le> now'))"
proof -
  let ?at = "now + job_backoff_ms (jd_attempt_count r)" and ?st = "snd (fail_job env (jd_row_id r) code msg True now st)"
  have inv: "jobs_inv env ?st" by (rule fail_inv [OF assms(1)])
  obtain jobs st2 where c: "claim_jobs env w None (-1) None now' ?st = (Inr jobs, st2)"
    "jr_id ` set jobs = claimed_ids (-1) None None now' ?st"
    by (rule claim_jobs_eq [OF inv, of w None "-1" None now']) blast
  have rows: "q \<in> set (js_rows ?st) \<Longrightarrow> jd_row_id q = jd_row_id r \<Longrightarrow>
      jd_status q = ''ready'' \<and> jd_available_at q = epoch_ms_to_iso ?at" for q
    by (auto simp: fail_retry_rows [OF assms(1-3)] tbl_update_def)
  have ex: "\<exists>q \<in> set (js_rows ?st). jd_row_id q = jd_row_id r"
  proof -
    have "map jd_row_id (tbl_update p f rows) = map jd_row_id rows" if "\<And>q. jd_row_id (f q) = jd_row_id q" for p f and rows :: "job_db_row list"
      using that by (simp add: tbl_update_def)
    then have "map jd_row_id (js_rows ?st) = map jd_row_id (js_rows st)" by (simp add: fail_retry_rows [OF assms(1-3)])
    then have "jd_row_id ` set (js_rows ?st) = jd_row_id ` set (js_rows st)" by (metis set_map)
    with assms(2) show ?thesis by (metis imageE imageI)
  qed
  have "jd_row_id r \<in> claimed_ids (-1) None None now' ?st \<longleftrightarrow> epoch_ms_to_iso ?at \<le> epoch_ms_to_iso now'"
    unfolding unrestricted using rows ex by metis
  also have "\<dots> \<longleftrightarrow> ?at \<le> now'"
    using epoch_ms_to_iso_less_iff [OF assms(5,4)] by (simp flip: not_less)
  finally show ?thesis using c job_backoff_bounds by blast
qed

section \<open>Idempotent enqueue\<close>

definition job_idents :: "job_db_row list \<Rightarrow> (int \<times> string \<times> string \<times> string \<times> string option) set" where
  "job_idents rows = (\<lambda>r. (jd_row_id r, job_ident r)) ` set rows"

lemma job_idents_update:
  assumes "\<And>q. jd_row_id (f q) = jd_row_id q \<and> job_ident (f q) = job_ident q"
  shows "job_idents (tbl_update p f rows) = job_idents rows"
proof -
  have "map (\<lambda>r. (jd_row_id r, job_ident r)) (tbl_update p f rows) = map (\<lambda>r. (jd_row_id r, job_ident r)) rows"
    using assms by (simp add: tbl_update_def)
  from arg_cong [OF this, of set] show ?thesis by (simp only: job_idents_def set_map)
qed

lemma job_step_idents: "job_step env st st' \<Longrightarrow> job_idents (js_rows st) \<subseteq> job_idents (js_rows st')"
proof (induction rule: job_step.induct)
  case (step_enqueue nonce st input now)
  then show ?case
    by (auto simp: enqueue_job_eq enqueue_insert_def job_idents_def dest!: insert_job_Inr(2) split: sum.splits option.splits)
next
  case (step_claim st w ty l app now)
  show ?case unfolding claim_jobs_def Let_def snd_conv by (simp, subst job_idents_update) (simp_all add: job_ident_def)
next
  case (step_complete nonce st i res now)
  show ?case
    by (simp add: complete_job_eq Let_def split: option.split sum.split)
      (intro conjI allI impI; subst job_idents_update; simp add: job_ident_def)
next
  case (step_fail st i code msg retry now)
  show ?case
    by (simp add: fail_job_def Let_def split: option.split sum.split)
      (intro conjI allI impI; subst job_idents_update; simp add: job_ident_def)
qed

lemma job_steps_idents: "(job_step env)\<^sup>*\<^sup>* st st' \<Longrightarrow> job_idents (js_rows st) \<subseteq> job_idents (js_rows st')"
  by (induction rule: rtranclp_induct) (use job_step_idents in blast)+

lemma job_steps_inv: "(job_step env)\<^sup>*\<^sup>* st st' \<Longrightarrow> env_ok env \<Longrightarrow> jobs_inv env st \<Longrightarrow> jobs_inv env st'"
  by (induction rule: rtranclp_induct) (auto intro: job_step_inv)

definition input_ident :: "enqueue_input \<Rightarrow> string \<times> string \<times> string \<times> string option" where
  "input_ident input = (case en_app_id input of Some a \<Rightarrow> a | None \<Rightarrow> DEFAULT_APP_ID, en_tenant_id input,
     en_job_type input, en_idempotency_key input)"

lemma transpose_find_Inr:
  assumes "transpose_row env (find p rows) = Inr (Some row)"
  obtains r where "r \<in> set rows" "p r" "map_row env r = Inr row"
  using assms by (cases "find p rows") (auto dest: find_Some_set)

lemma lookup_known:
  assumes "jobs_inv env st" "(i, input_ident input) \<in> job_idents (js_rows st)" "en_idempotency_key input = Some key"
  shows "\<exists>row. enqueue_lookup env input st = Inr (Some row) \<and> jr_id row = i"
proof -
  let ?p = "\<lambda>r. jd_app_id r = (case en_app_id input of Some a \<Rightarrow> a | None \<Rightarrow> DEFAULT_APP_ID)
    \<and> jd_tenant_id r = en_tenant_id input \<and> jd_job_type r = en_job_type input \<and> jd_idempotency_key r = Some key"
  have p: "?p r \<longleftrightarrow> job_ident r = input_ident input" for r by (auto simp: job_ident_def input_ident_def assms(3))
  from assms(2) obtain r where r: "r \<in> set (js_rows st)" "jd_row_id r = i" "job_ident r = input_ident input"
    by (auto simp: job_idents_def)
  then obtain q where f: "find ?p (js_rows st) = Some q" using p find_None_iff [of ?p "js_rows st"] by (cases "find ?p (js_rows st)") auto
  from find_Some_set [OF f] have q: "q \<in> set (js_rows st)" "job_ident q = input_ident input" using p by auto
  have "jd_idempotency_key q \<noteq> None" using q(2) by (simp add: job_ident_def input_ident_def assms(3))
  with q r assms(1) have "q = r" unfolding jobs_inv_def by metis
  have "job_row_inv env q" using q(1) assms(1) by (simp add: jobs_inv_def)
  from is_ok_projr [OF map_row_ok [OF this]] obtain row where row: "map_row env q = Inr row" by blast
  show ?thesis
    using f row map_row_Inr(1) [OF row] r(2) \<open>q = r\<close>
    by (simp add: enqueue_lookup_def find_by_idempotency_key_def assms(3))
qed

lemma enqueue_known:
  assumes "enqueue_job env nonce input now st = (Inr row, st1)" "en_idempotency_key input = Some key"
  shows "(jr_id row, input_ident input) \<in> job_idents (js_rows st1)"
proof (cases "enqueue_lookup env input st")
  case (Inl e)
  then show ?thesis using assms(1) by (simp add: enqueue_job_eq)
next
  case (Inr found)
  show ?thesis
  proof (cases found)
    case (Some existing)
    with Inr assms(1) have e: "existing = row" "st1 = st" by (simp_all add: enqueue_job_eq)
    from Inr [unfolded Some] assms(2) obtain r where r: "r \<in> set (js_rows st)" "job_ident r = input_ident input" "map_row env r = Inr existing"
      by (auto simp: enqueue_lookup_def find_by_idempotency_key_def job_ident_def input_ident_def elim!: transpose_find_Inr)
    have "jr_id row = jd_row_id r" using map_row_Inr(1) [OF r(3)] e by simp
    with r e(2) show ?thesis by (auto simp: job_idents_def)
  next
    case None
    with Inr assms(1) obtain i where ins: "enqueue_insert env nonce input now st = Inr (i, st1)"
      and g: "get_job_by_id env i None None st1 = Inr (Some row)"
      by (auto simp: enqueue_job_eq ok_or_def split: sum.splits option.splits)
    from ins obtain packed where "insert_job env (new_job input packed now) st = Inr (i, st1)"
      by (auto simp: enqueue_insert_def)
    note j = insert_job_Inr(1,2) [OF this]
    from g have "jr_id row = i" by (auto simp: get_job_by_id_def dest: map_row_Inr(1) elim!: transpose_find_Inr)
    then show ?thesis using j by (simp add: job_idents_def job_ident_def input_ident_def new_job_def)
  qed
qed

text \<open>C11: enqueueing again with the same app, tenant, type and idempotency key returns the job that
  exists for it and adds nothing, in whatever state further calls have brought that job.\<close>

theorem enqueue_idempotent:
  assumes "env_ok env" "jobs_inv env st" "length nonce = NONCE_LEN"
    and "enqueue_job env nonce input now st = (Inr row, st1)" "en_idempotency_key input = Some key"
    and "(job_step env)\<^sup>*\<^sup>* st1 st2" "input_ident input' = input_ident input"
  shows "\<exists>row'. enqueue_job env nonce' input' now' st2 = (Inr row', st2) \<and> jr_id row' = jr_id row"
proof -
  have inv1: "jobs_inv env st1" using enqueue_inv [OF assms(1,3,2), of input now] by (simp add: assms(4))
  have inv2: "jobs_inv env st2" by (rule job_steps_inv [OF assms(6,1) inv1])
  have "(jr_id row, input_ident input') \<in> job_idents (js_rows st2)"
    using enqueue_known [OF assms(4,5)] job_steps_idents [OF assms(6)] assms(7) by auto
  moreover have "en_idempotency_key input' = Some key" using assms(5,7) by (simp add: input_ident_def)
  ultimately obtain row' where "enqueue_lookup env input' st2 = Inr (Some row')" "jr_id row' = jr_id row"
    using lookup_known [OF inv2] by blast
  then show ?thesis by (simp add: enqueue_job_eq)
qed

text \<open>Failing has no guard on the status: a job that already completed is made ready again and will
  be claimed and run once more.\<close>

lemma fail_revives_completed:
  assumes "jobs_inv env st" "r \<in> set (js_rows st)" "jd_attempt_count r < jd_max_attempts r"
  shows "\<forall>q \<in> set (js_rows (snd (fail_job env (jd_row_id r) code msg True now st))). jd_row_id q = jd_row_id r \<longrightarrow> jd_status q = ''ready''"
  by (auto simp: fail_retry_rows [OF assms] tbl_update_def)


section \<open>A job's life\<close>

definition no_jobs :: jobs_state where "no_jobs = \<lparr>js_rows = [], js_next_id = 1\<rparr>"

definition sample_job :: enqueue_input where
  "sample_job = \<lparr>en_tenant_id = ''t'', en_app_id = None, en_job_type = ''push'', en_payload = VNil,
     en_idempotency_key = Some ''k1'', en_available_at = None, en_max_attempts = Some 3\<rparr>"

definition job_queued :: jobs_state where
  "job_queued = snd (enqueue_job sample_env sample_nonce sample_job 1700000000000 no_jobs)"

definition job_claimed :: jobs_state where
  "job_claimed = snd (claim_jobs sample_env ''w1'' None 10 None 1700000001000 job_queued)"

lemma no_jobs_reachable: "jobs_reachable sample_env no_jobs" "jobs_inv sample_env no_jobs"
  using jobs_reachable_inv [OF _ sample_env_ok(1)] by (auto simp: no_jobs_def intro: jobs_reachable.empty_queue)

lemma sample_steps: "job_step sample_env no_jobs job_queued" "job_step sample_env job_queued job_claimed"
  unfolding job_queued_def job_claimed_def by (rule job_step.intros; simp add: NONCE_LEN_def)+

lemma job_claimed_reachable: "jobs_reachable sample_env job_claimed" "jobs_inv sample_env job_claimed" "jobs_inv sample_env job_queued"
proof -
  have q: "jobs_reachable sample_env job_queued" by (rule jobs_reachable.next_state [OF no_jobs_reachable(1) sample_steps(1)])
  show c: "jobs_reachable sample_env job_claimed" by (rule jobs_reachable.next_state [OF q sample_steps(2)])
  show "jobs_inv sample_env job_claimed" "jobs_inv sample_env job_queued"
    using jobs_reachable_inv [OF _ sample_env_ok(1)] q c by blast+
qed

theorem job_queue_invariant_witness:
  "distinct (map jd_row_id (js_rows job_claimed)) \<and> map jd_status (js_rows job_claimed) = [''running'']"
proof -
  have "map jd_status (js_rows job_claimed) = [''running'']" by code_simp
  then show ?thesis using job_queue_invariant [OF sample_env_ok(1) job_claimed_reachable(1)] by blast
qed

theorem claim_exclusive_witness:
  "\<exists>jobs st1. claim_jobs sample_env ''w1'' None 10 None 1700000001000 job_queued = (Inr jobs, st1) \<and> length jobs = 1
     \<and> (\<exists>jobs2 st2. claim_jobs sample_env ''w2'' None 10 None 1700000002000 st1 = (Inr jobs2, st2)
          \<and> jr_id ` set jobs \<inter> jr_id ` set jobs2 = {})"
proof -
  let ?due = "{r \<in> set (js_rows job_queued). jd_status r = ''ready'' \<and> jd_available_at r \<le> epoch_ms_to_iso 1700000001000
        \<and> (\<forall>x. None = Some x \<longrightarrow> jd_job_type r = x) \<and> (\<forall>x. None = Some x \<longrightarrow> jd_app_id r = x)}"
  have "length (js_rows job_queued) = 1" "list_all (\<lambda>r. jd_status r = ''ready'' \<and> jd_available_at r \<le> epoch_ms_to_iso 1700000001000) (js_rows job_queued)"
    by code_simp+
  then have n: "card ?due = 1" by (cases "js_rows job_queued") (auto simp: Collect_conv_if)
  from claim_exclusive [OF sample_env_ok(1) job_claimed_reachable(3), of 1700000001000 None None "''w1''" 10]
  obtain jobs st1 where j: "claim_jobs sample_env ''w1'' None 10 None 1700000001000 job_queued = (Inr jobs, st1)"
    "length jobs = 1" "\<forall>st2 w' ty' l' app' now'. (sparing_step sample_env (jr_id ` set jobs))\<^sup>*\<^sup>* st1 st2 \<longrightarrow>
         (\<exists>jobs2 st3. claim_jobs sample_env w' ty' l' app' now' st2 = (Inr jobs2, st3) \<and> jr_id ` set jobs \<inter> jr_id ` set jobs2 = {})"
    unfolding Let_def n by (clarsimp simp del: split_paired_Ex)
  then show ?thesis by (intro exI [of _ jobs] exI [of _ st1]) (simp del: split_paired_Ex)
qed

theorem retry_waits_for_backoff_witness:
  "\<exists>r \<in> set (js_rows job_claimed). \<exists>jobs st2. claim_jobs sample_env ''w2'' None (-1) None 1700000061999
       (snd (fail_job sample_env (jd_row_id r) ''E'' ''down'' True 1700000002000 job_claimed)) = (Inr jobs, st2)
     \<and> jd_row_id r \<notin> jr_id ` set jobs"
proof -
  have "list_ex (\<lambda>r. jd_attempt_count r = 1 \<and> jd_max_attempts r = 3) (js_rows job_claimed)" by code_simp
  then obtain r where r: "r \<in> set (js_rows job_claimed)" "jd_attempt_count r = 1" "jd_max_attempts r = 3" by (auto simp: list_ex_iff)
  have b: "job_backoff_ms 1 = 60000" by code_simp
  from retry_waits_for_backoff [OF job_claimed_reachable(2) r(1), of 1700000002000 1700000061999 "''w2''" "''E''" "''down''"] r b
  show ?thesis by (auto simp: iso_range_def)
qed

theorem enqueue_idempotent_witness:
  "\<exists>row row'. fst (enqueue_job sample_env sample_nonce sample_job 1700000000000 no_jobs) = Inr row
     \<and> enqueue_job sample_env sample_nonce (sample_job\<lparr>en_max_attempts := None\<rparr>) 1700000005000 job_claimed = (Inr row', job_claimed)
     \<and> jr_id row' = jr_id row"
proof -
  have "is_ok (fst (enqueue_job sample_env sample_nonce sample_job 1700000000000 no_jobs))" by code_simp
  from is_ok_projr [OF this] obtain row
    where r: "enqueue_job sample_env sample_nonce sample_job 1700000000000 no_jobs = (Inr row, job_queued)"
    unfolding job_queued_def by (metis prod.collapse)
  have s: "(job_step sample_env)\<^sup>*\<^sup>* job_queued job_claimed" using sample_steps(2) by blast
  from enqueue_idempotent [OF sample_env_ok(1) no_jobs_reachable(2) _ r _ s, of "''k1''" "sample_job\<lparr>en_max_attempts := None\<rparr>" sample_nonce 1700000005000]
  obtain row' where "enqueue_job sample_env sample_nonce (sample_job\<lparr>en_max_attempts := None\<rparr>) 1700000005000 job_claimed = (Inr row', job_claimed)"
    "jr_id row' = jr_id row" by (auto simp: NONCE_LEN_def sample_job_def input_ident_def)
  with r show ?thesis by (intro exI [of _ row] exI [of _ row']) simp
qed

end
