(* ===== verification/FrickServerError.thy ===== *)
theory FrickServerError
  imports FrickCompat
begin

text \<open>
  The server's error taxonomy (\<open>frick-server/src/error.rs\<close>): the HTTP status, the protocol error code
  and the wire envelope of every error value.
\<close>

datatype limit_kind =
    MaxBlobBytes | MaxBlobBytesPerPrincipal | MaxStreamAppendPayloadBytes | MaxSseConnections
  | MaxAuthAttemptsPerWindow | OtherLimit

datatype server_error =
    Authentication string
  | SessionExpired
  | Authorization string "string option"
  | CorsOriginRejected
  | UnknownTenant string
  | EmailTaken
  | Limit limit_kind "value"
  | BlobValidationRejected string string "string option"
  | InvalidStreamCursor
  | ProjectionNotFound string
  | ProviderNotConfigured string
  | SearchIndexNotFound string
  | InvalidSearchQuery
  | AdminAuditWrite
  | StorageConflictError "value"
  | BadRequest string
  | Internal

text \<open>The \<open>Display\<close> text of each variant.\<close>

fun server_error_text :: "server_error \<Rightarrow> string" where
  "server_error_text (Authentication message) = message"
| "server_error_text SessionExpired = ''session expired''"
| "server_error_text (Authorization message reason) = message"
| "server_error_text CorsOriginRejected = ''origin not allowed''"
| "server_error_text (UnknownTenant tenant_id) = ''unknown tenant: '' @ tenant_id"
| "server_error_text EmailTaken = ''An account with that email already exists''"
| "server_error_text (Limit kind detail) = ''limit exceeded''"
| "server_error_text (BlobValidationRejected message processor_id rejection_reason) = message"
| "server_error_text InvalidStreamCursor = ''invalid stream cursor''"
| "server_error_text (ProjectionNotFound projection) = ''projection not found: '' @ projection"
| "server_error_text (ProviderNotConfigured provider) = provider @ '' provider not configured''"
| "server_error_text (SearchIndexNotFound index) = ''Search index '' @ [CHR 0x22] @ index @ [CHR 0x22] @ '' not found''"
| "server_error_text InvalidSearchQuery = ''Invalid search query''"
| "server_error_text AdminAuditWrite = ''admin audit write failed''"
| "server_error_text (StorageConflictError detail) = ''storage conflict''"
| "server_error_text (BadRequest message) = message"
| "server_error_text Internal = ''internal error''"

fun http_status :: "server_error \<Rightarrow> nat" where
  "http_status (Authentication _) = 401"
| "http_status SessionExpired = 401"
| "http_status (Authorization _ _) = 403"
| "http_status CorsOriginRejected = 403"
| "http_status (UnknownTenant _) = 403"
| "http_status (Limit kind _) = (case kind of MaxSseConnections \<Rightarrow> 429 | MaxAuthAttemptsPerWindow \<Rightarrow> 429 | _ \<Rightarrow> 413)"
| "http_status (BlobValidationRejected _ _ _) = 415"
| "http_status (ProjectionNotFound _) = 404"
| "http_status (SearchIndexNotFound _) = 404"
| "http_status (ProviderNotConfigured _) = 404"
| "http_status AdminAuditWrite = 500"
| "http_status Internal = 500"
| "http_status EmailTaken = 409"
| "http_status (StorageConflictError _) = 409"
| "http_status InvalidStreamCursor = 400"
| "http_status (BadRequest _) = 400"
| "http_status InvalidSearchQuery = 400"

fun server_error_code :: "server_error \<Rightarrow> frick_error_code" where
  "server_error_code SessionExpired = AuthSessionExpired"
| "server_error_code (Authentication _) = AuthUnauthenticated"
| "server_error_code (Authorization _ _) = AuthForbidden"
| "server_error_code CorsOriginRejected = AuthForbidden"
| "server_error_code (UnknownTenant _) = AuthForbidden"
| "server_error_code (BlobValidationRejected _ _ _) = BlobUnsupportedContentType"
| "server_error_code InvalidStreamCursor = StreamInvalidCursor"
| "server_error_code (StorageConflictError _) = StorageConflict"
| "server_error_code EmailTaken = StorageConflict"
| "server_error_code (ProjectionNotFound _) = StorageNotFound"
| "server_error_code (SearchIndexNotFound _) = StorageNotFound"
| "server_error_code (ProviderNotConfigured _) = StorageNotFound"
| "server_error_code AdminAuditWrite = ServerInternal"
| "server_error_code Internal = ServerInternal"
| "server_error_code (Limit kind _) = (case kind of
      MaxBlobBytes \<Rightarrow> BlobTooLarge
    | MaxBlobBytesPerPrincipal \<Rightarrow> BlobQuotaExceeded
    | MaxStreamAppendPayloadBytes \<Rightarrow> StreamAppendRejected
    | _ \<Rightarrow> RateLimitExceeded)"
| "server_error_code (BadRequest _) = SyncProtocolError"
| "server_error_code InvalidSearchQuery = SyncProtocolError"

text \<open>The details an error adds behind the route code.\<close>

definition detail_entries :: "value \<Rightarrow> (string \<times> value) list" where
  "detail_entries detail = (case detail of
      VMap entries \<Rightarrow> map (\<lambda>(k, v). (case as_str k of Some s \<Rightarrow> s | None \<Rightarrow> [], v)) entries
    | _ \<Rightarrow> [])"

fun extra_details :: "server_error \<Rightarrow> (string \<times> value) list" where
  "extra_details (Authorization _ (Some reason)) = [(''reason'', VString reason)]"
| "extra_details (UnknownTenant tenant_id) = [(''reason'', VString ''unknownTenant''), (''tenantId'', VString tenant_id)]"
| "extra_details EmailTaken = [(''reason'', VString ''emailTaken'')]"
| "extra_details (ProjectionNotFound projection) = [(''projection'', VString projection)]"
| "extra_details (ProviderNotConfigured provider) =
     [(''reason'', VString ''providerNotConfigured''), (''provider'', VString provider)]"
| "extra_details (SearchIndexNotFound index) = [(''reason'', VString ''searchIndexNotFound''), (''index'', VString index)]"
| "extra_details InvalidSearchQuery = [(''reason'', VString ''invalidSearchQuery'')]"
| "extra_details (BlobValidationRejected _ processor_id rejection_reason) =
     [(''reason'', VString ''blobValidationRejected''), (''processorId'', VString processor_id)]
     @ (case rejection_reason of Some r \<Rightarrow> [(''rejectionReason'', VString r)] | None \<Rightarrow> [])"
| "extra_details (Limit _ detail) = detail_entries detail"
| "extra_details (StorageConflictError detail) = detail_entries detail"
| "extra_details _ = []"

definition to_envelope :: "server_error \<Rightarrow> string \<Rightarrow> error_envelope" where
  "to_envelope e request_id =
     \<lparr>ee_code = server_error_code e, ee_message = server_error_text e, ee_request_id = request_id,
      ee_retryable = (case e of Limit MaxAuthAttemptsPerWindow _ \<Rightarrow> True | _ \<Rightarrow> False),
      ee_details = Some (VMap (map (\<lambda>(k, v). (VString k, v)) ((''routeCode'', VString request_id) # extra_details e))),
      ee_schema_hash = Some (sc_hash foundation_schema),
      ee_schema_revision = Some (sc_schema_revision foundation_schema)\<rparr>"

text \<open>The status and the code of every error tell one story: unauthenticated is 401, forbidden
  403, absent 404, conflicting 409, rejected content 415, internal 500; a limit is 413 or 429, 429
  exactly with the rate-limit code unless the limit is an unclassified one; only the attempt limit
  is marked retryable; and the envelope passes the protocol's shape check and carries the request id.\<close>

theorem server_error_wire:
  "(http_status e = 401 \<longleftrightarrow> server_error_code e \<in> {AuthUnauthenticated, AuthSessionExpired})
   \<and> (http_status e = 403 \<longleftrightarrow> server_error_code e = AuthForbidden)
   \<and> (http_status e = 404 \<longleftrightarrow> server_error_code e = StorageNotFound)
   \<and> (http_status e = 409 \<longleftrightarrow> server_error_code e = StorageConflict)
   \<and> (http_status e = 415 \<longleftrightarrow> server_error_code e = BlobUnsupportedContentType)
   \<and> (http_status e = 500 \<longleftrightarrow> server_error_code e = ServerInternal)
   \<and> (http_status e = 400 \<longleftrightarrow> server_error_code e \<in> {SyncProtocolError, StreamInvalidCursor})
   \<and> (http_status e = 429 \<longleftrightarrow> server_error_code e = RateLimitExceeded \<and> (\<forall>d. e \<noteq> Limit OtherLimit d))
   \<and> (ee_retryable (to_envelope e r) \<longleftrightarrow> (\<exists>d. e = Limit MaxAuthAttemptsPerWindow d))
   \<and> is_envelope_value (envelope_value (to_envelope e r))
   \<and> parse_error_code (error_code_as_str (ee_code (to_envelope e r))) = Some (server_error_code e)"
proof (intro conjI)
  show "is_envelope_value (envelope_value (to_envelope e r))" by (simp add: envelope_shape to_envelope_def)
  show "parse_error_code (error_code_as_str (ee_code (to_envelope e r))) = Some (server_error_code e)"
    by (simp add: to_envelope_def)
qed (cases e; auto simp: to_envelope_def split: limit_kind.splits)+

end
