(* ===== verification/FrickCredentials.thy ===== *)
theory FrickCredentials
  imports FrickServerError FrickAuthz FrickEncryption FrickNet FrickTable FrickIso
begin

text \<open>
  Bearer credentials: the session store (\<open>stores/session.rs\<close>), the refresh-token store with rotation
  and reuse detection (\<open>stores/refresh_token.rs\<close>), the tenant ledger (\<open>stores/tenant.rs\<close>), the
  resolution of a request's token to a principal (\<open>frick-server/src/session.rs\<close>, \<open>extract.rs\<close>), and the
  session authorization hook as a function.

  The stores keep only a digest of a token.  The digest (SHA-256, printed in hex or base64url) is a
  parameter; where a statement needs it, it is assumed to separate the tokens in question.
\<close>

type_synonym digest = "string \<Rightarrow> string"

section \<open>Sessions\<close>

record stored_session =
  ss_session_token :: string
  ss_tenant_id :: string
  ss_user_id :: string
  ss_device_id :: string
  ss_replica_id :: string
  ss_expires_at :: string
  ss_created_at :: string
  ss_last_seen_at :: string

record create_session_input =
  cs_session_token :: string
  cs_tenant_id :: string
  cs_user_id :: string
  cs_device_id :: string
  cs_replica_id :: string
  cs_expires_at :: string

record session_row =
  se_token_digest :: string
  se_tenant_id :: string
  se_user_id :: string
  se_device_id :: string
  se_replica_id :: string
  se_expires_at :: string
  se_created_at :: string
  se_last_seen_at :: string

type_synonym sessions = "session_row list"

text \<open>The expiry rule both stores share: an unparseable expiry never expires.\<close>

definition expired_at :: "string \<Rightarrow> int \<Rightarrow> bool" where
  "expired_at expires_at now_ms = (case parse_iso_ms_opt expires_at of
     Some expires_ms \<Rightarrow> expires_ms \<le> now_ms | None \<Rightarrow> False)"

definition create_session ::
  "digest \<Rightarrow> string \<Rightarrow> create_session_input \<Rightarrow> int \<Rightarrow> sessions \<Rightarrow> (store_error, stored_session \<times> sessions) result" where
  "create_session digest unique_error input now_ms rows =
    (let now = iso_from_epoch_ms_blob now_ms;
         row = \<lparr>se_token_digest = digest (cs_session_token input), se_tenant_id = cs_tenant_id input,
                se_user_id = cs_user_id input, se_device_id = cs_device_id input, se_replica_id = cs_replica_id input,
                se_expires_at = cs_expires_at input, se_created_at = now, se_last_seen_at = now\<rparr>
     in if tbl_get se_token_digest (se_token_digest row) rows \<noteq> None then Err (Driver unique_error)
        else Ok (\<lparr>ss_session_token = cs_session_token input, ss_tenant_id = cs_tenant_id input,
                  ss_user_id = cs_user_id input, ss_device_id = cs_device_id input, ss_replica_id = cs_replica_id input,
                  ss_expires_at = cs_expires_at input, ss_created_at = now, ss_last_seen_at = now\<rparr>, rows @ [row]))"

definition session_from_row :: "string \<Rightarrow> session_row \<Rightarrow> stored_session" where
  "session_from_row session_token row =
     \<lparr>ss_session_token = session_token, ss_tenant_id = se_tenant_id row, ss_user_id = se_user_id row,
      ss_device_id = se_device_id row, ss_replica_id = se_replica_id row, ss_expires_at = se_expires_at row,
      ss_created_at = se_created_at row, ss_last_seen_at = se_last_seen_at row\<rparr>"

definition read_active_session :: "digest \<Rightarrow> string \<Rightarrow> int \<Rightarrow> sessions \<Rightarrow> stored_session option \<times> sessions" where
  "read_active_session digest session_token now_ms rows =
    (case tbl_get se_token_digest (digest session_token) rows of
       None \<Rightarrow> (None, rows)
     | Some row \<Rightarrow>
         if expired_at (se_expires_at row) now_ms then (None, rows)
         else let now = iso_from_epoch_ms_blob now_ms in
           (Some ((session_from_row session_token row)\<lparr>ss_last_seen_at := now\<rparr>),
            tbl_update (\<lambda>r. se_token_digest r = digest session_token) (\<lambda>r. r\<lparr>se_last_seen_at := now\<rparr>) rows))"

definition read_any_session :: "digest \<Rightarrow> string \<Rightarrow> sessions \<Rightarrow> stored_session option" where
  "read_any_session digest session_token rows =
     map_option (session_from_row session_token) (tbl_get se_token_digest (digest session_token) rows)"

definition delete_session :: "digest \<Rightarrow> string \<Rightarrow> sessions \<Rightarrow> bool \<times> sessions" where
  "delete_session digest session_token rows =
     (tbl_get se_token_digest (digest session_token) rows \<noteq> None, tbl_delete se_token_digest (digest session_token) rows)"

definition delete_sessions_for_user :: "string \<Rightarrow> string option \<Rightarrow> sessions \<Rightarrow> nat \<times> sessions" where
  "delete_sessions_for_user user_id tenant_id rows =
    (let hit = (\<lambda>r. se_user_id r = user_id \<and> (case tenant_id of Some t \<Rightarrow> se_tenant_id r = t | None \<Rightarrow> True))
     in (length (filter hit rows), filter (\<lambda>r. \<not> hit r) rows))"

definition prune_expired_sessions :: "string \<Rightarrow> sessions \<Rightarrow> nat \<times> sessions" where
  "prune_expired_sessions cutoff_iso rows =
     (length (filter (\<lambda>r. se_expires_at r \<le> cutoff_iso) rows), filter (\<lambda>r. \<not> se_expires_at r \<le> cutoff_iso) rows)"

record user_device =
  ud_device_id :: string
  ud_replica_id :: string
  ud_last_seen_at :: string

fun first_per_device :: "int \<Rightarrow> string list \<Rightarrow> sessions \<Rightarrow> user_device list" where
  "first_per_device now_ms seen [] = []"
| "first_per_device now_ms seen (row # rows) =
    (if expired_at (se_expires_at row) now_ms then first_per_device now_ms seen rows
     else if se_device_id row \<in> set seen then first_per_device now_ms seen rows
     else \<lparr>ud_device_id = se_device_id row, ud_replica_id = se_replica_id row, ud_last_seen_at = se_last_seen_at row\<rparr>
          # first_per_device now_ms (se_device_id row # seen) rows)"

definition list_active_devices_for_user :: "string \<Rightarrow> string option \<Rightarrow> int \<Rightarrow> sessions \<Rightarrow> user_device list" where
  "list_active_devices_for_user user_id tenant_id now_ms rows =
     first_per_device now_ms [] (order_by se_device_id (order_by_desc se_last_seen_at
       (filter (\<lambda>r. se_user_id r = user_id \<and> (case tenant_id of Some t \<Rightarrow> se_tenant_id r = t | None \<Rightarrow> True)) rows)))"

fun keep_first :: "string list \<Rightarrow> string list \<Rightarrow> string list" where
  "keep_first seen [] = []"
| "keep_first seen (x # xs) = (if x \<in> set seen then keep_first seen xs else x # keep_first (x # seen) xs)"

definition fan_out_targets :: "user_device list \<Rightarrow> string \<Rightarrow> string list" where
  "fan_out_targets devices origin_device_id =
     keep_first [] (filter (\<lambda>i. i \<noteq> origin_device_id) (map ud_device_id devices))"

section \<open>Refresh tokens\<close>

definition DEFAULT_REFRESH_TTL_SECONDS :: int where "DEFAULT_REFRESH_TTL_SECONDS = 30 * 24 * 60 * 60"

record issued_refresh_token =
  it_token :: string
  it_tenant_id :: string
  it_user_id :: string
  it_device_id :: string
  it_replica_id :: string
  it_expires_at :: string

record refresh_token_record =
  rr_tenant_id :: string
  rr_user_id :: string
  rr_device_id :: string
  rr_replica_id :: string
  rr_expires_at :: string

record token_row =
  tr_token_hash :: string
  tr_tenant_id :: string
  tr_user_id :: string
  tr_device_id :: string
  tr_replica_id :: string
  tr_created_at :: string
  tr_expires_at :: string
  tr_revoked_at :: "string option"
  tr_family_id :: "string option"

type_synonym tokens = "token_row list"

definition insert_token :: "string \<Rightarrow> token_row \<Rightarrow> tokens \<Rightarrow> (store_error, tokens) result" where
  "insert_token unique_error row rows =
     (if tbl_get tr_token_hash (tr_token_hash row) rows \<noteq> None then Err (Driver unique_error) else Ok (rows @ [row]))"

definition issue_token ::
  "digest \<Rightarrow> string \<Rightarrow> string \<Rightarrow> string \<Rightarrow> string \<Rightarrow> string \<Rightarrow> string \<Rightarrow> string \<Rightarrow> int \<Rightarrow> int \<Rightarrow> tokens
    \<Rightarrow> (store_error, issued_refresh_token \<times> tokens) result" where
  "issue_token digest unique_error token family_id tenant_id user_id device_id replica_id ttl_seconds now_ms rows =
    (let expires_at = iso_from_epoch_ms_blob (now_ms + ttl_seconds * 1000)
     in rbind (insert_token unique_error
          \<lparr>tr_token_hash = digest token, tr_tenant_id = tenant_id, tr_user_id = user_id, tr_device_id = device_id,
           tr_replica_id = replica_id, tr_created_at = iso_from_epoch_ms_blob now_ms, tr_expires_at = expires_at,
           tr_revoked_at = None, tr_family_id = Some family_id\<rparr> rows) (\<lambda>rows'.
        Ok (\<lparr>it_token = token, it_tenant_id = tenant_id, it_user_id = user_id, it_device_id = device_id,
             it_replica_id = replica_id, it_expires_at = expires_at\<rparr>, rows')))"

definition token_record :: "token_row \<Rightarrow> refresh_token_record" where
  "token_record row = \<lparr>rr_tenant_id = tr_tenant_id row, rr_user_id = tr_user_id row, rr_device_id = tr_device_id row,
     rr_replica_id = tr_replica_id row, rr_expires_at = tr_expires_at row\<rparr>"

definition read_active_token :: "digest \<Rightarrow> string \<Rightarrow> int \<Rightarrow> tokens \<Rightarrow> refresh_token_record option" where
  "read_active_token digest token now_ms rows =
    (case tbl_get tr_token_hash (digest token) rows of
       None \<Rightarrow> None
     | Some row \<Rightarrow> if tr_revoked_at row \<noteq> None then None
                   else if expired_at (tr_expires_at row) now_ms then None
                   else Some (token_record row))"

definition rotate_token ::
  "digest \<Rightarrow> string \<Rightarrow> string \<Rightarrow> string \<Rightarrow> int \<Rightarrow> int \<Rightarrow> tokens
    \<Rightarrow> (store_error, issued_refresh_token option \<times> tokens) result" where
  "rotate_token digest unique_error token fresh_token ttl_seconds now_ms rows =
    (let presented_hash = digest token;
         now_iso = iso_from_epoch_ms_blob now_ms;
         expires_at = iso_from_epoch_ms_blob (now_ms + ttl_seconds * 1000)
     in case tbl_get tr_token_hash presented_hash rows of
       None \<Rightarrow> Ok (None, rows)
     | Some row \<Rightarrow>
         if tr_revoked_at row \<noteq> None then
           (case tr_family_id row of
              Some family \<Rightarrow> Ok (None, tbl_update (\<lambda>r. tr_family_id r = Some family \<and> tr_revoked_at r = None)
                                      (\<lambda>r. r\<lparr>tr_revoked_at := Some now_iso\<rparr>) rows)
            | None \<Rightarrow> Ok (None, rows))
         else if expired_at (tr_expires_at row) now_ms then Ok (None, rows)
         else
           rbind (insert_token unique_error
             \<lparr>tr_token_hash = digest fresh_token, tr_tenant_id = tr_tenant_id row, tr_user_id = tr_user_id row,
              tr_device_id = tr_device_id row, tr_replica_id = tr_replica_id row, tr_created_at = now_iso,
              tr_expires_at = expires_at, tr_revoked_at = None, tr_family_id = tr_family_id row\<rparr>
             (tbl_update (\<lambda>r. tr_token_hash r = presented_hash) (\<lambda>r. r\<lparr>tr_revoked_at := Some now_iso\<rparr>) rows)) (\<lambda>rows'.
           Ok (Some \<lparr>it_token = fresh_token, it_tenant_id = tr_tenant_id row, it_user_id = tr_user_id row,
                     it_device_id = tr_device_id row, it_replica_id = tr_replica_id row, it_expires_at = expires_at\<rparr>,
               rows')))"

definition revoke_token :: "digest \<Rightarrow> string \<Rightarrow> int \<Rightarrow> tokens \<Rightarrow> bool \<times> tokens" where
  "revoke_token digest token now_ms rows =
    (let hit = (\<lambda>r. tr_token_hash r = digest token \<and> tr_revoked_at r = None)
     in (list_ex hit rows, tbl_update hit (\<lambda>r. r\<lparr>tr_revoked_at := Some (iso_from_epoch_ms_blob now_ms)\<rparr>) rows))"

definition revoke_tokens_for_user :: "string \<Rightarrow> string option \<Rightarrow> int \<Rightarrow> tokens \<Rightarrow> nat \<times> tokens" where
  "revoke_tokens_for_user user_id tenant_id now_ms rows =
    (let hit = (\<lambda>r. tr_user_id r = user_id \<and> (case tenant_id of Some t \<Rightarrow> tr_tenant_id r = t | None \<Rightarrow> True)
                    \<and> tr_revoked_at r = None)
     in (length (filter hit rows), tbl_update hit (\<lambda>r. r\<lparr>tr_revoked_at := Some (iso_from_epoch_ms_blob now_ms)\<rparr>) rows))"

definition purge_expired_tokens :: "int \<Rightarrow> tokens \<Rightarrow> nat \<times> tokens" where
  "purge_expired_tokens now_ms rows =
    (let now_iso = iso_from_epoch_ms_blob now_ms
     in (length (filter (\<lambda>r. tr_expires_at r < now_iso) rows), filter (\<lambda>r. \<not> tr_expires_at r < now_iso) rows))"

section \<open>The tenant ledger\<close>

record tenant_row =
  te_tenant_id :: string
  te_display_name :: "string option"
  te_created_at :: string
  te_archived_at :: "string option"

type_synonym tenants = "tenant_row list"

definition tenant_already_exists_message :: "string \<Rightarrow> string" where
  "tenant_already_exists_message tenant_id = ''Tenant '' @ tenant_id @ '' already exists''"

definition list_tenants :: "bool \<Rightarrow> tenants \<Rightarrow> tenants" where
  "list_tenants include_archived rows =
     order_by te_created_at (order_by te_tenant_id (if include_archived then rows else filter (\<lambda>r. te_archived_at r = None) rows))"

abbreviation (input) "get_tenant \<equiv> tbl_get te_tenant_id"

definition create_tenant ::
  "string \<Rightarrow> string option \<Rightarrow> int \<Rightarrow> tenants \<Rightarrow> (store_error, tenant_row \<times> tenants) result" where
  "create_tenant tenant_id display_name now_ms rows =
    (case get_tenant tenant_id rows of
       Some existing \<Rightarrow>
         if te_archived_at existing = None then Err (Store (tenant_already_exists_message tenant_id))
         else Ok (\<lparr>te_tenant_id = tenant_id, te_display_name = display_name, te_created_at = te_created_at existing,
                   te_archived_at = None\<rparr>,
                  tbl_update (\<lambda>r. te_tenant_id r = tenant_id) (\<lambda>r. r\<lparr>te_display_name := display_name, te_archived_at := None\<rparr>) rows)
     | None \<Rightarrow>
        (let row = \<lparr>te_tenant_id = tenant_id, te_display_name = display_name,
                    te_created_at = iso_from_epoch_ms_blob now_ms, te_archived_at = None\<rparr>
         in Ok (row, rows @ [row])))"

definition archive_tenant :: "string \<Rightarrow> int \<Rightarrow> tenants \<Rightarrow> tenants" where
  "archive_tenant tenant_id now_ms rows =
    (case get_tenant tenant_id rows of
       None \<Rightarrow> rows
     | Some existing \<Rightarrow> if te_archived_at existing \<noteq> None then rows
         else tbl_update (\<lambda>r. te_tenant_id r = tenant_id)
                (\<lambda>r. r\<lparr>te_archived_at := Some (iso_from_epoch_ms_blob now_ms)\<rparr>) rows)"

definition ensure_tenant :: "string \<Rightarrow> int \<Rightarrow> tenants \<Rightarrow> tenants" where
  "ensure_tenant tenant_id now_ms rows =
    (if get_tenant tenant_id rows \<noteq> None then rows
     else rows @ [\<lparr>te_tenant_id = tenant_id, te_display_name = None,
                   te_created_at = iso_from_epoch_ms_blob now_ms, te_archived_at = None\<rparr>])"

section \<open>Resolving a request\<close>

definition is_tenant_archived :: "tenants \<Rightarrow> string \<Rightarrow> bool" where
  "is_tenant_archived tenants tenant_id =
    (if tenant_id = DEFAULT_TENANT_ID then False
     else if starts_with tenant_id ARCHIVED_TENANT_PREFIX then True
     else (case get_tenant tenant_id tenants of Some t \<Rightarrow> te_archived_at t \<noteq> None | None \<Rightarrow> False))"

definition principal_from_active_session_token ::
  "digest \<Rightarrow> tenants \<Rightarrow> string \<Rightarrow> int \<Rightarrow> sessions \<Rightarrow> (server_error, principal) result \<times> sessions" where
  "principal_from_active_session_token digest tenants token now_ms rows =
    (case read_active_session digest token now_ms rows of
       (Some session, rows') \<Rightarrow>
         if is_tenant_archived tenants (ss_tenant_id session) then (Inl (Authentication ''Tenant is archived''), rows')
         else (Inr \<lparr>p_user_id = ss_user_id session, p_device_id = ss_device_id session,
                    p_replica_id = ss_replica_id session, p_tenant_id = ss_tenant_id session,
                    p_scope = ScopeTenant, p_service_scopes = []\<rparr>, rows')
     | (None, rows') \<Rightarrow>
         (Inl (if read_any_session digest token rows' \<noteq> None then SessionExpired else Authentication ''Invalid session''), rows'))"

text \<open>The application's hook, a function of the token, the principal and the clock.\<close>

type_synonym session_authorization = "string \<Rightarrow> principal \<Rightarrow> int \<Rightarrow> (server_error, unit) result"

definition allow_active_sessions :: session_authorization where
  "allow_active_sessions token p now_ms = Ok ()"

definition principal_from_authorized_session_token ::
  "digest \<Rightarrow> session_authorization \<Rightarrow> tenants \<Rightarrow> string \<Rightarrow> int \<Rightarrow> sessions \<Rightarrow> (server_error, principal) result \<times> sessions" where
  "principal_from_authorized_session_token digest hook tenants token now_ms rows =
    (case principal_from_active_session_token digest tenants token now_ms rows of
       (r, rows') \<Rightarrow> (rbind r (\<lambda>p. rbind (hook token p now_ms) (\<lambda>_. Ok p)), rows'))"

definition ensure_tenant_allowed :: "string \<Rightarrow> bool \<Rightarrow> int \<Rightarrow> tenants \<Rightarrow> (server_error, unit) result \<times> tenants" where
  "ensure_tenant_allowed tenant_id implicit_tenant_creation now_ms tenants =
    (if tenant_id = DEFAULT_TENANT_ID then (Ok (), tenants)
     else case get_tenant tenant_id tenants of
       Some tenant \<Rightarrow> if te_archived_at tenant \<noteq> None then (Inl (UnknownTenant tenant_id), tenants) else (Ok (), tenants)
     | None \<Rightarrow> if implicit_tenant_creation then (Ok (), ensure_tenant tenant_id now_ms tenants)
               else (Inl (UnknownTenant tenant_id), tenants))"

text \<open>\<open>Authorization: Bearer <token>\<close>, else the raw-token header.\<close>

definition eq_ignore_ascii_case :: "string \<Rightarrow> string \<Rightarrow> bool" where
  "eq_ignore_ascii_case a b = (ascii_lower a = ascii_lower b)"

definition trim_start :: "string \<Rightarrow> string" where
  "trim_start s = concat (dropWhile is_whitespace_char (utf8_chars s))"

definition parse_bearer :: "string \<Rightarrow> string option" where
  "parse_bearer v =
    Option.bind (if starts_with v ''Bearer'' then Some (drop 6 v)
                 else case str_get v 0 6 of
                   Some prefix \<Rightarrow> if eq_ignore_ascii_case prefix ''Bearer'' then Some (drop 6 v) else None
                 | None \<Rightarrow> None) (\<lambda>rest.
    if (case utf8_chars rest of c # _ \<Rightarrow> is_whitespace_char c | [] \<Rightarrow> False)
    then (let token = trim_start rest in if token = [] then None else Some token)
    else None)"

definition session_token_from_headers :: "header_map \<Rightarrow> string option" where
  "session_token_from_headers headers =
    (case Option.bind (headers ''authorization'') parse_bearer of
       Some token \<Rightarrow> Some token
     | None \<Rightarrow> headers ''x-frick-session-token'')"

definition require_principal ::
  "digest \<Rightarrow> session_authorization \<Rightarrow> tenants \<Rightarrow> header_map \<Rightarrow> int \<Rightarrow> sessions \<Rightarrow> (server_error, principal) result \<times> sessions" where
  "require_principal digest hook tenants headers now_ms rows =
    (case session_token_from_headers headers of
       None \<Rightarrow> (Inl (Authentication ''Missing session token''), rows)
     | Some token \<Rightarrow> principal_from_authorized_session_token digest hook tenants token now_ms rows)"

section \<open>Rotation and reuse\<close>

text \<open>The table after a call: unchanged when the call fails.\<close>

definition after :: "tokens \<Rightarrow> (store_error, 'a \<times> tokens) result \<Rightarrow> tokens" where
  "after rows r = (case r of Inl _ \<Rightarrow> rows | Inr (_, rows') \<Rightarrow> rows')"

text \<open>One call of the refresh-token store, in which newly drawn tokens avoid the digests \<open>H\<close> and newly
  drawn family ids avoid \<open>F\<close> and the families in the table.\<close>

inductive token_step :: "digest \<Rightarrow> string \<Rightarrow> string set \<Rightarrow> string set \<Rightarrow> tokens \<Rightarrow> tokens \<Rightarrow> bool" for d e H F where
  step_issue: "Some family \<notin> tr_family_id ` set rows \<Longrightarrow> family \<notin> F \<Longrightarrow> d token \<notin> H \<Longrightarrow>
     token_step d e H F rows (after rows (issue_token d e token family tenant user device replica ttl now rows))"
| step_rotate: "d fresh \<notin> H \<Longrightarrow> token_step d e H F rows (after rows (rotate_token d e token fresh ttl now rows))"
| step_revoke: "token_step d e H F rows (snd (revoke_token d token now rows))"
| step_revoke_user: "token_step d e H F rows (snd (revoke_tokens_for_user user tenant now rows))"
| step_purge: "token_step d e H F rows (snd (purge_expired_tokens now rows))"

definition live :: "token_row \<Rightarrow> bool" where "live r \<longleftrightarrow> tr_revoked_at r = None"

definition tokens_inv :: "tokens \<Rightarrow> bool" where
  "tokens_inv rows \<longleftrightarrow> tbl_ok tr_token_hash rows
     \<and> (\<forall>r \<in> set rows. \<forall>q \<in> set rows. live r \<and> live q \<and> tr_family_id r \<noteq> None \<and> tr_family_id r = tr_family_id q \<longrightarrow> r = q)"

definition burned :: "string \<Rightarrow> tokens \<Rightarrow> bool" where
  "burned f rows \<longleftrightarrow> (\<forall>r \<in> set rows. tr_family_id r = Some f \<longrightarrow> \<not> live r)"

definition spent :: "string \<Rightarrow> string \<Rightarrow> tokens \<Rightarrow> bool" where
  "spent h f rows \<longleftrightarrow> (\<forall>r \<in> set rows. tr_token_hash r = h \<longrightarrow> \<not> live r \<and> tr_family_id r = Some f)"

text \<open>Every update of the store revokes rows and changes nothing else.\<close>

definition revoked_by :: "string \<Rightarrow> (token_row \<Rightarrow> bool) \<Rightarrow> tokens \<Rightarrow> tokens" where
  "revoked_by now p rows = tbl_update p (\<lambda>r. r\<lparr>tr_revoked_at := Some now\<rparr>) rows"

lemma revoked_by_inv:
  assumes "tokens_inv rows"
  shows "tokens_inv (revoked_by now p rows)"
proof -
  have "tbl_ok tr_token_hash (revoked_by now p rows)"
    using assms by (simp add: tokens_inv_def revoked_by_def tbl_ok_update)
  moreover have "r \<in> set rows" if "r \<in> set (revoked_by now p rows)" "live r" for r
    using that by (auto simp: revoked_by_def tbl_update_def live_def split: if_splits)
  ultimately show ?thesis using assms unfolding tokens_inv_def by meson
qed

lemma revoked_by_burned: "burned f rows \<Longrightarrow> burned f (revoked_by now p rows)"
  by (auto simp: burned_def revoked_by_def tbl_update_def live_def)

lemma revoked_by_spent: "spent h f rows \<Longrightarrow> spent h f (revoked_by now p rows)"
  by (auto simp: spent_def revoked_by_def tbl_update_def live_def)

lemma subset_inv: "tokens_inv rows \<Longrightarrow> tokens_inv (filter p rows)"
  by (auto simp: tokens_inv_def intro: tbl_ok_filter)

lemma insert_token_Inr:
  assumes "insert_token e row rows = Inr rows'"
  shows "rows' = rows @ [row]" "tr_token_hash row \<notin> tr_token_hash ` set rows"
  using assms by (auto simp: insert_token_def tbl_get_None split: if_splits)

lemma insert_inv:
  assumes "tokens_inv rows" "insert_token e row rows = Inr rows'"
    and "\<forall>r \<in> set rows. tr_family_id row \<noteq> None \<and> tr_family_id r = tr_family_id row \<longrightarrow> \<not> live r"
  shows "tokens_inv rows'"
proof -
  note i = insert_token_Inr [OF assms(2)]
  have "tbl_ok tr_token_hash rows'" using assms(1) i by (simp add: tokens_inv_def tbl_ok_def)
  moreover have "r = q" if rq: "r \<in> set rows'" "q \<in> set rows'" "live r" "live q" "tr_family_id r \<noteq> None" "tr_family_id r = tr_family_id q" for r q
  proof -
    consider "r \<in> set rows" "q \<in> set rows" | "r = row" "q = row" | "r = row" "q \<in> set rows" | "q = row" "r \<in> set rows"
      using rq(1,2) i(1) by auto
    then show ?thesis using assms(1,3) rq(3-6) unfolding tokens_inv_def by cases metis+
  qed
  ultimately show ?thesis unfolding tokens_inv_def by blast
qed

text \<open>What a rotation does, by cases.\<close>

definition successor :: "digest \<Rightarrow> string \<Rightarrow> int \<Rightarrow> int \<Rightarrow> token_row \<Rightarrow> token_row" where
  "successor d fresh ttl now row =
     \<lparr>tr_token_hash = d fresh, tr_tenant_id = tr_tenant_id row, tr_user_id = tr_user_id row, tr_device_id = tr_device_id row,
      tr_replica_id = tr_replica_id row, tr_created_at = iso_from_epoch_ms_blob now,
      tr_expires_at = iso_from_epoch_ms_blob (now + ttl * 1000), tr_revoked_at = None, tr_family_id = tr_family_id row\<rparr>"

lemma rotate_token_eq:
  "rotate_token d e token fresh ttl now rows =
    (let now_iso = iso_from_epoch_ms_blob now in
     case tbl_get tr_token_hash (d token) rows of
       None \<Rightarrow> Inr (None, rows)
     | Some row \<Rightarrow>
         if \<not> live row then Inr (None, revoked_by now_iso (\<lambda>r. tr_family_id row \<noteq> None \<and> tr_family_id r = tr_family_id row \<and> live r) rows)
         else if expired_at (tr_expires_at row) now then Inr (None, rows)
         else rbind (insert_token e (successor d fresh ttl now row) (revoked_by now_iso (\<lambda>r. tr_token_hash r = d token) rows))
           (\<lambda>rows'. Inr (Some \<lparr>it_token = fresh, it_tenant_id = tr_tenant_id row, it_user_id = tr_user_id row,
                     it_device_id = tr_device_id row, it_replica_id = tr_replica_id row,
                     it_expires_at = iso_from_epoch_ms_blob (now + ttl * 1000)\<rparr>, rows')))"
proof -
  have "tbl_update (\<lambda>r. False) g rows = rows" for g by (simp add: tbl_update_def)
  then show ?thesis
    by (auto simp: rotate_token_def revoked_by_def successor_def live_def Let_def split: option.split)
qed

lemma rotate_revoked_is_none:
  assumes "tbl_get tr_token_hash (d token) rows = Some row" "\<not> live row" "tr_family_id row = Some f"
  shows "\<exists>rows'. rotate_token d e token fresh ttl now rows = Inr (None, rows') \<and> burned f rows'"
  using assms by (auto simp: rotate_token_eq Let_def burned_def revoked_by_def tbl_update_def live_def)

lemma rotate_successor:
  assumes "tbl_get tr_token_hash (d token) rows = Some row" "live row"
    and "insert_token e (successor d fresh ttl now row) (revoked_by t (\<lambda>r. tr_token_hash r = d token) rows) = Inr rows'"
  shows "tokens_inv rows \<Longrightarrow> tokens_inv rows'"
    and "burned f rows \<Longrightarrow> burned f rows'"
    and "spent h f rows \<Longrightarrow> d fresh \<noteq> h \<Longrightarrow> spent h f rows'"
proof -
  note row = tbl_get_Some [OF assms(1)]
  show "tokens_inv rows'" if inv: "tokens_inv rows"
  proof (rule insert_inv [OF revoked_by_inv [OF inv] assms(3)], intro ballI impI)
    fix r assume r: "r \<in> set (revoked_by t (\<lambda>r. tr_token_hash r = d token) rows)"
      and f: "tr_family_id (successor d fresh ttl now row) \<noteq> None \<and> tr_family_id r = tr_family_id (successor d fresh ttl now row)"
    show "\<not> live r"
    proof
      assume l: "live r"
      with r have "r \<in> set rows" "tr_token_hash r \<noteq> d token"
        by (auto simp: revoked_by_def tbl_update_def live_def split: if_splits)
      moreover from this l f inv row assms(2) have "r = row" by (fastforce simp: tokens_inv_def successor_def)
      ultimately show False using row by simp
    qed
  qed
  show "burned f rows'" if b: "burned f rows"
    using revoked_by_burned [OF b, of t "\<lambda>r. tr_token_hash r = d token"] b row assms(2)
    by (auto simp: insert_token_Inr(1) [OF assms(3)] burned_def successor_def)
  show "spent h f rows'" if s: "spent h f rows" and "d fresh \<noteq> h"
    using revoked_by_spent [OF s, of t "\<lambda>r. tr_token_hash r = d token"] that
    by (auto simp: insert_token_Inr(1) [OF assms(3)] spent_def successor_def)
qed

lemma after_rotate_keeps:
  assumes "P rows" "\<And>now p. P (revoked_by now p rows)"
    and "\<And>row t rows'. tbl_get tr_token_hash (d token) rows = Some row \<Longrightarrow> live row
      \<Longrightarrow> insert_token e (successor d fresh ttl now row) (revoked_by t (\<lambda>r. tr_token_hash r = d token) rows) = Inr rows' \<Longrightarrow> P rows'"
  shows "P (after rows (rotate_token d e token fresh ttl now rows))"
proof (cases "tbl_get tr_token_hash (d token) rows")
  case (Some row)
  show ?thesis
  proof (cases "insert_token e (successor d fresh ttl now row) (revoked_by (iso_from_epoch_ms_blob now) (\<lambda>r. tr_token_hash r = d token) rows)")
    case (Inr rows')
    then show ?thesis using assms(1,2) assms(3) [OF Some _ Inr] by (simp add: rotate_token_eq Some Let_def after_def)
  qed (use assms(1,2) in \<open>simp add: rotate_token_eq Some Let_def after_def\<close>)
qed (use assms(1) in \<open>simp add: rotate_token_eq Let_def after_def\<close>)

lemma after_issue:
  "after rows (issue_token d e token family tenant user device replica ttl now rows) = rows \<or>
   (\<exists>row. insert_token e row rows = Inr (rows @ [row]) \<and> tr_token_hash row = d token \<and> tr_family_id row = Some family
      \<and> after rows (issue_token d e token family tenant user device replica ttl now rows) = rows @ [row])"
  by (auto simp: issue_token_def after_def insert_token_def Let_def)

lemmas revocation_updates = revoke_token_def revoke_tokens_for_user_def Let_def revoked_by_def [symmetric]

lemma token_step_inv: "token_step d e H F rows rows' \<Longrightarrow> tokens_inv rows \<Longrightarrow> tokens_inv rows'"
proof (induction rule: token_step.induct)
  case (step_issue family rows token tenant user device replica ttl now)
  have "tokens_inv (rows @ [row])" if "insert_token e row rows = Inr (rows @ [row])" "tr_family_id row = Some family" for row
    by (rule insert_inv [OF step_issue.prems that(1)]) (use step_issue.hyps(1) that(2) in \<open>auto simp: image_iff\<close>)
  then show ?case
    using after_issue [of rows d e token family tenant user device replica ttl now] step_issue.prems by metis
next
  case (step_rotate fresh rows token ttl now)
  show ?case
    by (rule after_rotate_keeps [where P = tokens_inv]) (auto intro: step_rotate revoked_by_inv rotate_successor(1))
next
  case (step_revoke rows token now)
  then show ?case by (simp add: revocation_updates revoked_by_inv)
next
  case (step_revoke_user rows user tenant now)
  then show ?case by (simp add: revocation_updates revoked_by_inv)
next
  case (step_purge rows now)
  then show ?case by (simp add: purge_expired_tokens_def Let_def subset_inv)
qed

lemma token_step_burned: "token_step d e H F rows rows' \<Longrightarrow> f \<in> F \<Longrightarrow> burned f rows \<Longrightarrow> burned f rows'"
proof (induction rule: token_step.induct)
  case (step_issue family rows token tenant user device replica ttl now)
  then show ?case
    using after_issue [of rows d e token family tenant user device replica ttl now] by (auto simp: burned_def)
next
  case (step_rotate fresh rows token ttl now)
  show ?case
    by (rule after_rotate_keeps [where P = "burned f"]) (auto intro: step_rotate revoked_by_burned rotate_successor(2))
next
  case (step_purge rows now)
  then show ?case by (simp add: purge_expired_tokens_def Let_def burned_def)
qed (simp_all add: revocation_updates revoked_by_burned)

lemma token_step_spent: "token_step d e H F rows rows' \<Longrightarrow> h \<in> H \<Longrightarrow> spent h f rows \<Longrightarrow> spent h f rows'"
proof (induction rule: token_step.induct)
  case (step_issue family rows token tenant user device replica ttl now)
  then show ?case
    using after_issue [of rows d e token family tenant user device replica ttl now] by (auto simp: spent_def)
next
  case (step_rotate fresh rows token ttl now)
  show ?case
    by (rule after_rotate_keeps [where P = "spent h f"])
      (use step_rotate in \<open>auto intro: revoked_by_spent rotate_successor(3)\<close>)
next
  case (step_purge rows now)
  then show ?case by (simp add: purge_expired_tokens_def Let_def spent_def)
qed (simp_all add: revocation_updates revoked_by_spent)

lemma token_steps_keep:
  assumes "(token_step d e H F)\<^sup>*\<^sup>* rows rows'"
  shows "tokens_inv rows \<Longrightarrow> tokens_inv rows'" "f \<in> F \<Longrightarrow> burned f rows \<Longrightarrow> burned f rows'"
    "h \<in> H \<Longrightarrow> spent h f rows \<Longrightarrow> spent h f rows'"
  using assms by (induction rule: rtranclp_induct) (auto dest: token_step_inv token_step_burned token_step_spent)

lemma rotate_Some:
  assumes "tokens_inv rows" "rotate_token d e token fresh ttl now rows = Inr (Some issued, rows1)"
    and "tbl_get tr_token_hash (d token) rows = Some row" "tr_family_id row = Some f"
  shows "spent (d token) f rows1" "tokens_inv rows1" "d fresh \<noteq> d token"
    "tbl_get tr_token_hash (d fresh) rows1 = Some (successor d fresh ttl now row)"
proof -
  from assms(2,3) have l: "live row" and ins: "insert_token e (successor d fresh ttl now row)
      (revoked_by (iso_from_epoch_ms_blob now) (\<lambda>r. tr_token_hash r = d token) rows) = Inr rows1"
    by (auto simp: rotate_token_eq Let_def split: if_splits)
  show "tokens_inv rows1" by (rule rotate_successor(1) [OF assms(3) l ins assms(1)])
  note row = tbl_get_Some [OF assms(3)] and i = insert_token_Inr [OF ins]
  have "map tr_token_hash (revoked_by t p rows) = map tr_token_hash rows" for t p
    by (simp add: revoked_by_def tbl_update_def)
  from arg_cong [OF this, of set] have "tr_token_hash ` set (revoked_by t p rows) = tr_token_hash ` set rows" for t p
    by (simp only: set_map)
  with i(2) have fresh: "d fresh \<notin> tr_token_hash ` set rows" by (simp add: successor_def)
  then show ne: "d fresh \<noteq> d token" using row by force
  have "r = row" if "r \<in> set rows" "tr_token_hash r = d token" for r
    using that tbl_get_iff [of tr_token_hash rows "d token" r] assms(1,3) by (simp add: tokens_inv_def)
  then show "spent (d token) f rows1"
    using ne assms(4) by (auto simp: i(1) spent_def revoked_by_def tbl_update_def live_def successor_def)
  have "tbl_ok tr_token_hash rows1" using \<open>tokens_inv rows1\<close> by (simp add: tokens_inv_def)
  then show "tbl_get tr_token_hash (d fresh) rows1 = Some (successor d fresh ttl now row)"
    by (subst tbl_get_iff) (simp_all add: i(1) successor_def)
qed

lemma burned_token_dead:
  assumes "burned f rows" "tbl_get tr_token_hash (d t) rows = Some r" "tr_family_id r = Some f"
  shows "read_active_token d t now rows = None" "\<exists>rows'. rotate_token d e t x ttl now rows = Inr (None, rows')"
proof -
  have "\<not> live r" using assms(1,3) tbl_get_Some [OF assms(2)] by (auto simp: burned_def)
  then show "read_active_token d t now rows = None" "\<exists>rows'. rotate_token d e t x ttl now rows = Inr (None, rows')"
    using assms(2) by (auto simp: read_active_token_def live_def rotate_token_eq Let_def)
qed

text \<open>C20: presenting a refresh token again after it was rotated, at any later time while its row is
  kept, is refused and revokes the whole family: no token of the family is live afterwards, and none
  is accepted or rotated ever again, whatever calls follow.  Newly drawn tokens and family ids are
  taken not to repeat the presented token's digest or the family's id.\<close>

theorem refresh_reuse_burns_family:
  assumes "tokens_inv rows" "rotate_token d e token fresh ttl now rows = Inr (Some issued, rows1)"
    and "tbl_get tr_token_hash (d token) rows = Some row" "tr_family_id row = Some f"
    and "(token_step d e {d token} F)\<^sup>*\<^sup>* rows1 rows2" "tbl_get tr_token_hash (d token) rows2 \<noteq> None"
  shows "\<exists>rows3. rotate_token d e token x ttl' now' rows2 = Inr (None, rows3) \<and> burned f rows3
    \<and> (\<forall>rows4 t r now'' y ttl''. (token_step d e H {f})\<^sup>*\<^sup>* rows3 rows4 \<and> tbl_get tr_token_hash (d t) rows4 = Some r
         \<and> tr_family_id r = Some f \<longrightarrow>
         read_active_token d t now'' rows4 = None \<and> (\<exists>rows5. rotate_token d e t y ttl'' now'' rows4 = Inr (None, rows5)))"
proof -
  have "spent (d token) f rows2"
    using token_steps_keep(3) [OF assms(5)] rotate_Some(1) [OF assms(1-4)] by blast
  moreover obtain r2 where r2: "tbl_get tr_token_hash (d token) rows2 = Some r2" using assms(6) by blast
  ultimately have "\<not> live r2" "tr_family_id r2 = Some f" using tbl_get_Some [OF r2] by (auto simp: spent_def)
  from rotate_revoked_is_none [where d = d and token = token, OF r2 this] obtain rows3 where
    r3: "rotate_token d e token x ttl' now' rows2 = Inr (None, rows3)" "burned f rows3" by blast
  have "burned f rows4" if "(token_step d e H {f})\<^sup>*\<^sup>* rows3 rows4" for rows4
    using token_steps_keep(2) [OF that _ r3(2)] by simp
  then show ?thesis using r3 burned_token_dead by blast
qed

text \<open>C21: in every state the store can reach by calls with newly drawn tokens and family ids, each
  rotation family has at most one token that is not revoked, and digests are unique.\<close>

theorem one_live_token_per_family:
  assumes "(token_step d e H F)\<^sup>*\<^sup>* [] rows" "r \<in> set rows" "q \<in> set rows" "tr_revoked_at r = None" "tr_revoked_at q = None"
    and "tr_family_id r = Some f" "tr_family_id q = Some f"
  shows "r = q \<and> distinct (map tr_token_hash rows)"
proof -
  have "tokens_inv []" by (simp add: tokens_inv_def tbl_ok_def)
  from token_steps_keep(1) [OF assms(1) this] show ?thesis
    using assms(2-7) by (simp add: tokens_inv_def live_def tbl_ok_def)
qed

section \<open>Resolving sessions\<close>

definition session_principal :: "session_row \<Rightarrow> principal" where
  "session_principal row = \<lparr>p_user_id = se_user_id row, p_device_id = se_device_id row, p_replica_id = se_replica_id row,
     p_tenant_id = se_tenant_id row, p_scope = ScopeTenant, p_service_scopes = []\<rparr>"

definition session_active :: "tenants \<Rightarrow> int \<Rightarrow> session_row \<Rightarrow> bool" where
  "session_active tenants now row \<longleftrightarrow> \<not> expired_at (se_expires_at row) now \<and> \<not> is_tenant_archived tenants (se_tenant_id row)"

text \<open>A read moves at most the last-seen stamp.\<close>

definition same_but_seen :: "sessions \<Rightarrow> sessions \<Rightarrow> bool" where
  "same_but_seen rows rows' \<longleftrightarrow> map (\<lambda>r. r\<lparr>se_last_seen_at := []\<rparr>) rows = map (\<lambda>r. r\<lparr>se_last_seen_at := []\<rparr>) rows'"

lemma resolve_eq:
  "fst (principal_from_active_session_token d tenants token now rows) =
    (case tbl_get se_token_digest (d token) rows of
       None \<Rightarrow> Inl (Authentication ''Invalid session'')
     | Some row \<Rightarrow> if expired_at (se_expires_at row) now then Inl SessionExpired
         else if is_tenant_archived tenants (se_tenant_id row) then Inl (Authentication ''Tenant is archived'')
         else Inr (session_principal row))"
  by (simp add: principal_from_active_session_token_def read_active_session_def read_any_session_def Let_def
      session_from_row_def session_principal_def split: option.split)

lemma resolves_iff:
  assumes "tbl_ok se_token_digest rows"
  shows "fst (principal_from_active_session_token d tenants token now rows) = Inr p \<longleftrightarrow>
      (\<exists>row \<in> set rows. se_token_digest row = d token \<and> session_active tenants now row \<and> p = session_principal row)"
  unfolding resolve_eq ex_row_iff [OF assms] by (auto simp: session_active_def split: option.split)

text \<open>A bearer token resolves to a principal exactly when its digest names a stored session that
  has not expired and whose tenant is not archived, and then to that session's user, device, replica
  and tenant; an expired session is told apart from an unknown one; and resolving changes nothing but
  a last-seen stamp.\<close>

theorem session_resolution_exact:
  assumes "tbl_ok se_token_digest rows"
  shows "(fst (principal_from_active_session_token d tenants token now rows) = Inr p \<longleftrightarrow>
            (\<exists>row \<in> set rows. se_token_digest row = d token \<and> session_active tenants now row \<and> p = session_principal row))
    \<and> (fst (principal_from_active_session_token d tenants token now rows) = Inl SessionExpired \<longleftrightarrow>
            (\<exists>row \<in> set rows. se_token_digest row = d token \<and> expired_at (se_expires_at row) now))
    \<and> (fst (principal_from_active_session_token d tenants token now rows) = Inl (Authentication ''Invalid session'') \<longleftrightarrow>
            d token \<notin> se_token_digest ` set rows)
    \<and> same_but_seen rows (snd (principal_from_active_session_token d tenants token now rows))"
proof (intro conjI)
  show "fst (principal_from_active_session_token d tenants token now rows) = Inr p \<longleftrightarrow>
      (\<exists>row \<in> set rows. se_token_digest row = d token \<and> session_active tenants now row \<and> p = session_principal row)"
    by (rule resolves_iff [OF assms])
  show "fst (principal_from_active_session_token d tenants token now rows) = Inl SessionExpired \<longleftrightarrow>
      (\<exists>row \<in> set rows. se_token_digest row = d token \<and> expired_at (se_expires_at row) now)"
    unfolding resolve_eq ex_row_iff [OF assms] by (auto split: option.split)
  show "fst (principal_from_active_session_token d tenants token now rows) = Inl (Authentication ''Invalid session'') \<longleftrightarrow>
      d token \<notin> se_token_digest ` set rows"
    unfolding resolve_eq using tbl_get_None [of se_token_digest "d token" rows]
    by (cases "tbl_get se_token_digest (d token) rows") auto
  show "same_but_seen rows (snd (principal_from_active_session_token d tenants token now rows))"
    by (auto simp: same_but_seen_def principal_from_active_session_token_def read_active_session_def Let_def
        tbl_update_def split: option.split)
qed

text \<open>Revocation takes effect at once and pruning revokes nothing: a deleted token is unknown, no
  token resolves to a user whose sessions were deleted, and pruning what has expired by some instant
  leaves the principal of every token unchanged from that instant on.\<close>

theorem session_revocation:
  assumes "tbl_ok se_token_digest rows" "iso_range t" "t \<le> now"
    and "\<forall>r \<in> set rows. \<exists>x. iso_range x \<and> se_expires_at r = iso_from_epoch_ms_blob x"
  shows "fst (principal_from_active_session_token d tenants token now (snd (delete_session d token rows))) =
           Inl (Authentication ''Invalid session'')
    \<and> (\<forall>p. fst (principal_from_active_session_token d tenants token now (snd (delete_sessions_for_user u ten rows))) = Inr p
         \<longrightarrow> \<not> (p_user_id p = u \<and> (case ten of Some te \<Rightarrow> p_tenant_id p = te | None \<Rightarrow> True)))
    \<and> (\<forall>p. fst (principal_from_active_session_token d tenants token now
               (snd (prune_expired_sessions (iso_from_epoch_ms_blob t) rows))) = Inr p \<longleftrightarrow>
           fst (principal_from_active_session_token d tenants token now rows) = Inr p)"
proof (intro conjI allI)
  show "fst (principal_from_active_session_token d tenants token now (snd (delete_session d token rows))) =
      Inl (Authentication ''Invalid session'')"
    by (simp add: resolve_eq delete_session_def tbl_get_delete)
  show "fst (principal_from_active_session_token d tenants token now (snd (delete_sessions_for_user u ten rows))) = Inr p
      \<longrightarrow> \<not> (p_user_id p = u \<and> (case ten of Some te \<Rightarrow> p_tenant_id p = te | None \<Rightarrow> True))" for p
    by (auto simp: resolve_eq delete_sessions_for_user_def Let_def session_principal_def
        dest!: tbl_get_Some split: option.splits if_splits)
  define kept where "kept = filter (\<lambda>r. \<not> se_expires_at r \<le> iso_from_epoch_ms_blob t) rows"
  have ok: "tbl_ok se_token_digest kept" unfolding kept_def by (rule tbl_ok_filter [OF assms(1)])
  have gone: "expired_at (se_expires_at r) now" if r: "r \<in> set rows" "r \<notin> set kept" for r
  proof -
    obtain x where x: "iso_range x" "se_expires_at r = iso_from_epoch_ms_blob x" using assms(4) r(1) by blast
    have "epoch_ms_to_iso x \<le> epoch_ms_to_iso t" using r x(2) by (simp add: kept_def iso_blob_eq)
    then have "x \<le> t" using epoch_ms_to_iso_less_iff [OF assms(2) x(1)] by (metis linorder_not_less)
    then show ?thesis using assms(3) x by (simp add: expired_at_def parse_printed_now)
  qed
  have active: "(\<exists>row \<in> set kept. se_token_digest row = d token \<and> session_active tenants now row \<and> p = session_principal row)
    \<longleftrightarrow> (\<exists>row \<in> set rows. se_token_digest row = d token \<and> session_active tenants now row \<and> p = session_principal row)" for p
    using gone by (auto simp: session_active_def kept_def)
  have "fst (principal_from_active_session_token d tenants token now kept) = Inr p \<longleftrightarrow>
      fst (principal_from_active_session_token d tenants token now rows) = Inr p" for p
    using resolves_iff [OF ok] resolves_iff [OF assms(1)] active by simp
  then show "fst (principal_from_active_session_token d tenants token now
               (snd (prune_expired_sessions (iso_from_epoch_ms_blob t) rows))) = Inr p \<longleftrightarrow>
           fst (principal_from_active_session_token d tenants token now rows) = Inr p" for p
    by (simp add: prune_expired_sessions_def kept_def)
qed

section \<open>The device directory\<close>

definition row_device :: "session_row \<Rightarrow> user_device" where
  "row_device row = \<lparr>ud_device_id = se_device_id row, ud_replica_id = se_replica_id row, ud_last_seen_at = se_last_seen_at row\<rparr>"

lemma first_per_device_ids:
  "ud_device_id ` set (first_per_device now seen rows) =
     {se_device_id r |r. r \<in> set rows \<and> \<not> expired_at (se_expires_at r) now} - set seen"
  by (induction now seen rows rule: first_per_device.induct) auto

lemma first_per_device_distinct: "distinct (map ud_device_id (first_per_device now seen rows))"
proof (induction now seen rows rule: first_per_device.induct)
  case (2 now seen row rows)
  then show ?case using first_per_device_ids [of now "se_device_id row # seen" rows] by auto
qed simp

lemma first_per_device_sorted:
  "sorted (map se_device_id rows) \<Longrightarrow> sorted (map ud_device_id (first_per_device now seen rows))"
proof (induction now seen rows rule: first_per_device.induct)
  case (2 now seen row rows)
  then show ?case using first_per_device_ids [of now "se_device_id row # seen" rows] by auto
qed simp

lemma first_per_device_first:
  assumes "v \<in> set (first_per_device now seen rows)"
  shows "\<exists>ys r zs. rows = ys @ r # zs \<and> \<not> expired_at (se_expires_at r) now \<and> v = row_device r
    \<and> (\<forall>q \<in> set ys. \<not> expired_at (se_expires_at q) now \<longrightarrow> se_device_id q \<noteq> se_device_id r) \<and> se_device_id r \<notin> set seen"
  using assms
proof (induction rows arbitrary: seen)
  case (Cons row rows)
  show ?case
  proof (cases "\<not> expired_at (se_expires_at row) now \<and> se_device_id row \<notin> set seen \<and> v = row_device row")
    case True
    then show ?thesis by (intro exI [of _ "[]"] exI [of _ row] exI [of _ rows]) auto
  next
    case False
    define s where "s = (if expired_at (se_expires_at row) now \<or> se_device_id row \<in> set seen then seen else se_device_id row # seen)"
    have "v \<in> set (first_per_device now s rows)"
      using Cons.prems False by (auto simp: s_def row_device_def split: if_splits)
    from Cons.IH [OF this] obtain ys r zs where "rows = ys @ r # zs" "\<not> expired_at (se_expires_at r) now" "v = row_device r"
      "\<forall>q \<in> set ys. \<not> expired_at (se_expires_at q) now \<longrightarrow> se_device_id q \<noteq> se_device_id r" "se_device_id r \<notin> set s" by blast
    then show ?thesis
      by (intro exI [of _ "row # ys"] exI [of _ r] exI [of _ zs]) (auto simp: s_def split: if_splits)
  qed
qed simp

lemma keep_first_set: "set (keep_first seen xs) = set xs - set seen \<and> distinct (keep_first seen xs)"
  by (induction seen xs rule: keep_first.induct) auto

lemma order_by_desc_filter:
  "sorted_wrt (\<lambda>a b. f b \<le> f a) (filter p (order_by_desc f rows))"
proof -
  have "sorted_wrt (\<lambda>a b. f b \<le> f a) (order_by_desc f rows)"
    using sorted_order_by_desc [of f rows] by (simp add: sorted_wrt_rev sorted_wrt_map rev_map)
  then show ?thesis by (rule sorted_wrt_filter)
qed

definition active_sessions_of :: "string \<Rightarrow> string option \<Rightarrow> int \<Rightarrow> sessions \<Rightarrow> session_row set" where
  "active_sessions_of u ten now rows = {r \<in> set rows. se_user_id r = u
     \<and> (case ten of Some t \<Rightarrow> se_tenant_id r = t | None \<Rightarrow> True) \<and> \<not> expired_at (se_expires_at r) now}"

text \<open>The directory lists each device on which the user has an unexpired session exactly once, in
  the order of the device ids, with the stamp of its most recently seen session; the fan-out of a
  message reaches exactly the other devices, each once.\<close>

theorem device_directory_exact:
  "let devices = list_active_devices_for_user u ten now rows; mine = active_sessions_of u ten now rows in
     sorted (map ud_device_id devices) \<and> distinct (map ud_device_id devices)
   \<and> ud_device_id ` set devices = se_device_id ` mine
   \<and> (\<forall>v. v \<in> set devices \<longrightarrow> (\<exists>r. r \<in> mine \<and> v = row_device r
        \<and> (\<forall>q. q \<in> mine \<and> se_device_id q = se_device_id r \<longrightarrow> se_last_seen_at q \<le> se_last_seen_at r)))
   \<and> set (fan_out_targets devices origin) = se_device_id ` mine - {origin} \<and> distinct (fan_out_targets devices origin)"
proof -
  define devices where "devices = list_active_devices_for_user u ten now rows"
  define mine where "mine = active_sessions_of u ten now rows"
  define sel where "sel = order_by_desc se_last_seen_at
    (filter (\<lambda>r. se_user_id r = u \<and> (case ten of Some t \<Rightarrow> se_tenant_id r = t | None \<Rightarrow> True)) rows)"
  have d: "devices = first_per_device now [] (order_by se_device_id sel)"
    by (simp add: devices_def list_active_devices_for_user_def sel_def)
  have mine: "r \<in> mine \<longleftrightarrow> r \<in> set sel \<and> \<not> expired_at (se_expires_at r) now" for r
    by (auto simp: mine_def active_sessions_of_def sel_def)
  have ids: "ud_device_id ` set devices = se_device_id ` mine"
    unfolding d first_per_device_ids using mine by auto
  have latest: "\<exists>r. r \<in> mine \<and> v = row_device r \<and> (\<forall>q. q \<in> mine \<and> se_device_id q = se_device_id r \<longrightarrow> se_last_seen_at q \<le> se_last_seen_at r)"
    if v: "v \<in> set devices" for v
  proof -
    from first_per_device_first [OF v [unfolded d]] obtain ys r zs where r: "order_by se_device_id sel = ys @ r # zs"
      "\<not> expired_at (se_expires_at r) now" "v = row_device r"
      "\<forall>q \<in> set ys. \<not> expired_at (se_expires_at q) now \<longrightarrow> se_device_id q \<noteq> se_device_id r" by blast
    have "set (order_by se_device_id sel) = set sel" by simp
    then have all: "set sel = set ys \<union> {r} \<union> set zs" unfolding r(1) by auto
    have "filter (\<lambda>x. se_device_id x = se_device_id r) (order_by se_device_id sel) =
        filter (\<lambda>x. se_device_id x = se_device_id r) sel"
      unfolding order_by_def by (rule sort_key_stable)
    then have "sorted_wrt (\<lambda>a b. se_last_seen_at b \<le> se_last_seen_at a)
        (filter (\<lambda>x. se_device_id x = se_device_id r) ys @ r # filter (\<lambda>x. se_device_id x = se_device_id r) zs)"
      using order_by_desc_filter [of se_last_seen_at "\<lambda>x. se_device_id x = se_device_id r"] unfolding sel_def r(1) [unfolded sel_def]
      by simp
    then have "\<forall>q \<in> set zs. se_device_id q = se_device_id r \<longrightarrow> se_last_seen_at q \<le> se_last_seen_at r"
      by (auto simp: sorted_wrt_append)
    then have "\<forall>q \<in> mine. se_device_id q = se_device_id r \<longrightarrow> se_last_seen_at q \<le> se_last_seen_at r"
      using r(4) mine all by auto
    moreover have "r \<in> mine" using mine all r(2) by auto
    ultimately show ?thesis using r(3) by blast
  qed
  have fan: "set (fan_out_targets devices origin) = ud_device_id ` set devices - {origin}" "distinct (fan_out_targets devices origin)"
    using keep_first_set [of "[]"] by (auto simp: fan_out_targets_def)
  have "sorted (map ud_device_id devices)" "distinct (map ud_device_id devices)"
    unfolding d by (rule first_per_device_sorted [OF sorted_order_by], rule first_per_device_distinct)
  then show ?thesis
    unfolding Let_def devices_def [symmetric] mine_def [symmetric] using ids latest fan by simp
qed

section \<open>Tenants\<close>

lemma archive_lookup:
  "get_tenant t (archive_tenant t now tenants) =
     map_option (\<lambda>r. if te_archived_at r = None then r\<lparr>te_archived_at := Some (iso_from_epoch_ms_blob now)\<rparr> else r) (get_tenant t tenants)"
proof (cases "get_tenant t tenants")
  case (Some r)
  then show ?thesis
    by (auto simp: archive_tenant_def tbl_get_update dest: tbl_get_Some)
qed (simp add: archive_tenant_def)

lemma require_principal_tenant:
  assumes "fst (require_principal d hook tenants headers now rows) = Inr p"
  shows "\<not> is_tenant_archived tenants (p_tenant_id p)"
proof -
  obtain token where "fst (principal_from_active_session_token d tenants token now rows) = Inr p"
    using assms by (auto simp: require_principal_def principal_from_authorized_session_token_def split_beta split: option.splits)
  then show ?thesis by (auto simp: resolve_eq session_principal_def split: option.splits if_splits)
qed

text \<open>Archiving a tenant shuts it out at once and for good until it is created again: no request
  resolves to a principal of it, new traffic for it is refused even when tenants are created on
  demand, archiving again changes nothing, and creating it anew revives the row with its original
  creation time.\<close>

theorem tenant_archival:
  assumes "t \<noteq> DEFAULT_TENANT_ID" "get_tenant t tenants = Some row"
  shows "let archived = archive_tenant t now tenants in
      (\<forall>d hook headers now' rows p. fst (require_principal d hook archived headers now' rows) = Inr p \<longrightarrow> p_tenant_id p \<noteq> t)
    \<and> fst (ensure_tenant_allowed t implicit now' archived) = Inl (UnknownTenant t)
    \<and> archive_tenant t now' archived = archived
    \<and> (\<exists>revived tenants'. create_tenant t name now' archived = Inr (revived, tenants')
        \<and> get_tenant t tenants' = Some revived \<and> te_created_at revived = te_created_at row \<and> te_archived_at revived = None
        \<and> fst (ensure_tenant_allowed t implicit now' tenants') = Inr ())"
proof -
  define archived where "archived = archive_tenant t now tenants"
  obtain row' where r: "get_tenant t archived = Some row'" "te_archived_at row' \<noteq> None" "te_created_at row' = te_created_at row"
    "te_tenant_id row' = t"
    using archive_lookup [of t now tenants] assms(2) tbl_get_Some [OF assms(2)] by (auto simp: archived_def)
  have out: "is_tenant_archived archived t" using r(1,2) assms(1) by (simp add: is_tenant_archived_def)
  have "p_tenant_id p \<noteq> t" if "fst (require_principal d hook archived headers now' rows) = Inr p" for d hook headers now' rows p
    using require_principal_tenant [OF that] out by auto
  moreover have "fst (ensure_tenant_allowed t implicit now' archived) = Inl (UnknownTenant t)"
    using r(1,2) assms(1) by (simp add: ensure_tenant_allowed_def)
  moreover have "archive_tenant t now' archived = archived" using r(1,2) by (simp add: archive_tenant_def)
  moreover have "\<exists>revived tenants'. create_tenant t name now' archived = Inr (revived, tenants')
        \<and> get_tenant t tenants' = Some revived \<and> te_created_at revived = te_created_at row \<and> te_archived_at revived = None
        \<and> fst (ensure_tenant_allowed t implicit now' tenants') = Inr ()"
    using r assms(1) by (auto simp: create_tenant_def tbl_get_update ensure_tenant_allowed_def)
  ultimately show ?thesis unfolding Let_def archived_def [symmetric] by blast
qed

section \<open>Examples\<close>

definition sample_digest :: digest where "sample_digest token = ''sha:'' @ token"

definition first_issue :: tokens where
  "first_issue = after [] (issue_token sample_digest ''unique'' ''r1'' ''fam'' ''t'' ''u'' ''d'' ''r'' 600 1700000000000 [])"

definition after_rotation :: tokens where
  "after_rotation = after first_issue (rotate_token sample_digest ''unique'' ''r1'' ''r2'' 600 1700000001000 first_issue)"

lemma sample_token_steps:
  "token_step sample_digest ''unique'' {} {} [] first_issue"
  "token_step sample_digest ''unique'' {} {} first_issue after_rotation"
  unfolding first_issue_def after_rotation_def by (rule token_step.intros; simp)+

lemma sample_tokens_inv: "tokens_inv first_issue"
  by (rule token_step_inv [OF sample_token_steps(1)]) (simp add: tokens_inv_def tbl_ok_def)

theorem refresh_reuse_burns_family_witness:
  "\<exists>rows3. rotate_token sample_digest ''unique'' ''r1'' ''r9'' 600 1700000002000 after_rotation = Inr (None, rows3) \<and> burned ''fam'' rows3"
proof -
  let ?r = "rotate_token sample_digest ''unique'' ''r1'' ''r2'' 600 1700000001000 first_issue"
  have "is_ok ?r \<and> fst (projr ?r) \<noteq> None" by code_simp
  then obtain issued where r: "?r = Inr (Some issued, after_rotation)"
    by (cases ?r) (auto simp: after_rotation_def after_def)
  have "map_option tr_family_id (tbl_get tr_token_hash (sample_digest ''r1'') first_issue) = Some (Some ''fam'')" by code_simp
  then obtain row where f: "tbl_get tr_token_hash (sample_digest ''r1'') first_issue = Some row" "tr_family_id row = Some ''fam''" by auto
  have "tbl_get tr_token_hash (sample_digest ''r1'') after_rotation \<noteq> None" by code_simp
  from refresh_reuse_burns_family [OF sample_tokens_inv r f rtranclp.rtrancl_refl this] show ?thesis by blast
qed

theorem one_live_token_per_family_witness:
  "\<exists>q \<in> set after_rotation. tr_token_hash q = sample_digest ''r2'' \<and>
     (\<forall>r \<in> set after_rotation. tr_revoked_at r = None \<longrightarrow> r = q)"
proof -
  have "list_ex (\<lambda>q. tr_token_hash q = sample_digest ''r2'' \<and> tr_revoked_at q = None) after_rotation"
    "list_all (\<lambda>q. tr_family_id q = Some ''fam'') after_rotation" by code_simp+
  then have e: "\<exists>q \<in> set after_rotation. tr_token_hash q = sample_digest ''r2'' \<and> tr_revoked_at q = None"
    and f: "\<forall>q \<in> set after_rotation. tr_family_id q = Some ''fam''" by (simp_all only: list_ex_iff list_all_iff)
  from e obtain q where q: "q \<in> set after_rotation" "tr_token_hash q = sample_digest ''r2''" "tr_revoked_at q = None" by blast
  let ?step = "token_step sample_digest ''unique'' {} {}"
  have s1: "?step\<^sup>*\<^sup>* [] first_issue" by (rule r_into_rtranclp [of ?step, OF sample_token_steps(1)])
  have s: "?step\<^sup>*\<^sup>* [] after_rotation" by (rule rtranclp.rtrancl_into_rtrancl [of ?step, OF s1 sample_token_steps(2)])
  have "r = q" if "r \<in> set after_rotation" "tr_revoked_at r = None" for r
    using one_live_token_per_family [OF s that(1) q(1) that(2) q(3) bspec [OF f that(1)] bspec [OF f q(1)]] by (rule conjunct1)
  then show ?thesis using q by blast
qed

definition sample_sessions :: sessions where
  "sample_sessions = [\<lparr>se_token_digest = ''sha:s1'', se_tenant_id = ''t'', se_user_id = ''u'', se_device_id = ''d1'',
      se_replica_id = ''r1'', se_expires_at = iso_from_epoch_ms_blob 1700000600000, se_created_at = [],
      se_last_seen_at = iso_from_epoch_ms_blob 1700000000000\<rparr>,
    \<lparr>se_token_digest = ''sha:s2'', se_tenant_id = ''t'', se_user_id = ''u'', se_device_id = ''d2'',
      se_replica_id = ''r2'', se_expires_at = iso_from_epoch_ms_blob 1700000600000, se_created_at = [],
      se_last_seen_at = iso_from_epoch_ms_blob 1700000000000\<rparr>]"

lemma sample_sessions_ok: "tbl_ok se_token_digest sample_sessions"
  by (simp add: sample_sessions_def tbl_ok_def)

theorem session_resolution_exact_witness:
  "\<exists>p. fst (principal_from_active_session_token sample_digest [] ''s1'' 1700000001000 sample_sessions) = Inr p \<and> p_user_id p = ''u''"
proof -
  have "list_ex (\<lambda>r. se_token_digest r = sample_digest ''s1'' \<and> session_active [] 1700000001000 r \<and> se_user_id r = ''u'') sample_sessions"
    by code_simp
  then obtain row where "row \<in> set sample_sessions" "se_token_digest row = sample_digest ''s1''"
    "session_active [] 1700000001000 row" "se_user_id row = ''u''" by (auto simp: list_ex_iff)
  then show ?thesis
    using session_resolution_exact [OF sample_sessions_ok, of sample_digest "[]" "''s1''" 1700000001000 "session_principal row"]
    by (intro exI [of _ "session_principal row"]) (auto simp: session_principal_def)
qed

theorem session_revocation_witness:
  "fst (principal_from_active_session_token sample_digest [] ''s1'' 1700000001000 (snd (delete_session sample_digest ''s1'' sample_sessions))) =
     Inl (Authentication ''Invalid session'')"
proof -
  have "\<forall>r \<in> set sample_sessions. \<exists>x. iso_range x \<and> se_expires_at r = iso_from_epoch_ms_blob x"
    by (auto simp: sample_sessions_def iso_range_def intro!: exI [of _ 1700000600000])
  from session_revocation [OF sample_sessions_ok _ _ this, of 1700000000000 1700000001000] show ?thesis
    by (simp add: iso_range_def)
qed

theorem device_directory_exact_witness:
  "set (fan_out_targets (list_active_devices_for_user ''u'' None 1700000001000 sample_sessions) ''d1'') = {''d2''}"
proof -
  have "list_all (\<lambda>r. \<not> expired_at (se_expires_at r) 1700000001000) sample_sessions" by code_simp
  then have "active_sessions_of ''u'' None 1700000001000 sample_sessions = set sample_sessions"
    by (auto simp: active_sessions_of_def list_all_iff sample_sessions_def)
  then show ?thesis
    using device_directory_exact [of "''u''" None 1700000001000 sample_sessions "''d1''"]
    by (auto simp: Let_def sample_sessions_def)
qed

theorem tenant_archival_witness:
  "fst (ensure_tenant_allowed ''acme'' True 9 (archive_tenant ''acme'' 5
     [\<lparr>te_tenant_id = ''acme'', te_display_name = None, te_created_at = [], te_archived_at = None\<rparr>])) = Inl (UnknownTenant ''acme'')"
  using tenant_archival [of "''acme''" "[\<lparr>te_tenant_id = ''acme'', te_display_name = None, te_created_at = [], te_archived_at = None\<rparr>]"
      _ 5 True 9]
  by (simp add: DEFAULT_TENANT_ID_def Let_def tbl_get_def)

end
