(* ===== verification/FrickReglock.thy ===== *)
theory FrickReglock
  imports FrickCredentials
begin

text \<open>
  The registration lock: its store (\<open>frick-store/src/stores/reglock.rs\<close>) and the gate in front of a
  password login with the management routes (\<open>frick-server/src/auth_reglock.rs\<close>).  The digest of a
  verifier is a parameter, as for the other credentials.
\<close>

unbundle bit_operations_syntax

definition LOCKOUT_THRESHOLD :: int where "LOCKOUT_THRESHOLD = 3"
definition LOCKOUT_MAX_SECONDS :: int where "LOCKOUT_MAX_SECONDS = 3600"

definition lockout_wait_seconds :: "int \<Rightarrow> int" where
  "lockout_wait_seconds failures =
    (if failures < LOCKOUT_THRESHOLD then 0
     else let exp = failures - LOCKOUT_THRESHOLD
          in if exp \<ge> 12 then LOCKOUT_MAX_SECONDS else min (2 ^ nat exp) LOCKOUT_MAX_SECONDS)"

text \<open>One row of \<open>auth_registration_locks\<close>, with the \<open>created_at\<close> column the record leaves out.\<close>

record lock_row =
  lk_tenant_id :: string
  lk_user_id :: string
  lk_verifier_hash :: string
  lk_salt :: string
  lk_enabled :: bool
  lk_failed_attempts :: int
  lk_locked_until_ms :: int
  lk_last_activity_ms :: int
  lk_created_at :: string
  lk_updated_at :: string

type_synonym locks = "lock_row list"

definition lock_key :: "lock_row \<Rightarrow> string \<times> string" where
  "lock_key r = (lk_tenant_id r, lk_user_id r)"

definition read_lock :: "string \<Rightarrow> string \<Rightarrow> locks \<Rightarrow> lock_row option" where
  "read_lock tenant_id user_id rows = tbl_get lock_key (tenant_id, user_id) rows"

text \<open>The conflict branch keeps \<open>created_at\<close>.\<close>

definition enable_lock :: "digest \<Rightarrow> string \<Rightarrow> string \<Rightarrow> string \<Rightarrow> string \<Rightarrow> int \<Rightarrow> locks \<Rightarrow> locks" where
  "enable_lock digest tenant_id user_id verifier salt now_ms rows =
    (let now_iso = iso_from_epoch_ms_blob now_ms;
         created = (case read_lock tenant_id user_id rows of Some r \<Rightarrow> lk_created_at r | None \<Rightarrow> now_iso)
     in tbl_upsert lock_key
       \<lparr>lk_tenant_id = tenant_id, lk_user_id = user_id, lk_verifier_hash = digest verifier, lk_salt = salt,
        lk_enabled = True, lk_failed_attempts = 0, lk_locked_until_ms = 0, lk_last_activity_ms = now_ms,
        lk_created_at = created, lk_updated_at = now_iso\<rparr> rows)"

definition disable_lock :: "string \<Rightarrow> string \<Rightarrow> int \<Rightarrow> locks \<Rightarrow> bool \<times> locks" where
  "disable_lock tenant_id user_id now_ms rows =
    (let hit = (\<lambda>r. lock_key r = (tenant_id, user_id) \<and> lk_enabled r)
     in (list_ex hit rows, tbl_update hit (\<lambda>r. r\<lparr>lk_enabled := False, lk_failed_attempts := 0,
           lk_locked_until_ms := 0, lk_updated_at := iso_from_epoch_ms_blob now_ms\<rparr>) rows))"

text \<open>\<open>constant_time_eq\<close>: the fold over both byte strings with \<open>|=\<close> and \<open>^\<close>.\<close>

definition byte_of :: "char \<Rightarrow> 8 word" where "byte_of c = of_nat (of_char c)"

definition constant_time_eq :: "string \<Rightarrow> string \<Rightarrow> bool" where
  "constant_time_eq a b =
    (if length a \<noteq> length b then False
     else fold (\<lambda>(x, y) diff. diff OR (byte_of x XOR byte_of y)) (zip a b) 0 = 0)"

definition verify_lock :: "digest \<Rightarrow> string \<Rightarrow> string \<Rightarrow> string \<Rightarrow> locks \<Rightarrow> bool" where
  "verify_lock digest tenant_id user_id verifier rows =
    (case read_lock tenant_id user_id rows of
       None \<Rightarrow> False
     | Some record \<Rightarrow> constant_time_eq (digest verifier) (lk_verifier_hash record))"

definition register_failure :: "string \<Rightarrow> string \<Rightarrow> int \<Rightarrow> locks \<Rightarrow> lock_row option \<times> locks" where
  "register_failure tenant_id user_id now_ms rows =
    (case read_lock tenant_id user_id rows of
       None \<Rightarrow> (None, rows)
     | Some record \<Rightarrow>
        (let failures = lk_failed_attempts record + 1;
             wait_seconds = lockout_wait_seconds failures;
             locked_until_ms = (if wait_seconds > 0 then now_ms + wait_seconds * 1000 else 0);
             rows' = tbl_update (\<lambda>r. lock_key r = (tenant_id, user_id))
               (\<lambda>r. r\<lparr>lk_failed_attempts := failures, lk_locked_until_ms := locked_until_ms,
                      lk_updated_at := iso_from_epoch_ms_blob now_ms\<rparr>) rows
         in (read_lock tenant_id user_id rows', rows')))"

definition register_success :: "string \<Rightarrow> string \<Rightarrow> int \<Rightarrow> locks \<Rightarrow> locks" where
  "register_success tenant_id user_id now_ms rows =
     tbl_update (\<lambda>r. lock_key r = (tenant_id, user_id))
       (\<lambda>r. r\<lparr>lk_failed_attempts := 0, lk_locked_until_ms := 0, lk_last_activity_ms := now_ms,
              lk_updated_at := iso_from_epoch_ms_blob now_ms\<rparr>) rows"

definition touch_activity :: "string \<Rightarrow> string \<Rightarrow> int \<Rightarrow> locks \<Rightarrow> locks" where
  "touch_activity tenant_id user_id now_ms rows =
     tbl_update (\<lambda>r. lock_key r = (tenant_id, user_id)) (\<lambda>r. r\<lparr>lk_last_activity_ms := now_ms\<rparr>) rows"

section \<open>The gate\<close>

definition i64_sat :: "int \<Rightarrow> int" where
  "i64_sat x = max (- (2 ^ 63)) (min (2 ^ 63 - 1) x)"

definition seconds_until :: "int \<Rightarrow> int \<Rightarrow> int" where
  "seconds_until until_ms now_ms =
    (let delta = i64_sat (until_ms - now_ms) in if delta \<le> 0 then 0 else i64_div (delta + 999) 1000)"

record challenge =
  ch_reason :: string
  ch_request_id :: string
  ch_salt :: string
  ch_failed_attempts :: int
  ch_retry_after_seconds :: int

definition REGLOCK_PBKDF2_ITERATIONS :: int where "REGLOCK_PBKDF2_ITERATIONS = 310000"
definition REGLOCK_PBKDF2_KEY_BITS :: int where "REGLOCK_PBKDF2_KEY_BITS = 256"
definition REGLOCK_KDF :: string where "REGLOCK_KDF = ''PBKDF2-SHA256''"
definition MAX_FIELD_LEN :: nat where "MAX_FIELD_LEN = 128"

definition challenge_response :: "string \<Rightarrow> string \<Rightarrow> string \<Rightarrow> int \<Rightarrow> int \<Rightarrow> challenge" where
  "challenge_response request_id reason salt failed_attempts retry_after_seconds =
     \<lparr>ch_reason = reason, ch_request_id = request_id, ch_salt = salt, ch_failed_attempts = failed_attempts,
      ch_retry_after_seconds = retry_after_seconds\<rparr>"

definition check_registration_lock ::
  "digest \<Rightarrow> int \<Rightarrow> string \<Rightarrow> string \<Rightarrow> string \<Rightarrow> string option \<Rightarrow> int \<Rightarrow> locks \<Rightarrow> (challenge, unit) result \<times> locks" where
  "check_registration_lock digest reglock_expiry_seconds request_id tenant_id user_id submitted_verifier now_ms rows =
    (case read_lock tenant_id user_id rows of
       None \<Rightarrow> (Ok (), rows)
     | Some record \<Rightarrow>
         if \<not> lk_enabled record then (Ok (), rows)
         else if i64_sat (now_ms - lk_last_activity_ms record) \<ge> i64_sat (reglock_expiry_seconds * 1000) then (Ok (), rows)
         else if lk_locked_until_ms record > now_ms then
           (Err (challenge_response request_id ''rateLimited'' (lk_salt record) (lk_failed_attempts record)
                  (seconds_until (lk_locked_until_ms record) now_ms)), rows)
         else case submitted_verifier of
           None \<Rightarrow> (Err (challenge_response request_id ''pinRequired'' (lk_salt record) (lk_failed_attempts record) 0), rows)
         | Some verifier \<Rightarrow>
             if verifier = [] then
               (Err (challenge_response request_id ''pinRequired'' (lk_salt record) (lk_failed_attempts record) 0), rows)
             else if verify_lock digest tenant_id user_id verifier rows then
               (Ok (), register_success tenant_id user_id now_ms rows)
             else (case register_failure tenant_id user_id now_ms rows of
                 (updated, rows') \<Rightarrow>
                   (let (failed_attempts, retry_after) = (case updated of
                          None \<Rightarrow> (lk_failed_attempts record + 1, 0)
                        | Some r \<Rightarrow> (lk_failed_attempts r, seconds_until (lk_locked_until_ms r) now_ms))
                    in (Err (challenge_response request_id ''pinIncorrect'' (lk_salt record) failed_attempts retry_after), rows'))))"

section \<open>The management routes\<close>

definition valid_field :: "string option \<Rightarrow> string option" where
  "valid_field raw = Option.bind raw (\<lambda>r. let v = str_trim r in
     if v \<noteq> [] \<and> length v \<le> MAX_FIELD_LEN then Some v else None)"

definition enable_route ::
  "digest \<Rightarrow> (server_error, principal) result \<Rightarrow> string option \<Rightarrow> string option \<Rightarrow> int \<Rightarrow> locks \<Rightarrow> (server_error, unit) result \<times> locks" where
  "enable_route digest caller verifier salt now_ms rows =
    (case caller of
       Inl e \<Rightarrow> (Inl e, rows)
     | Inr p \<Rightarrow> (case valid_field verifier of
         None \<Rightarrow> (Inl (BadRequest ''verifier required''), rows)
       | Some v \<Rightarrow> (case valid_field salt of
           None \<Rightarrow> (Inl (BadRequest ''salt required''), rows)
         | Some s \<Rightarrow> (Ok (), enable_lock digest (p_tenant_id p) (p_user_id p) v s now_ms rows))))"

definition disable_route :: "(server_error, principal) result \<Rightarrow> int \<Rightarrow> locks \<Rightarrow> (server_error, unit) result \<times> locks" where
  "disable_route caller now_ms rows =
    (case caller of
       Inl e \<Rightarrow> (Inl e, rows)
     | Inr p \<Rightarrow> (Ok (), snd (disable_lock (p_tenant_id p) (p_user_id p) now_ms rows)))"

definition status_route :: "(server_error, principal) result \<Rightarrow> locks \<Rightarrow> (server_error, bool \<times> string option) result" where
  "status_route caller rows =
     rbind caller (\<lambda>p. Ok (case read_lock (p_tenant_id p) (p_user_id p) rows of
        None \<Rightarrow> (False, None) | Some r \<Rightarrow> (lk_enabled r, Some (lk_updated_at r))))"

interpretation locks_table: table lock_key .

section \<open>Comparing digests\<close>

lemma byte_of_eq_iff: "byte_of x = byte_of y \<longleftrightarrow> x = y"
proof -
  have m: "(of_char c :: nat) mod 256 = of_char c" for c :: char by (metis char_of_char of_char_of)
  have "unat (byte_of c) = of_char c" for c by (simp add: byte_of_def unat_of_nat m)
  then show ?thesis by (metis of_char_eq_iff)
qed

lemma fold_diff_zero:
  "fold (\<lambda>(x, y) diff. diff OR (byte_of x XOR byte_of y)) ps (a :: 8 word) = 0 \<longleftrightarrow> a = 0 \<and> (\<forall>(x, y) \<in> set ps. x = y)"
proof (induction ps arbitrary: a)
  case (Cons p ps)
  obtain x y where p: "p = (x, y)" by (cases p)
  have "byte_of x XOR byte_of y = 0 \<longleftrightarrow> x = y" 
    unfolding byte_of_eq_iff [symmetric] by (auto simp: bit_eq_iff bit_simps)
  moreover have "w OR z = 0 \<longleftrightarrow> w = 0 \<and> z = 0" for w z :: "8 word" by (auto simp: bit_eq_iff bit_simps)
  ultimately show ?case by (simp add: Cons.IH p conj_assoc)
qed simp

lemma constant_time_eq_iff: "constant_time_eq a b \<longleftrightarrow> a = b"
proof (cases "length a = length b")
  case True
  then have "(\<forall>(x, y) \<in> set (zip a b). x = y) \<longleftrightarrow> a = b" by (induction a b rule: list_induct2) auto
  with True show ?thesis by (simp add: constant_time_eq_def fold_diff_zero)
qed (auto simp: constant_time_eq_def)

lemma lock_key_updates [simp]:
  "lock_key (lk_failed_attempts_update f r) = lock_key r" "lock_key (lk_locked_until_ms_update f r) = lock_key r"
  "lock_key (lk_updated_at_update g r) = lock_key r" "lock_key (lk_last_activity_ms_update f r) = lock_key r"
  "lock_key (lk_enabled_update h r) = lock_key r"
  by (simp_all add: lock_key_def)

lemma read_lock_update [simp]:
  assumes "\<And>r. lock_key (f r) = lock_key r"
  shows "read_lock t u (tbl_update (\<lambda>r. lock_key r = (t, u)) f rows) = map_option f (read_lock t u rows)"
  using assms by (cases "read_lock t u rows") (auto simp: read_lock_def tbl_get_update dest: tbl_get_Some)


section \<open>The gate\<close>

definition enforced :: "int \<Rightarrow> int \<Rightarrow> lock_row \<Rightarrow> bool" where
  "enforced expiry now r \<longleftrightarrow> lk_enabled r \<and> i64_sat (now - lk_last_activity_ms r) < i64_sat (expiry * 1000)"

lemma check_enrolled:
  assumes "0 \<le> now" "read_lock t u rows = Some r"
  shows "check_registration_lock d expiry req t u v now rows =
     (if \<not> enforced expiry now r then (Inr (), rows)
      else if lk_locked_until_ms r > now then
           (Err (challenge_response req ''rateLimited'' (lk_salt r) (lk_failed_attempts r)
                  (seconds_until (lk_locked_until_ms r) now)), rows)
      else if v = None \<or> v = Some [] then (Err (challenge_response req ''pinRequired'' (lk_salt r) (lk_failed_attempts r) 0), rows)
      else if d (the v) = lk_verifier_hash r then (Inr (), register_success t u now rows)
      else (Err (challenge_response req ''pinIncorrect'' (lk_salt r) (lk_failed_attempts r + 1)
              (lockout_wait_seconds (lk_failed_attempts r + 1))), snd (register_failure t u now rows)))"
proof -
  have v: "verify_lock d t u x rows \<longleftrightarrow> d x = lk_verifier_hash r" for x
    by (simp add: verify_lock_def assms(2) constant_time_eq_iff)
  have w: "0 \<le> lockout_wait_seconds n" "lockout_wait_seconds n \<le> 3600" for n
    by (auto simp: lockout_wait_seconds_def LOCKOUT_MAX_SECONDS_def Let_def)
  have f: "fst (register_failure t u now rows) = Some (r\<lparr>lk_failed_attempts := lk_failed_attempts r + 1,
      lk_locked_until_ms := (if lockout_wait_seconds (lk_failed_attempts r + 1) > 0
         then now + lockout_wait_seconds (lk_failed_attempts r + 1) * 1000 else 0),
      lk_updated_at := iso_from_epoch_ms_blob now\<rparr>)"
    by (simp add: register_failure_def assms(2) Let_def)
  have g: "seconds_until (lk_locked_until_ms (the (fst (register_failure t u now rows)))) now = lockout_wait_seconds (lk_failed_attempts r + 1)"
    using w [of "lk_failed_attempts r + 1"] assms(1) by (auto simp: f seconds_until_def i64_sat_def i64_div_def Let_def)
  show ?thesis
    using f g by (auto simp: check_registration_lock_def assms(2) enforced_def v split_beta split: option.split)
qed

lemma lockout_wait_eq: "lockout_wait_seconds n = (if n < 3 then 0 else min (2 ^ nat (n - 3)) 3600)"
proof (cases "n < 15")
  case False
  then have "(2 :: int) ^ 12 \<le> 2 ^ nat (n - 3)" by (intro power_increasing) auto
  with False show ?thesis by (simp add: lockout_wait_seconds_def LOCKOUT_THRESHOLD_def LOCKOUT_MAX_SECONDS_def Let_def)
qed (simp add: lockout_wait_seconds_def LOCKOUT_THRESHOLD_def LOCKOUT_MAX_SECONDS_def Let_def)

lemma register_failure_rows:
  assumes "read_lock t u rows = Some r"
  shows "snd (register_failure t u now rows) = map (\<lambda>q. if lock_key q = (t, u) then q\<lparr>lk_failed_attempts := lk_failed_attempts r + 1,
     lk_locked_until_ms := (if lk_failed_attempts r + 1 < 3 then 0 else now + min (2 ^ nat (lk_failed_attempts r - 2)) 3600 * 1000),
     lk_updated_at := iso_from_epoch_ms_blob now\<rparr> else q) rows"
  by (auto simp: register_failure_def assms Let_def tbl_update_def lockout_wait_eq min_def)

text \<open>C22: an enforced lock lets a login through exactly when the account is not locked out and the
  submitted verifier is the enrolled one; the row of the account then has its failure count and its
  lockout cleared and its inactivity window restarted.  A wrong verifier adds one to the failure count
  and sets the lockout to the backoff of the new count.  Every other refusal leaves the store as it
  is, as does every passage of a lock that is absent, disabled or expired, and no other account's row
  is ever touched.\<close>

theorem reglock_gate_exact:
  assumes "0 \<le> now"
  shows "check_registration_lock d expiry req t u v now rows =
    (case read_lock t u rows of
       None \<Rightarrow> (Inr (), rows)
     | Some r \<Rightarrow>
         if \<not> enforced expiry now r then (Inr (), rows)
         else if lk_locked_until_ms r \<le> now \<and> (\<exists>x. v = Some x \<and> x \<noteq> [] \<and> d x = lk_verifier_hash r)
         then (Inr (), map (\<lambda>q. if lock_key q = (t, u) then q\<lparr>lk_failed_attempts := 0, lk_locked_until_ms := 0,
                 lk_last_activity_ms := now, lk_updated_at := iso_from_epoch_ms_blob now\<rparr> else q) rows)
         else if lk_locked_until_ms r \<le> now \<and> (\<exists>x. v = Some x \<and> x \<noteq> [])
         then (Inl \<lparr>ch_reason = ''pinIncorrect'', ch_request_id = req, ch_salt = lk_salt r,
                    ch_failed_attempts = lk_failed_attempts r + 1,
                    ch_retry_after_seconds = lockout_wait_seconds (lk_failed_attempts r + 1)\<rparr>,
               map (\<lambda>q. if lock_key q = (t, u) then q\<lparr>lk_failed_attempts := lk_failed_attempts r + 1,
                 lk_locked_until_ms := (if lk_failed_attempts r + 1 < 3 then 0
                   else now + min (2 ^ nat (lk_failed_attempts r - 2)) 3600 * 1000),
                 lk_updated_at := iso_from_epoch_ms_blob now\<rparr> else q) rows)
         else (Inl \<lparr>ch_reason = if lk_locked_until_ms r \<le> now then ''pinRequired'' else ''rateLimited'',
                    ch_request_id = req, ch_salt = lk_salt r, ch_failed_attempts = lk_failed_attempts r,
                    ch_retry_after_seconds = if lk_locked_until_ms r \<le> now then 0
                      else seconds_until (lk_locked_until_ms r) now\<rparr>, rows))"
proof (cases "read_lock t u rows")
  case (Some r)
  then show ?thesis
    unfolding check_enrolled [OF assms Some] register_failure_rows [OF Some]
    by (cases v) (auto simp: challenge_response_def register_success_def tbl_update_def)
qed (simp add: check_registration_lock_def)

section \<open>Guessing\<close>

lemma lockout_wait_seconds_bounds: "0 \<le> lockout_wait_seconds n" "lockout_wait_seconds n \<le> 3600"
  "15 \<le> n \<Longrightarrow> lockout_wait_seconds n = 3600"
  by (auto simp: lockout_wait_seconds_def LOCKOUT_MAX_SECONDS_def LOCKOUT_THRESHOLD_def Let_def)

text \<open>The waiting time that \<open>n\<close> wrong guesses have cost.\<close>

definition spent_ms :: "nat \<Rightarrow> int" where
  "spent_ms n = (\<Sum>i < n. lockout_wait_seconds (int i) * 1000)"

lemma spent_ms_Suc: "spent_ms (Suc n) = spent_ms n + lockout_wait_seconds (int n) * 1000"
  by (simp add: spent_ms_def)

lemma spent_ms_nonneg: "0 \<le> spent_ms n"
  unfolding spent_ms_def by (intro sum_nonneg) (simp add: lockout_wait_seconds_bounds)

lemma spent_ms_linear: "spent_ms (15 + n) \<ge> int n * 3600000"
proof (induction n)
  case 0
  show ?case using spent_ms_nonneg by simp
next
  case (Suc n)
  then show ?case using spent_ms_Suc [of "15 + n"] lockout_wait_seconds_bounds(3) [of "15 + int n"] by simp
qed

definition attempt :: "digest \<Rightarrow> int \<Rightarrow> string \<Rightarrow> string \<Rightarrow> int \<times> string \<Rightarrow> locks \<Rightarrow> locks" where
  "attempt d expiry t u a rows = snd (check_registration_lock d expiry ''r'' t u (Some (snd a)) (fst a) rows)"

text \<open>An attempt tells its sender something about the enrolled verifier when another verifier submitted
  in its place would have got another answer.  \<open>telling\<close> counts these attempts in a sequence.\<close>

definition tells :: "digest \<Rightarrow> int \<Rightarrow> string \<Rightarrow> string \<Rightarrow> int \<times> string \<Rightarrow> locks \<Rightarrow> bool" where
  "tells d expiry t u a rows \<longleftrightarrow> (\<exists>x. x \<noteq> [] \<and>
     fst (check_registration_lock d expiry ''r'' t u (Some x) (fst a) rows)
       \<noteq> fst (check_registration_lock d expiry ''r'' t u (Some (snd a)) (fst a) rows))"

fun telling :: "digest \<Rightarrow> int \<Rightarrow> string \<Rightarrow> string \<Rightarrow> (int \<times> string) list \<Rightarrow> locks \<Rightarrow> nat" where
  "telling d expiry t u [] rows = 0"
| "telling d expiry t u (a # as) rows =
     (if tells d expiry t u a rows then 1 else 0) + telling d expiry t u as (attempt d expiry t u a rows)"

text \<open>The lock of the account after \<open>n\<close> wrong guesses, the last of them at \<open>s\<close>.\<close>

definition guessed :: "nat \<Rightarrow> int \<Rightarrow> lock_row \<Rightarrow> lock_row \<Rightarrow> bool" where
  "guessed n s r r' \<longleftrightarrow> lk_failed_attempts r' = int n
     \<and> lk_locked_until_ms r' = (if lockout_wait_seconds (int n) > 0 then s + lockout_wait_seconds (int n) * 1000 else 0)
     \<and> lk_enabled r' \<and> lk_verifier_hash r' = lk_verifier_hash r \<and> lk_last_activity_ms r' = lk_last_activity_ms r"

lemma attempt_step:
  assumes "read_lock t u rows = Some r'" "guessed n s r r'" "s \<le> now" "0 \<le> now" "t0 + spent_ms n \<le> s"
    and "enforced expiry now r" "snd a \<noteq> []" "d (snd a) \<noteq> lk_verifier_hash r" "fst a = now"
  shows "\<exists>n' s' r''. read_lock t u (attempt d expiry t u a rows) = Some r'' \<and> guessed n' s' r r'' \<and> s' \<le> now \<and> t0 + spent_ms n' \<le> s'
    \<and> n + (if tells d expiry t u a rows then 1 else 0) \<le> n'"
proof (cases "lk_locked_until_ms r' \<le> now")
  case False
  have e: "enforced expiry now r'" using assms(2,6) by (simp add: enforced_def guessed_def)
  have "attempt d expiry t u a rows = rows" "\<not> tells d expiry t u a rows"
    using assms(7-9) False e by (auto simp: attempt_def tells_def check_enrolled [OF assms(4,1)])
  then show ?thesis using assms(1-5) by auto
next
  case True
  have e: "enforced expiry now r'" using assms(2,6) by (simp add: enforced_def guessed_def)
  let ?w = "lockout_wait_seconds (int (Suc n))"
  have "attempt d expiry t u a rows = snd (register_failure t u now rows)"
    using assms(2,7-9) True e by (auto simp: attempt_def check_enrolled [OF assms(4,1)] guessed_def)
  moreover have "read_lock t u (snd (register_failure t u now rows)) =
      Some (r'\<lparr>lk_failed_attempts := int (Suc n), lk_locked_until_ms := (if ?w > 0 then now + ?w * 1000 else 0),
               lk_updated_at := iso_from_epoch_ms_blob now\<rparr>)"
    using assms(2) by (simp add: register_failure_def assms(1) Let_def guessed_def add.commute)
  moreover have "t0 + spent_ms (Suc n) \<le> now"
    using assms(2,3,5) True lockout_wait_seconds_bounds(1) [of "int n"]
    by (auto simp: spent_ms_Suc guessed_def split: if_splits)
  ultimately show ?thesis
    using assms(2) by (intro exI [of _ "Suc n"] exI [of _ now]) (auto simp: guessed_def)
qed

lemma attempts_guessed:
  assumes "read_lock t u rows = Some r'" "guessed n s r r'" "t0 + spent_ms n \<le> s" "s \<le> now" "0 \<le> now" "sorted (now # map fst as)"
    and "\<forall>a \<in> set as. enforced expiry (fst a) r \<and> snd a \<noteq> [] \<and> d (snd a) \<noteq> lk_verifier_hash r"
  shows "\<exists>n' s' r''. read_lock t u (fold (attempt d expiry t u) as rows) = Some r'' \<and> guessed n' s' r r''
    \<and> t0 + spent_ms n' \<le> s' \<and> s' \<le> last (now # map fst as) \<and> n + telling d expiry t u as rows \<le> n'"
  using assms
proof (induction as arbitrary: rows r' n s now)
  case (Cons a as)
  have "s \<le> fst a" "0 \<le> fst a" using Cons.prems(4-6) by auto
  from attempt_step [OF Cons.prems(1,2) this Cons.prems(3), of expiry a d] Cons.prems(7)
  obtain n' s' r'' where step: "read_lock t u (attempt d expiry t u a rows) = Some r''" "guessed n' s' r r''" "s' \<le> fst a" "t0 + spent_ms n' \<le> s'"
    "n + (if tells d expiry t u a rows then 1 else 0) \<le> n'"
    by auto
  have "sorted (fst a # map fst as)" using Cons.prems(6) by simp
  from Cons.IH [OF step(1,2,4,3) \<open>0 \<le> fst a\<close> this] Cons.prems(7)
  obtain m q r3 where "read_lock t u (fold (attempt d expiry t u) as (attempt d expiry t u a rows)) = Some r3" "guessed m q r r3"
    "t0 + spent_ms m \<le> q" "q \<le> last (fst a # map fst as)" "n' + telling d expiry t u as (attempt d expiry t u a rows) \<le> m" by auto
  then show ?case using step(5) by (intro exI [of _ m] exI [of _ q] exI [of _ r3]) (auto split: if_splits)
qed auto

text \<open>C23: guessing the PIN is slow.  However many wrong verifiers are submitted and however they are
  timed within \<open>T\<close> milliseconds of a cleared counter, at most \<open>15 + T / 3600000\<close> of the answers depend on
  the submitted verifier, that is, tell the sender anything about the enrolled one; the failure counter
  is at least that number and at most the same bound, and the lock keeps its verifier and stays enabled.\<close>

theorem reglock_guess_bound:
  assumes "read_lock t u rows = Some r" "lk_enabled r" "lk_failed_attempts r = 0" "lk_locked_until_ms r = 0" "0 \<le> start" "0 \<le> T"
    and "sorted (start # map fst as)" "\<forall>a \<in> set as. fst a \<le> start + T"
    and "\<forall>a \<in> set as. enforced expiry (fst a) r \<and> snd a \<noteq> [] \<and> d (snd a) \<noteq> lk_verifier_hash r"
  shows "int (telling d expiry t u as rows) \<le> 15 + T div 3600000
    \<and> (\<exists>r'. read_lock t u (fold (attempt d expiry t u) as rows) = Some r'
        \<and> int (telling d expiry t u as rows) \<le> lk_failed_attempts r' \<and> lk_failed_attempts r' \<le> 15 + T div 3600000
        \<and> lk_enabled r' \<and> lk_verifier_hash r' = lk_verifier_hash r)"
proof (cases as)
  case (Cons a as')
  have "guessed 0 start r r" using assms(2-4) by (simp add: guessed_def lockout_wait_seconds_def LOCKOUT_THRESHOLD_def)
  moreover have "start + spent_ms 0 \<le> start" by (simp add: spent_ms_def)
  ultimately obtain n s r' where r: "read_lock t u (fold (attempt d expiry t u) as rows) = Some r'" "guessed n s r r'"
    "start + spent_ms n \<le> s" "s \<le> last (start # map fst as)" "telling d expiry t u as rows \<le> n"
    using attempts_guessed [OF assms(1) _ _ _ assms(5,7,9), of 0 start start] by auto
  have "last (start # map fst as) \<in> set (map fst as)" using Cons by (simp add: last_map)
  then have "last (start # map fst as) \<le> start + T" using assms(8) by auto
  then have T: "spent_ms n \<le> T" using r(3,4) by linarith
  have "int n \<le> 15 + T div 3600000"
  proof (cases "n \<le> 15")
    case True
    then show ?thesis using assms(6) by (simp add: pos_imp_zdiv_nonneg_iff)
  next
    case False
    then obtain k where k: "n = 15 + k" by (metis nat_le_linear le_Suc_ex)
    then have "int k * 3600000 \<le> T" using spent_ms_linear [of k] T by simp
    then have "int k \<le> T div 3600000" using zdiv_mono1 [of "int k * 3600000" T 3600000] by simp
    then show ?thesis using k by simp
  qed
  then show ?thesis using r(1,2,5) by (auto simp: guessed_def)
qed (use assms in \<open>auto\<close>)

section \<open>Examples\<close>

definition sample_locks :: locks where
  "sample_locks = enable_lock sample_digest ''t'' ''u'' ''pin'' ''salt'' 1700000000000 []"

lemma sample_lock:
  "\<exists>r. read_lock ''t'' ''u'' sample_locks = Some r \<and> lk_enabled r \<and> lk_failed_attempts r = 0 \<and> lk_locked_until_ms r = 0
     \<and> lk_verifier_hash r = ''sha:pin'' \<and> lk_last_activity_ms r = 1700000000000"
  by (simp add: sample_locks_def enable_lock_def read_lock_def tbl_get_def lock_key_def sample_digest_def Let_def)

theorem reglock_gate_exact_witness:
  "fst (check_registration_lock sample_digest 604800 ''q'' ''t'' ''u'' (Some ''pin'') 1700000001000 sample_locks) = Inr ()
   \<and> fst (check_registration_lock sample_digest 604800 ''q'' ''t'' ''u'' (Some ''pin2'') 1700000001000 sample_locks) \<noteq> Inr ()"
proof -
  obtain r where r: "read_lock ''t'' ''u'' sample_locks = Some r" "lk_enabled r" "lk_locked_until_ms r = 0"
     "lk_verifier_hash r = ''sha:pin''" "lk_last_activity_ms r = 1700000000000" using sample_lock by blast
  then have "enforced 604800 1700000001000 r" by (simp add: enforced_def i64_sat_def)
  then show ?thesis
    using reglock_gate_exact [of 1700000001000 sample_digest 604800 "''q''" "''t''" "''u''" "Some ''pin''" sample_locks]
      reglock_gate_exact [of 1700000001000 sample_digest 604800 "''q''" "''t''" "''u''" "Some ''pin2''" sample_locks] r
    by (simp add: sample_digest_def)
qed

theorem reglock_guess_bound_witness:
  "1 \<le> telling sample_digest 604800 ''t'' ''u'' [(1700000000000, ''a''), (1700000000000, ''b''), (1700003600000, ''c'')] sample_locks
   \<and> telling sample_digest 604800 ''t'' ''u'' [(1700000000000, ''a''), (1700000000000, ''b''), (1700003600000, ''c'')] sample_locks \<le> 16
   \<and> (\<exists>r'. read_lock ''t'' ''u'' (fold (attempt sample_digest 604800 ''t'' ''u'')
       [(1700000000000, ''a''), (1700000000000, ''b''), (1700003600000, ''c'')] sample_locks) = Some r' \<and> lk_failed_attempts r' \<le> 16)"
proof -
  let ?as = "[(1700000000000, ''a''), (1700000000000, ''b''), (1700003600000, ''c'')] :: (int \<times> string) list"
  obtain r where r: "read_lock ''t'' ''u'' sample_locks = Some r" "lk_enabled r" "lk_failed_attempts r = 0" "lk_locked_until_ms r = 0"
     "lk_verifier_hash r = ''sha:pin''" "lk_last_activity_ms r = 1700000000000" using sample_lock by blast
  have w: "\<forall>a \<in> set ?as. enforced 604800 (fst a) r \<and> snd a \<noteq> [] \<and> sample_digest (snd a) \<noteq> lk_verifier_hash r"
    using r by (simp add: enforced_def i64_sat_def sample_digest_def)
  have "tells sample_digest 604800 ''t'' ''u'' (1700000000000, ''a'') sample_locks"
    unfolding tells_def by (rule exI [of _ "''pin''"]) code_simp
  then show ?thesis using reglock_guess_bound [OF r(1-4) _ _ _ _ w, of 1700000000000 3600000] by auto
qed

end
