(* ===== verification/FrickProg.thy ===== *)
theory FrickProg
  imports FrickPrelude
begin

text \<open>
  Programs over a state.  A Rust \<open>async fn(&self, ...) -> Result<T, E>\<close> that changes the store behind
  \<open>self\<close> is a function from the state to its result and the state it leaves, and the state it leaves
  counts on the error path too: nothing is rolled back by \<open>?\<close>.

  The interface \<open>simulation\<close> is what a refinement proof shows of one operation; its lemma is the
  statement about sequences of operations.
\<close>

named_theorems prog_simps \<open>evaluation of programs over a state\<close>
named_theorems prog_keeps \<open>invariants kept by programs over a state\<close>

section \<open>State and result\<close>

type_synonym ('s, 'e, 'a) prog = "'s \<Rightarrow> ('e, 'a) result \<times> 's"

definition sret :: "'a \<Rightarrow> ('s, 'e, 'a) prog" where
  "sret a = (\<lambda>s. (Ok a, s))"

definition sfail :: "'e \<Rightarrow> ('s, 'e, 'a) prog" where
  "sfail e = (\<lambda>s. (Err e, s))"

text \<open>\<open>let x = m.await?; ...\<close>\<close>

definition sbind :: "('s, 'e, 'a) prog \<Rightarrow> ('a \<Rightarrow> ('s, 'e, 'b) prog) \<Rightarrow> ('s, 'e, 'b) prog" where
  "sbind m f = (\<lambda>s. case m s of (Inl e, s') \<Rightarrow> (Inl e, s') | (Inr a, s') \<Rightarrow> f a s')"

text \<open>A computation that only reads the state, one that only changes it, an early return, and
  \<open>map_err\<close>.\<close>

definition sread :: "('s \<Rightarrow> ('e, 'a) result) \<Rightarrow> ('s, 'e, 'a) prog" where
  "sread f = (\<lambda>s. (f s, s))"

definition smodify :: "('s \<Rightarrow> 's) \<Rightarrow> ('s, 'e, unit) prog" where
  "smodify f = (\<lambda>s. (Ok (), f s))"

definition sguard :: "bool \<Rightarrow> 'e \<Rightarrow> ('s, 'e, unit) prog" where
  "sguard b e = (if b then sret () else sfail e)"

definition smap_err :: "('e \<Rightarrow> 'f) \<Rightarrow> ('s, 'e, 'a) prog \<Rightarrow> ('s, 'f, 'a) prog" where
  "smap_err f m = (\<lambda>s. case m s of (r, s') \<Rightarrow> (map_err f r, s'))"

text \<open>A program over a part of the state.\<close>

definition slift :: "('s \<Rightarrow> 't) \<Rightarrow> ('t \<Rightarrow> 's \<Rightarrow> 's) \<Rightarrow> ('t, 'e, 'a) prog \<Rightarrow> ('s, 'e, 'a) prog" where
  "slift get put m = (\<lambda>s. case m (get s) of (r, t) \<Rightarrow> (r, put t s))"

fun sfor :: "('a \<Rightarrow> ('s, 'e, unit) prog) \<Rightarrow> 'a list \<Rightarrow> ('s, 'e, unit) prog" where
  "sfor f [] = sret ()"
| "sfor f (x # xs) = sbind (f x) (\<lambda>_. sfor f xs)"

lemma prog_app [prog_simps]:
  "sret a s = (Ok a, s)" "sfail e s = (Err e, s)" "sread f s = (f s, s)" "smodify g s = (Ok (), g s)"
  "sguard b e s = (if b then (Ok (), s) else (Err e, s))"
  by (simp_all add: sret_def sfail_def sread_def smodify_def sguard_def)

lemma sbind_app: "sbind m f s = (case m s of (Inl e, s') \<Rightarrow> (Inl e, s') | (Inr a, s') \<Rightarrow> f a s')"
  by (simp add: sbind_def)

lemma sbind_Ok [prog_simps]: "sbind m f s = (Inr b, s'') \<longleftrightarrow> (\<exists>a s'. m s = (Inr a, s') \<and> f a s' = (Inr b, s''))"
  by (auto simp: sbind_def split: sum.splits prod.splits)

section \<open>What a program keeps\<close>

text \<open>\<open>keeps P m\<close>: started in a state with \<open>P\<close>, the program leaves a state with \<open>P\<close>, whether it
  returns a value or an error.\<close>

definition keeps :: "('s \<Rightarrow> bool) \<Rightarrow> ('s, 'e, 'a) prog \<Rightarrow> bool" where
  "keeps P m \<longleftrightarrow> (\<forall>s. P s \<longrightarrow> P (snd (m s)))"

lemma keepsI: "(\<And>s. P s \<Longrightarrow> P (snd (m s))) \<Longrightarrow> keeps P m"
  by (simp add: keeps_def)

lemma keepsD: "keeps P m \<Longrightarrow> P s \<Longrightarrow> P (snd (m s))"
  by (simp add: keeps_def)

lemma keeps_basic [prog_keeps]:
  "keeps P (sret a)" "keeps P (sfail e)" "keeps P (sread f)" "keeps P (sguard b e')"
  by (auto simp: keeps_def prog_simps)

lemma keeps_sbind [prog_keeps]:
  assumes "keeps P m" and "\<And>a. keeps P (f a)"
  shows "keeps P (sbind m f)"
proof (rule keepsI)
  fix s assume "P s"
  then have p: "P (snd (m s))" by (rule keepsD [OF assms(1)])
  then show "P (snd (sbind m f s))"
    using keepsD [OF assms(2)] by (cases "m s") (auto simp: sbind_def split: sum.split)
qed

lemma keeps_smap_err [prog_keeps]: "keeps P m \<Longrightarrow> keeps P (smap_err g m)"
  by (auto simp: keeps_def smap_err_def split: prod.split)

lemma keeps_sfor [prog_keeps]: "(\<And>x. keeps P (f x)) \<Longrightarrow> keeps P (sfor f xs)"
  by (induction xs) (auto intro: prog_keeps)

section \<open>Sequences of operations\<close>

fun run_ops :: "('o \<Rightarrow> 's \<Rightarrow> 'r \<times> 's) \<Rightarrow> 'o list \<Rightarrow> 's \<Rightarrow> 'r list \<times> 's" where
  "run_ops step [] s = ([], s)"
| "run_ops step (q # ops) s =
    (case step q s of (r, s') \<Rightarrow> (case run_ops step ops s' of (rs, s'') \<Rightarrow> (r # rs, s'')))"

locale simulation =
  fixes step :: "'o \<Rightarrow> 's \<Rightarrow> 'r \<times> 's"
    and spec :: "'o \<Rightarrow> 't \<Rightarrow> 'r \<times> 't"
    and rel :: "'s \<Rightarrow> 't \<Rightarrow> bool"
    and admissible :: "'o \<Rightarrow> bool"
  assumes step_spec: "rel s t \<Longrightarrow> admissible q \<Longrightarrow> fst (step q s) = fst (spec q t) \<and> rel (snd (step q s)) (snd (spec q t))"
begin

lemma run_spec:
  "rel s t \<Longrightarrow> list_all admissible ops \<Longrightarrow>
     fst (run_ops step ops s) = fst (run_ops spec ops t) \<and> rel (snd (run_ops step ops s)) (snd (run_ops spec ops t))"
proof (induction ops arbitrary: s t)
  case (Cons q ops)
  obtain r s' where s': "step q s = (r, s')" by fastforce
  obtain r' t' where t': "spec q t = (r', t')" by fastforce
  have "r' = r" and "rel s' t'" using step_spec [of s t q] Cons.prems s' t' by auto
  with Cons.IH [of s' t'] Cons.prems show ?case
    by (cases "run_ops step ops s'", cases "run_ops spec ops t'") (simp add: s' t')
qed simp

end

text \<open>Operations that also read an environment they do not change.\<close>

definition in_env :: "('e \<Rightarrow> 'o \<Rightarrow> 's \<Rightarrow> 'r \<times> 's) \<Rightarrow> 'o \<Rightarrow> 'e \<times> 's \<Rightarrow> 'r \<times> 'e \<times> 's" where
  "in_env step q s = (case step (fst s) q (snd s) of (r, s') \<Rightarrow> (r, fst s, s'))"

lemma run_in_env: "run_ops (in_env step) ops (e, s) = (case run_ops (step e) ops s of (rs, s') \<Rightarrow> (rs, e, s'))"
  by (induction ops arbitrary: s) (auto simp: in_env_def split: prod.splits)

end
