(* ===== verification/FrickEphemeral.thy ===== *)
theory FrickEphemeral
  imports FrickObjectStore FrickProg "HOL-Library.Multiset"
begin

text \<open>
  Presence leases (\<open>frick-store/src/stores/presence.rs\<close>) and the signal outbox
  (\<open>frick-store/src/stores/signal.rs\<close>): the two stores whose rows expire.

  Both columns are packed and not sealed.  The clock is an argument of every operation, as in the
  code; \<open>now_ms + ttl_ms\<close> is an unbounded sum, so the overflow of \<open>i64\<close> is not modelled.
  \<open>presence_refines\<close> and \<open>signals_at_most_once\<close> compare the stores with what they promise: a
  map of leases, and one queue per scoped key.
\<close>

section \<open>Presence leases\<close>

record lease_row =
  le_app_id :: string
  le_tenant_id :: string
  le_presence_type :: string
  le_presence_key :: string
  le_packed :: string
  le_expires_at :: int

definition lease_key :: "lease_row \<Rightarrow> string \<times> string \<times> string \<times> string" where
  "lease_key r = (le_app_id r, le_tenant_id r, le_presence_type r, le_presence_key r)"

interpretation leases_table: table lease_key .

definition set_lease ::
  "store_env \<Rightarrow> string \<Rightarrow> string \<Rightarrow> string \<Rightarrow> value \<Rightarrow> int \<Rightarrow> string \<Rightarrow> int \<Rightarrow> lease_row list
    \<Rightarrow> (store_error, lease_row list) result" where
  "set_lease env tenant_id presence_type presence_key v ttl_ms app_id now_ms rows =
     rbind (map_err Store (pack_presence_record (se_schema env) presence_type presence_key v)) (\<lambda>packed.
     rbind (encode_packed (wi_enc_record (se_wire env)) packed) (\<lambda>encoded.
     Ok (tbl_upsert lease_key
       \<lparr>le_app_id = app_id, le_tenant_id = tenant_id, le_presence_type = presence_type,
        le_presence_key = presence_key, le_packed = encoded, le_expires_at = now_ms + ttl_ms\<rparr> rows)))"

definition clear_lease ::
  "string \<Rightarrow> string \<Rightarrow> string \<Rightarrow> string \<Rightarrow> lease_row list \<Rightarrow> lease_row list" where
  "clear_lease tenant_id presence_type presence_key app_id rows =
     tbl_delete lease_key (app_id, tenant_id, presence_type, presence_key) rows"

definition open_lease :: "store_env \<Rightarrow> string \<Rightarrow> (store_error, value) result" where
  "open_lease env bytes =
     rbind (decode_packed (wi_dec_record (se_wire env)) bytes) (\<lambda>packed.
     rbind (map_err Store (unpack_presence_record (se_schema env) packed)) (\<lambda>rec.
     Ok (uk_value rec)))"

definition read_lease ::
  "store_env \<Rightarrow> string \<Rightarrow> string \<Rightarrow> string \<Rightarrow> string \<Rightarrow> int \<Rightarrow> lease_row list
    \<Rightarrow> (store_error, value option) result \<times> lease_row list" where
  "read_lease env tenant_id presence_type presence_key app_id now_ms rows =
    (case tbl_get lease_key (app_id, tenant_id, presence_type, presence_key) rows of
       None \<Rightarrow> (Ok None, rows)
     | Some row \<Rightarrow>
        if le_expires_at row \<le> now_ms
        then (Ok None, clear_lease tenant_id presence_type presence_key app_id rows)
        else (rbind (open_lease env (le_packed row)) (\<lambda>v. Ok (Some v)), rows))"

section \<open>The signal outbox\<close>

record signal_row =
  sr_id :: int
  sr_app_id :: string
  sr_tenant_id :: string
  sr_signal_type :: string
  sr_signal_key :: string
  sr_packed :: string
  sr_expires_at :: int

text \<open>\<open>id INTEGER PRIMARY KEY AUTOINCREMENT\<close>: the last id handed out is kept beside the rows, so the
  id of a deleted row is never used again.\<close>

record outbox =
  sb_rows :: "signal_row list"
  sb_last_id :: int

definition enqueue_signal_row ::
  "store_env \<Rightarrow> string \<Rightarrow> string \<Rightarrow> string \<Rightarrow> value \<Rightarrow> int \<Rightarrow> string \<Rightarrow> int \<Rightarrow> outbox
    \<Rightarrow> (store_error, outbox) result" where
  "enqueue_signal_row env tenant_id signal_type signal_key v ttl_ms app_id now_ms ob =
     rbind (map_err Store (pack_signal_envelope (se_schema env) signal_type signal_key v)) (\<lambda>packed.
     rbind (encode_packed (wi_enc_record (se_wire env)) packed) (\<lambda>encoded.
     Ok \<lparr>sb_rows = sb_rows ob @
         [\<lparr>sr_id = sb_last_id ob + 1, sr_app_id = app_id, sr_tenant_id = tenant_id, sr_signal_type = signal_type,
           sr_signal_key = signal_key, sr_packed = encoded, sr_expires_at = now_ms + ttl_ms\<rparr>],
         sb_last_id = sb_last_id ob + 1\<rparr>))"

definition drained_by :: "string \<Rightarrow> string \<Rightarrow> string \<Rightarrow> string \<Rightarrow> int \<Rightarrow> signal_row \<Rightarrow> bool" where
  "drained_by app_id tenant_id signal_type signal_key now_ms r \<longleftrightarrow>
     sr_app_id r = app_id \<and> sr_tenant_id r = tenant_id \<and> sr_signal_type r = signal_type
     \<and> sr_signal_key r = signal_key \<and> sr_expires_at r > now_ms"

definition open_signal :: "store_env \<Rightarrow> string \<Rightarrow> (store_error, value) result" where
  "open_signal env bytes =
     rbind (decode_packed (wi_dec_record (se_wire env)) bytes) (\<lambda>packed.
     rbind (map_err Store (unpack_signal_envelope (se_schema env) packed)) (\<lambda>envelope.
     Ok (uk_value envelope)))"

text \<open>\<open>DELETE ... RETURNING\<close> is one statement; the order in which the database returns the rows is
  an argument.\<close>

definition drain_signals ::
  "store_env \<Rightarrow> (signal_row list \<Rightarrow> signal_row list) \<Rightarrow> string \<Rightarrow> string \<Rightarrow> string \<Rightarrow> string \<Rightarrow> int \<Rightarrow> outbox
    \<Rightarrow> (store_error, value list) result \<times> outbox" where
  "drain_signals env returning tenant_id signal_type signal_key app_id now_ms ob =
    (let p = drained_by app_id tenant_id signal_type signal_key now_ms;
         rows = returning (filter p (sb_rows ob));
         ob' = ob\<lparr>sb_rows := filter (\<lambda>r. \<not> p r) (sb_rows ob)\<rparr>
     in if rows = [] then (Ok [], ob')
        else (rmap (\<lambda>row. open_signal env (sr_packed row)) (order_by sr_id rows), ob'))"

section \<open>Presence against its specification\<close>

text \<open>What a value is read back as: its entries under string keys, the last entry of a key winning.\<close>

definition carried_value :: "value \<Rightarrow> value" where
  "carried_value v = VMap (assign_entries [] (value_entries v))"

lemma open_packed:
  assumes "wire_inverse (se_wire env)" "validate_schema lc (se_schema env) = Inr ()"
    and "encode_packed (wi_enc_record (se_wire env)) p = Inr b"
  shows "pack_presence_record (se_schema env) ty k v = Inr p \<Longrightarrow> open_lease env b = Inr (carried_value v)"
    and "pack_signal_envelope (se_schema env) ty k v = Inr p \<Longrightarrow> open_signal env b = Inr (carried_value v)"
proof -
  have d: "wi_dec_record (se_wire env) b = Inr p"
    using assms(1,3) by (cases p) (auto simp: wire_inverse_def encode_packed_def)
  show "pack_presence_record (se_schema env) ty k v = Inr p \<Longrightarrow> open_lease env b = Inr (carried_value v)"
    using validated_lookup_by_id(4) [OF assms(2)] unpack_pack_any [OF validated_field_ids(3) [OF assms(2)], where start = "[]"]
    by (auto simp: d open_lease_def pack_presence_record_def unpack_presence_record_def decode_packed_def
        carried_value_def unpack_fields_def)
  show "pack_signal_envelope (se_schema env) ty k v = Inr p \<Longrightarrow> open_signal env b = Inr (carried_value v)"
    using validated_lookup_by_id(5) [OF assms(2)] unpack_pack_any [OF validated_field_ids(4) [OF assms(2)], where start = "[]"]
    by (auto simp: d open_signal_def pack_signal_envelope_def unpack_signal_envelope_def decode_packed_def
        carried_value_def unpack_fields_def)
qed

type_synonym scope = "string \<times> string \<times> string \<times> string"

datatype lease_op = SetLease scope "value" int | ReadLease scope | ClearLease scope

text \<open>One operation at a time of the clock, on the store and on the specification: a map from the
  scoped key to the value of the lease and its expiry.\<close>

fun lease_step :: "store_env \<Rightarrow> int \<times> lease_op \<Rightarrow> lease_row list \<Rightarrow> (store_error, value option) result \<times> lease_row list"
where
  "lease_step env (now, SetLease (app, t, ty, k) v ttl) rows =
    (case set_lease env t ty k v ttl app now rows of Inl e \<Rightarrow> (Err e, rows) | Inr rows' \<Rightarrow> (Ok None, rows'))"
| "lease_step env (now, ReadLease (app, t, ty, k)) rows = read_lease env t ty k app now rows"
| "lease_step env (now, ClearLease (app, t, ty, k)) rows = (Ok None, clear_lease t ty k app rows)"

fun packs_as :: "store_env \<Rightarrow> (protocol_error, packed_record) result \<Rightarrow> (store_error, string) result" where
  "packs_as env r = rbind (map_err Store r) (encode_packed (wi_enc_record (se_wire env)))"

fun lease_spec ::
  "store_env \<Rightarrow> int \<times> lease_op \<Rightarrow> (scope \<Rightarrow> (value \<times> int) option) \<Rightarrow> (store_error, value option) result \<times> (scope \<Rightarrow> (value \<times> int) option)"
where
  "lease_spec env (now, SetLease (app, t, ty, k) v ttl) m =
    (case packs_as env (pack_presence_record (se_schema env) ty k v) of
       Inl e \<Rightarrow> (Err e, m) | Inr _ \<Rightarrow> (Ok None, m((app, t, ty, k) \<mapsto> (carried_value v, now + ttl))))"
| "lease_spec env (now, ReadLease i) m =
    (case m i of Some (v, expires) \<Rightarrow> if now < expires then (Ok (Some v), m) else (Ok None, m(i := None)) | None \<Rightarrow> (Ok None, m))"
| "lease_spec env (now, ClearLease i) m = (Ok None, m(i := None))"

fun lease_matches :: "store_env \<Rightarrow> lease_row option \<Rightarrow> (value \<times> int) option \<Rightarrow> bool" where
  "lease_matches env None x \<longleftrightarrow> x = None"
| "lease_matches env (Some r) x \<longleftrightarrow>
     x \<noteq> None \<and> open_lease env (le_packed r) = Inr (fst (the x)) \<and> le_expires_at r = snd (the x)"

definition lease_rel :: "store_env \<Rightarrow> lease_row list \<Rightarrow> (scope \<Rightarrow> (value \<times> int) option) \<Rightarrow> bool" where
  "lease_rel env rows m \<longleftrightarrow> (\<forall>i. lease_matches env (tbl_get lease_key i rows) (m i))"

lemma lease_rel_upd:
  assumes "lease_rel env rows m"
  shows "lease_rel env (tbl_delete lease_key i rows) (m(i := None))"
    and "i = lease_key r \<Longrightarrow> open_lease env (le_packed r) = Inr v \<Longrightarrow> e = le_expires_at r
      \<Longrightarrow> lease_rel env (tbl_upsert lease_key r rows) (m(i \<mapsto> (v, e)))"
  using assms by (simp_all add: lease_rel_def tbl_get_delete tbl_get_upsert del: split_paired_All)

lemma lease_step_spec:
  assumes "wire_inverse (se_wire env)" "validate_schema lc (se_schema env) = Inr ()" and rel: "lease_rel env rows m"
  shows "fst (lease_step env q rows) = fst (lease_spec env q m)
    \<and> lease_rel env (snd (lease_step env q rows)) (snd (lease_spec env q m))"
proof -
  obtain now p where q: "q = (now, p)" by fastforce
  show ?thesis
  proof (cases p)
    case (SetLease i v ttl)
    obtain app t ty k where i: "i = (app, t, ty, k)" by (cases i) auto
    show ?thesis
    proof (cases "packs_as env (pack_presence_record (se_schema env) ty k v)")
      case (Inl e)
      then show ?thesis using rel by (cases "pack_presence_record (se_schema env) ty k v") (auto simp: q SetLease i set_lease_def)
    next
      case (Inr b)
      then obtain pr where pr: "pack_presence_record (se_schema env) ty k v = Inr pr"
        "encode_packed (wi_enc_record (se_wire env)) pr = Inr b" by auto
      then show ?thesis
        using open_packed(1) [OF assms(1,2) pr(2) pr(1)]
        by (auto simp: q SetLease i set_lease_def lease_key_def intro!: lease_rel_upd(2) [OF rel])
    qed
  next
    case (ReadLease i)
    obtain app t ty k where i: "i = (app, t, ty, k)" by (cases i) auto
    have "lease_matches env (tbl_get lease_key i rows) (m i)" using rel by (simp add: lease_rel_def del: split_paired_All)
    then show ?thesis
      using rel lease_rel_upd(1) [OF rel, of i]
      by (cases "tbl_get lease_key i rows") (auto simp: q ReadLease i read_lease_def clear_lease_def)
  next
    case (ClearLease i)
    then show ?thesis using lease_rel_upd(1) [OF rel, of i] by (cases i) (simp add: q clear_lease_def)
  qed
qed

section \<open>The outbox against its specification\<close>

definition signal_scope :: "signal_row \<Rightarrow> scope" where
  "signal_scope r = (sr_app_id r, sr_tenant_id r, sr_signal_type r, sr_signal_key r)"

datatype signal_op = Enqueue scope "value" int | Drain scope

fun signal_step ::
  "store_env \<Rightarrow> (signal_row list \<Rightarrow> signal_row list) \<Rightarrow> int \<times> signal_op \<Rightarrow> outbox \<Rightarrow> (store_error, value list) result \<times> outbox"
where
  "signal_step env returning (now, Enqueue (app, t, ty, k) v ttl) ob =
    (case enqueue_signal_row env t ty k v ttl app now ob of Inl e \<Rightarrow> (Err e, ob) | Inr ob' \<Rightarrow> (Ok [], ob'))"
| "signal_step env returning (now, Drain (app, t, ty, k)) ob = drain_signals env returning t ty k app now ob"

text \<open>The specification: one first-in first-out queue of values with their expiry per scoped key; a
  drain takes the live ones and leaves the others.\<close>

fun signal_spec ::
  "store_env \<Rightarrow> int \<times> signal_op \<Rightarrow> (scope \<Rightarrow> (value \<times> int) list) \<Rightarrow> (store_error, value list) result \<times> (scope \<Rightarrow> (value \<times> int) list)"
where
  "signal_spec env (now, Enqueue (app, t, ty, k) v ttl) m =
    (case packs_as env (pack_signal_envelope (se_schema env) ty k v) of
       Inl e \<Rightarrow> (Err e, m)
     | Inr _ \<Rightarrow> (Ok [], m((app, t, ty, k) := m (app, t, ty, k) @ [(carried_value v, now + ttl)])))"
| "signal_spec env (now, Drain i) m =
    (Ok (map fst (filter (\<lambda>(v, expires). now < expires) (m i))), m(i := filter (\<lambda>(v, expires). \<not> now < expires) (m i)))"

definition signal_rel :: "store_env \<Rightarrow> outbox \<Rightarrow> (scope \<Rightarrow> (value \<times> int) list) \<Rightarrow> bool" where
  "signal_rel env ob m \<longleftrightarrow> sorted_wrt (<) (map sr_id (sb_rows ob)) \<and> (\<forall>r \<in> set (sb_rows ob). sr_id r \<le> sb_last_id ob)
     \<and> (\<forall>i. list_all2 (\<lambda>r e. open_signal env (sr_packed r) = Inr (fst e) \<and> sr_expires_at r = snd e)
              (filter (\<lambda>r. signal_scope r = i) (sb_rows ob)) (m i))"

lemma list_all2_filter:
  "list_all2 P xs ys \<Longrightarrow> (\<And>x y. P x y \<Longrightarrow> p x \<longleftrightarrow> q y) \<Longrightarrow> list_all2 P (filter p xs) (filter q ys)"
  by (induction rule: list_all2_induct) auto

lemma sort_permuted:
  fixes f :: "'a \<Rightarrow> 'b::linorder"
  assumes "sorted_wrt (<) (map f xs)" "mset ys = mset xs"
  shows "sort_key f ys = xs"
proof -
  have d: "distinct (map f xs)" "sorted (map f xs)" using assms(1) by (simp_all add: strict_sorted_iff)
  have s: "mset (sort_key f ys) = mset xs" "sorted (map f (sort_key f ys))" using assms(2) by simp_all
  have "map f (sort_key f ys) = map f xs"
    using s d by (metis mset_map properties_for_sort sorted_sort_id)
  moreover have "inj_on f (set (sort_key f ys) \<union> set xs)"
    using d(1) mset_eq_setD [OF s(1)] by (simp add: distinct_map)
  ultimately show ?thesis by (meson map_inj_on)
qed

lemma signal_step_spec:
  assumes "wire_inverse (se_wire env)" "validate_schema lc (se_schema env) = Inr ()" "\<And>rows. mset (returning rows) = mset rows"
    and rel: "signal_rel env ob m"
  shows "fst (signal_step env returning q ob) = fst (signal_spec env q m)
    \<and> signal_rel env (snd (signal_step env returning q ob)) (snd (signal_spec env q m))"
proof -
  let ?P = "\<lambda>r e. open_signal env (sr_packed r) = Inr (fst e) \<and> sr_expires_at r = snd e"
  obtain now p where q: "q = (now, p)" by fastforce
  have srt: "sorted_wrt (<) (map sr_id (filter f (sb_rows ob)))" for f
    using rel by (simp add: signal_rel_def sorted_wrt_map sorted_wrt_filter)
  have matched: "list_all2 ?P (filter (\<lambda>r. signal_scope r = i) (sb_rows ob)) (m i)" for i
    using rel by (simp add: signal_rel_def del: split_paired_All)
  show ?thesis
  proof (cases p)
    case (Enqueue i v ttl)
    obtain app t ty k where i: "i = (app, t, ty, k)" by (cases i) auto
    show ?thesis
    proof (cases "packs_as env (pack_signal_envelope (se_schema env) ty k v)")
      case (Inl e)
      then show ?thesis
        using rel by (cases "pack_signal_envelope (se_schema env) ty k v") (auto simp: q Enqueue i enqueue_signal_row_def)
    next
      case (Inr b)
      then obtain pr where pr: "pack_signal_envelope (se_schema env) ty k v = Inr pr"
        "encode_packed (wi_enc_record (se_wire env)) pr = Inr b" by auto
      have o: "open_signal env b = Inr (carried_value v)" using open_packed(2) [OF assms(1,2) pr(2) pr(1)] .
      have id: "\<forall>r \<in> set (sb_rows ob). sr_id r \<le> sb_last_id ob" using rel by (simp add: signal_rel_def)
      show ?thesis
        using pr o matched srt [of "\<lambda>_. True"] id
        by (auto simp: q Enqueue i enqueue_signal_row_def signal_rel_def signal_scope_def sorted_wrt_append
            list_all2_appendI simp del: split_paired_All)
    qed
  next
    case (Drain i)
    obtain app t ty k where i: "i = (app, t, ty, k)" by (cases i) auto
    let ?d = "drained_by app t ty k now"
    let ?rows = "filter ?d (sb_rows ob)"
    have so: "order_by sr_id (returning ?rows) = ?rows"
      unfolding order_by_def by (rule sort_permuted [OF srt assms(3)])
    have ne: "returning ?rows = [] \<longleftrightarrow> ?rows = []" by (metis assms(3) mset_zero_iff)
    have eq: "?d = (\<lambda>r. signal_scope r = i \<and> now < sr_expires_at r)"
      by (auto simp: drained_by_def signal_scope_def i)
    have live: "list_all2 ?P ?rows (filter (\<lambda>(v, expires). now < expires) (m i))"
      using list_all2_filter [OF matched [of i], of "\<lambda>r. now < sr_expires_at r" "\<lambda>(v, expires). now < expires"]
      by (auto simp: eq filter_filter)
    then have out: "rmap (\<lambda>row. open_signal env (sr_packed row)) ?rows
        = Inr (map fst (filter (\<lambda>(v, expires). now < expires) (m i)))"
      by (auto simp: rmap_Inr_iff list_all2_map2 elim: list_all2_mono)
    have rest: "list_all2 ?P (filter (\<lambda>r. signal_scope r = j) (filter (\<lambda>r. \<not> ?d r) (sb_rows ob)))
        ((m(i := filter (\<lambda>(v, expires). \<not> now < expires) (m i))) j)" for j
    proof (cases "j = i")
      case True
      have "filter (\<lambda>r. signal_scope r = j) (filter (\<lambda>r. \<not> ?d r) (sb_rows ob))
          = filter (\<lambda>r. \<not> now < sr_expires_at r) (filter (\<lambda>r. signal_scope r = i) (sb_rows ob))"
        using True by (auto simp: eq filter_filter intro: filter_cong)
      then show ?thesis
        using True list_all2_filter [OF matched [of i], of "\<lambda>r. \<not> now < sr_expires_at r" "\<lambda>(v, expires). \<not> now < expires"]
        by auto
    next
      case False
      then have "filter (\<lambda>r. signal_scope r = j) (filter (\<lambda>r. \<not> ?d r) (sb_rows ob)) = filter (\<lambda>r. signal_scope r = j) (sb_rows ob)"
        by (auto simp: eq filter_filter intro: filter_cong)
      then show ?thesis using False matched [of j] by simp
    qed
    have "signal_rel env (ob\<lparr>sb_rows := filter (\<lambda>r. \<not> ?d r) (sb_rows ob)\<rparr>) (m(i := filter (\<lambda>(v, expires). \<not> now < expires) (m i)))"
      using rel rest srt by (simp add: signal_rel_def del: split_paired_All)
    then show ?thesis using out so ne by (auto simp: q Drain i drain_signals_def Let_def)
  qed
qed

section \<open>Properties\<close>

definition presence_ready :: "store_env \<times> lease_row list \<Rightarrow> store_env \<times> (scope \<Rightarrow> (value \<times> int) option) \<Rightarrow> bool" where
  "presence_ready s t \<longleftrightarrow> fst s = fst t \<and> wire_inverse (se_wire (fst s))
     \<and> (\<exists>lc. validate_schema lc (se_schema (fst s)) = Inr ()) \<and> lease_rel (fst s) (snd s) (snd t)"

interpretation presence_sim: simulation "in_env lease_step" "in_env lease_spec" presence_ready "\<lambda>_. True"
proof unfold_locales
  fix s t q assume a: "presence_ready s t"
  then obtain lc where "validate_schema lc (se_schema (fst s)) = Inr ()" by (auto simp: presence_ready_def)
  with a lease_step_spec [of "fst s" lc "snd s" "snd t" q]
  show "fst (in_env lease_step q s) = fst (in_env lease_spec q t)
      \<and> presence_ready (snd (in_env lease_step q s)) (snd (in_env lease_spec q t))"
    by (auto simp: presence_ready_def in_env_def split: prod.split)
qed

type_synonym outbox_env = "store_env \<times> (signal_row list \<Rightarrow> signal_row list)"

definition outbox_ready :: "outbox_env \<times> outbox \<Rightarrow> outbox_env \<times> (scope \<Rightarrow> (value \<times> int) list) \<Rightarrow> bool" where
  "outbox_ready s t \<longleftrightarrow> fst s = fst t \<and> wire_inverse (se_wire (fst (fst s)))
     \<and> (\<exists>lc. validate_schema lc (se_schema (fst (fst s))) = Inr ()) \<and> (\<forall>rows. mset (snd (fst s) rows) = mset rows)
     \<and> signal_rel (fst (fst s)) (snd s) (snd t)"

interpretation outbox_sim:
  simulation "in_env (\<lambda>e. signal_step (fst e) (snd e))" "in_env (\<lambda>e. signal_spec (fst e))" outbox_ready "\<lambda>_. True"
proof unfold_locales
  fix s t q assume a: "outbox_ready s t"
  then obtain lc where "validate_schema lc (se_schema (fst (fst s))) = Inr ()" by (auto simp: outbox_ready_def)
  with a signal_step_spec [of "fst (fst s)" lc "snd (fst s)" "snd s" "snd t" q]
  show "fst (in_env (\<lambda>e. signal_step (fst e) (snd e)) q s) = fst (in_env (\<lambda>e. signal_spec (fst e)) q t)
      \<and> outbox_ready (snd (in_env (\<lambda>e. signal_step (fst e) (snd e)) q s)) (snd (in_env (\<lambda>e. signal_spec (fst e)) q t))"
    by (auto simp: outbox_ready_def in_env_def split: prod.split)
qed

text \<open>The values accepted for a scoped key, and the values its drains returned, in a run.\<close>

fun sent :: "scope \<Rightarrow> ((int \<times> signal_op) \<times> (store_error, value list) result) list \<Rightarrow> value list" where
  "sent i [] = []"
| "sent i (((now, Enqueue j v ttl), Inr x) # rest) = (if j = i then carried_value v # sent i rest else sent i rest)"
| "sent i (other # rest) = sent i rest"

fun delivered :: "scope \<Rightarrow> ((int \<times> signal_op) \<times> (store_error, value list) result) list \<Rightarrow> value list" where
  "delivered i [] = []"
| "delivered i (((now, Drain j), Inr vs) # rest) = (if j = i then vs @ delivered i rest else delivered i rest)"
| "delivered i (other # rest) = delivered i rest"

lemma mset_live_expired: "mset (map fst (filter p xs)) + mset (map fst (filter (\<lambda>x. \<not> p x) xs)) = mset (map fst xs)"
  by (induction xs) auto

lemma spec_accounting:
  "mset (delivered i (zip ops (fst (run_ops (signal_spec env) ops m)))) + mset (map fst (snd (run_ops (signal_spec env) ops m) i))
   = mset (map fst (m i)) + mset (sent i (zip ops (fst (run_ops (signal_spec env) ops m))))"
proof (induction ops arbitrary: m)
  case (Cons q ops)
  obtain now p where q: "q = (now, p)" by fastforce
  obtain r m' where m': "signal_spec env q m = (r, m')" by fastforce
  obtain rs m'' where m'': "run_ops (signal_spec env) ops m' = (rs, m'')" by fastforce
  have run: "run_ops (signal_spec env) (q # ops) m = (r # rs, m'')" by (simp add: m' m'')
  have IH: "mset (delivered i (zip ops rs)) + mset (map fst (m'' i)) = mset (map fst (m' i)) + mset (sent i (zip ops rs))"
    using Cons.IH [of m'] by (simp add: m'')
  show ?case
  proof (cases p)
    case (Enqueue j v ttl)
    obtain app t ty k where j: "j = (app, t, ty, k)" by (cases j) auto
    show ?thesis
      using IH m' unfolding run by (auto simp: q Enqueue j split: sum.splits)
  next
    case (Drain j)
    then have rm: "r = Inr (map fst (filter (\<lambda>(v, expires). now < expires) (m j)))"
      "m' i = (if i = j then filter (\<lambda>(v, expires). \<not> now < expires) (m i) else m i)" using m' by (auto simp: q)
    show ?thesis
      using IH mset_live_expired [of "\<lambda>(v, expires). now < expires" "m i"] unfolding run
      by (auto simp: q Drain rm case_prod_unfold add.assoc)
  qed
qed simp

text \<open>C24: the presence store is its specification, a map from (application, tenant, type, key) to a
  value and an expiry: over every sequence of sets, reads and clears at any times of the clock each
  operation returns what the map would.  A lease is returned until exactly \<open>now + ttl\<close>, an
  expired one is gone for good once a read has met it, a write that does not pack changes nothing, and no
  operation of another application, tenant or key changes what a key returns.\<close>

theorem presence_refines:
  assumes "wire_inverse (se_wire env)" and "validate_schema lc (se_schema env) = Inr ()"
  shows "fst (run_ops (lease_step env) ops []) = fst (run_ops (lease_spec env) ops Map.empty)"
proof -
  have "presence_ready (env, []) (env, Map.empty)" using assms by (auto simp: presence_ready_def lease_rel_def tbl_get_def)
  from presence_sim.run_spec [OF this, of ops] show ?thesis by (auto simp: run_in_env list_all_iff split: prod.splits)
qed

text \<open>C25: the signal outbox delivers in order and at most once.  Whatever order the database returns
  deleted rows in, every operation of every sequence returns what a first-in first-out queue per (application,
  tenant, type, key) would, live signals only; and over the whole sequence the values drained
  from a key are, as a multiset, among the values accepted for that key.\<close>

theorem signals_at_most_once:
  assumes "wire_inverse (se_wire env)" and "validate_schema lc (se_schema env) = Inr ()"
    and "\<And>rows. mset (returning rows) = mset rows"
  shows "let outs = fst (run_ops (signal_step env returning) ops \<lparr>sb_rows = [], sb_last_id = 0\<rparr>)
    in outs = fst (run_ops (signal_spec env) ops (\<lambda>_. []))
       \<and> mset (delivered i (zip ops outs)) \<subseteq># mset (sent i (zip ops outs))"
proof -
  let ?o = "\<lparr>sb_rows = [], sb_last_id = 0\<rparr>"
  have "outbox_ready ((env, returning), ?o) ((env, returning), \<lambda>_. [])"
    using assms by (auto simp: outbox_ready_def signal_rel_def)
  from outbox_sim.run_spec [OF this, of ops]
  have "fst (run_ops (signal_step env returning) ops ?o) = fst (run_ops (signal_spec env) ops (\<lambda>_. []))"
    by (auto simp: run_in_env list_all_iff split: prod.splits)
  moreover have "mset (delivered i (zip ops (fst (run_ops (signal_spec env) ops (\<lambda>_. [])))))
      \<subseteq># mset (sent i (zip ops (fst (run_ops (signal_spec env) ops (\<lambda>_. [])))))"
    using spec_accounting [of i ops env "\<lambda>_. []"] by (metis add_0 list.map(1) mset.simps(1) mset_subset_eq_add_left)
  ultimately show ?thesis by (simp add: Let_def)
qed

text \<open>A drain deletes before it decodes: one row that does not decode loses the whole batch.\<close>

lemma rmap_Inl_in: "x \<in> set xs \<Longrightarrow> f x = Inl e \<Longrightarrow> \<exists>e'. rmap f xs = Inl e'"
  by (induction xs) (auto simp: rbind_Inl_iff, metis old.sum.exhaust)

lemma undecodable_signal_loses_batch:
  assumes "open_signal env (sr_packed r) = Inl e" "drained_by app t ty k now r" "drained_by app t ty k now r'"
    and "r \<in> set (sb_rows ob)" and "\<And>rows. mset (returning rows) = mset rows"
  shows "\<exists>e' ob'. drain_signals env returning t ty k app now ob = (Inl e', ob') \<and> r' \<notin> set (sb_rows ob')"
proof -
  define rows where "rows = returning (filter (drained_by app t ty k now) (sb_rows ob))"
  have "set rows = set (filter (drained_by app t ty k now) (sb_rows ob))"
    unfolding rows_def by (rule mset_eq_setD [OF assms(5)])
  then have r: "r \<in> set (order_by sr_id rows)" using assms(2,4) by simp
  obtain e' where "rmap (\<lambda>row. open_signal env (sr_packed row)) (order_by sr_id rows) = Inl e'"
    using rmap_Inl_in [OF r, of "\<lambda>row. open_signal env (sr_packed row)", OF assms(1)] by blast
  moreover have "rows \<noteq> []" using r by (cases rows) (simp_all add: order_by_def)
  ultimately show ?thesis using assms(3) by (simp add: drain_signals_def Let_def rows_def [symmetric])
qed

definition sample_lease_env :: store_env where
  "sample_lease_env = \<lparr>se_schema = sample_schema, se_wire = fixed_wire (5, ''k'', [(1, VBoolean True)]) sample_event VNil,
     se_crypto = plain_crypto, se_provider = None, se_unique_error = ''unique''\<rparr>"

definition sample_signal_env :: store_env where
  "sample_signal_env = \<lparr>se_schema = sample_schema, se_wire = fixed_wire (6, ''k'', [(1, VString ''s'')]) sample_event VNil,
     se_crypto = plain_crypto, se_provider = None, se_unique_error = ''unique''\<rparr>"

lemma sample_ephemeral_ok:
  "wire_inverse (se_wire sample_lease_env)" "validate_schema ascii_lower (se_schema sample_lease_env) = Inr ()"
  "wire_inverse (se_wire sample_signal_env)" "validate_schema ascii_lower (se_schema sample_signal_env) = Inr ()"
  using sample_schema_valid
  by (auto simp: wire_inverse_def sample_lease_env_def sample_signal_env_def fixed_wire_def starts_with_def ENVELOPE_MAGIC_def)

lemma sample_ephemeral_packs:
  "packs_as sample_lease_env (pack_presence_record (se_schema sample_lease_env) ''Typing'' ''k''
     (VMap [(VString ''on'', VBoolean True)])) = Inr ''R''"
  "packs_as sample_signal_env (pack_signal_envelope (se_schema sample_signal_env) ''Offer'' ''k''
     (VMap [(VString ''sdp'', VString ''s'')])) = Inr ''R''"
  "carried_value (VMap [(VString ''on'', VBoolean True)]) = VMap [(VString ''on'', VBoolean True)]"
  "carried_value (VMap [(VString ''sdp'', VString ''s'')]) = VMap [(VString ''sdp'', VString ''s'')]"
  by code_simp+

theorem presence_refines_witness:
  "let i = (''app'', ''t'', ''Typing'', ''k''); v = VMap [(VString ''on'', VBoolean True)]
   in fst (run_ops (lease_step sample_lease_env)
        [(0, SetLease i v 50), (49, ReadLease i), (50, ReadLease i), (10, ReadLease i)] []) =
      [Inr None, Inr (Some v), Inr None, Inr None]"
  unfolding Let_def presence_refines [OF sample_ephemeral_ok(1,2)]
  by (simp add: sample_ephemeral_packs del: packs_as.simps)

theorem signals_at_most_once_witness:
  "let i = (''app'', ''t'', ''Offer'', ''k''); v = VMap [(VString ''sdp'', VString ''s'')];
       ops = [(0, Enqueue i v 50), (20, Enqueue i v 50), (30, Enqueue i v 10), (45, Drain i), (46, Drain i)]
   in fst (run_ops (signal_step sample_signal_env rev) ops \<lparr>sb_rows = [], sb_last_id = 0\<rparr>)
      = [Inr [], Inr [], Inr [], Inr [v, v], Inr []]"
proof -
  have spec: "fst (run_ops (signal_step sample_signal_env rev) ops \<lparr>sb_rows = [], sb_last_id = 0\<rparr>)
      = fst (run_ops (signal_spec sample_signal_env) ops (\<lambda>_. []))" for ops
    using signals_at_most_once [OF sample_ephemeral_ok(3,4), of rev ops] by (simp only: Let_def mset_rev)
  show ?thesis unfolding Let_def spec by (simp add: sample_ephemeral_packs del: packs_as.simps)
qed

end
