(* ===== verification/FrickFacade.thy ===== *)
theory FrickFacade
  imports FrickStream FrickEphemeral
begin

text \<open>
  The store facade (\<open>frick-store/src/facade.rs\<close>): the writes of objects, streams, presence and
  signals with the notification of the write listener, and the prune of the idempotency keys.

  The facade is the only place that reads the clock and draws nonces and event ids; here operation
  number \<open>n\<close> reads the \<open>n\<close>-th of each.  \<open>st_written\<close> is the sequence of events handed to the
  listener.  Operations run one after the other: the front-cache is back in its slot when the
  next append takes it.  The search projector, whose failures are swallowed and whose index no operation here
  reads, and the maintenance timers are left out.
\<close>

section \<open>State\<close>

datatype write_event =
    ObjectUpsert (we_tenant_id: string) (we_app_id: string) (we_object_type: string) (we_object_id: string)
      (we_object: "value") (we_writer_user_id: "string option")
  | ObjectDelete (we_tenant_id: string) (we_app_id: string) (we_object_type: string) (we_object_id: string)
  | StreamAppend (we_tenant_id: string) (we_event: stored_event)

fun event_kind :: "write_event \<Rightarrow> string" where
  "event_kind (ObjectUpsert _ _ _ _ _ _) = ''objectUpsert''"
| "event_kind (ObjectDelete _ _ _ _) = ''objectDelete''"
| "event_kind (StreamAppend _ _) = ''streamAppend''"

text \<open>What the store is opened with: the environment of the packed columns, the retention settings
  and the determinism seams.  The clock, the nonces and the event ids are read by the number of the
  operation that draws them.\<close>

record facade =
  fa_env :: store_env
  fa_replay_window_ms :: "int option"
  fa_key_retention_ms :: int
  fa_key_max_rows :: int
  fa_cache_capacity :: nat
  fa_clock :: "nat \<Rightarrow> int"
  fa_nonce :: "nat \<Rightarrow> string"
  fa_event_id :: "nat \<Rightarrow> string"

record store_state =
  st_objects :: objects
  st_streams :: stream_state
  st_cache :: front_cache
  st_leases :: "lease_row list"
  st_outbox :: outbox
  st_retention_settings :: "(string \<times> string) list"
  st_draws :: nat
  st_written :: "write_event list"

type_synonym 'a store_prog = "(store_state, store_error, 'a) prog"

definition DEFAULT_SIGNAL_TTL_MS :: int where
  "DEFAULT_SIGNAL_TTL_MS = 30000"

definition FACADE_DEFAULT_APP_ID :: string where
  "FACADE_DEFAULT_APP_ID = ''_default''"

definition draw :: "nat store_prog" where
  "draw = (\<lambda>s. (Ok (st_draws s), s\<lparr>st_draws := Suc (st_draws s)\<rparr>))"

definition notify_write_listener :: "write_event \<Rightarrow> unit store_prog" where
  "notify_write_listener e = smodify (\<lambda>s. s\<lparr>st_written := st_written s @ [e]\<rparr>)"

text \<open>A statement of a store runs to its end or leaves its table as it was.\<close>

definition on_objects :: "(objects \<Rightarrow> (store_error, 'a \<times> objects) result) \<Rightarrow> 'a store_prog" where
  "on_objects f = (\<lambda>s. case f (st_objects s) of
      Inl e \<Rightarrow> (Err e, s) | Inr (a, rows) \<Rightarrow> (Ok a, s\<lparr>st_objects := rows\<rparr>))"

section \<open>Object writes\<close>

definition resolve_object_merge_policy :: "frick_schema \<Rightarrow> string \<Rightarrow> merge_policy" where
  "resolve_object_merge_policy schema name =
    (case find (\<lambda>candidate. ob_name candidate = name) (sc_objects schema) of
       None \<Rightarrow> LastWriteWins
     | Some def \<Rightarrow> (case ob_merge_policy def of Some p \<Rightarrow> p | None \<Rightarrow> LastWriteWins))"

text \<open>The row is read again after the write, and the listener gets what was read.\<close>

definition reread_and_notify ::
  "facade \<Rightarrow> string \<Rightarrow> string \<Rightarrow> string \<Rightarrow> string \<Rightarrow> value \<Rightarrow> string option \<Rightarrow> unit store_prog" where
  "reread_and_notify fa tenant_id object_type object_id app_id v writer_user_id =
     sbind (sread (\<lambda>s. read_object (fa_env fa) tenant_id object_type object_id app_id (st_objects s))) (\<lambda>found.
     notify_write_listener (ObjectUpsert tenant_id app_id object_type object_id
       (case found of Some stored \<Rightarrow> stored | None \<Rightarrow> v) writer_user_id))"

definition upsert_object ::
  "facade \<Rightarrow> string \<Rightarrow> string \<Rightarrow> string \<Rightarrow> value \<Rightarrow> int \<Rightarrow> string \<Rightarrow> unit store_prog" where
  "upsert_object fa tenant_id object_type object_id v version app_id =
     sbind draw (\<lambda>n.
     sbind (on_objects (\<lambda>rows. rbind (upsert (fa_env fa) (fa_nonce fa n) tenant_id object_type object_id v version
              app_id (fa_clock fa n) rows) (\<lambda>rows'. Ok ((), rows')))) (\<lambda>_.
     reread_and_notify fa tenant_id object_type object_id app_id v None))"

definition upsert_object_with_policy ::
  "facade \<Rightarrow> string \<Rightarrow> string \<Rightarrow> string \<Rightarrow> string \<Rightarrow> value \<Rightarrow> int option \<Rightarrow> string option
    \<Rightarrow> object_upsert_result store_prog" where
  "upsert_object_with_policy fa tenant_id app_id object_type object_id v expected_version writer_user_id =
     sbind draw (\<lambda>n.
     sbind (on_objects (upsert_with_policy (fa_env fa) (fa_nonce fa n) app_id tenant_id object_type object_id v
              expected_version (resolve_object_merge_policy (se_schema (fa_env fa)) object_type) (fa_clock fa n))) (\<lambda>res.
     sbind (reread_and_notify fa tenant_id object_type object_id app_id v writer_user_id) (\<lambda>_.
     sret res)))"

definition delete_object :: "facade \<Rightarrow> string \<Rightarrow> string \<Rightarrow> string \<Rightarrow> string \<Rightarrow> bool store_prog" where
  "delete_object fa tenant_id object_type object_id app_id =
     sbind (on_objects (\<lambda>rows. Ok (delete_object_row tenant_id object_type object_id app_id rows))) (\<lambda>existed.
     if existed
     then sbind (notify_write_listener (ObjectDelete tenant_id app_id object_type object_id)) (\<lambda>_. sret True)
     else sret False)"

section \<open>Appends\<close>

definition append_event ::
  "facade \<Rightarrow> string \<Rightarrow> string \<Rightarrow> string \<Rightarrow> string \<Rightarrow> string \<Rightarrow> string \<Rightarrow> value \<Rightarrow> string \<Rightarrow> append_result store_prog" where
  "append_event fa tenant_id stream stream_id replica_id request_id event payload app_id =
     sbind draw (\<lambda>n.
     sbind (\<lambda>s. case append_stream (fa_env fa) (fa_replay_window_ms fa) (fa_nonce fa n)
         \<lparr>aq_tenant_id = tenant_id, aq_stream = stream, aq_stream_id = stream_id, aq_replica_id = replica_id,
          aq_request_id = request_id, aq_event = event, aq_payload = payload, aq_app_id = app_id,
          aq_event_id = fa_event_id fa n, aq_now_ms = fa_clock fa n\<rparr> (st_streams s) (st_cache s) of
       (r, streams, cache) \<Rightarrow> (r, s\<lparr>st_streams := streams, st_cache := cache\<rparr>)) (\<lambda>res.
     if ar_created res
     then sbind (notify_write_listener (StreamAppend (sv_tenant_id (ar_event res)) (ar_event res))) (\<lambda>_. sret res)
     else sret res))"

section \<open>Presence and signals\<close>

definition set_presence :: "facade \<Rightarrow> string \<Rightarrow> string \<Rightarrow> string \<Rightarrow> value \<Rightarrow> int \<Rightarrow> string \<Rightarrow> unit store_prog" where
  "set_presence fa tenant_id presence_type presence_key v ttl_ms app_id =
     sbind draw (\<lambda>n s. case set_lease (fa_env fa) tenant_id presence_type presence_key v ttl_ms app_id (fa_clock fa n)
         (st_leases s) of
       Inl e \<Rightarrow> (Err e, s) | Inr rows \<Rightarrow> (Ok (), s\<lparr>st_leases := rows\<rparr>))"

definition clear_presence :: "string \<Rightarrow> string \<Rightarrow> string \<Rightarrow> string \<Rightarrow> unit store_prog" where
  "clear_presence tenant_id presence_type presence_key app_id =
     smodify (\<lambda>s. s\<lparr>st_leases := clear_lease tenant_id presence_type presence_key app_id (st_leases s)\<rparr>)"

definition enqueue_signal ::
  "facade \<Rightarrow> string \<Rightarrow> string \<Rightarrow> string \<Rightarrow> value \<Rightarrow> int option \<Rightarrow> string \<Rightarrow> unit store_prog" where
  "enqueue_signal fa tenant_id signal_type signal_key v ttl_ms app_id =
     sbind draw (\<lambda>n s. case enqueue_signal_row (fa_env fa) tenant_id signal_type signal_key v
         (case ttl_ms of Some ttl \<Rightarrow> ttl | None \<Rightarrow> DEFAULT_SIGNAL_TTL_MS) app_id (fa_clock fa n) (st_outbox s) of
       Inl e \<Rightarrow> (Err e, s) | Inr ob \<Rightarrow> (Ok (), s\<lparr>st_outbox := ob\<rparr>))"

section \<open>Application-scoped views\<close>

definition for_app :: "string option \<Rightarrow> string" where
  "for_app app_id = (case app_id of None \<Rightarrow> FACADE_DEFAULT_APP_ID | Some a \<Rightarrow> a)"

section \<open>Pruning idempotency keys\<close>

record prune_result =
  pn_pruned_by_age :: nat
  pn_pruned_by_cap :: nat

text \<open>A \<open>retentionMs\<close> setting is JSON text; how it reads as a non-negative number of milliseconds is
  an argument.\<close>

definition collect_tenant_retention_cutoffs ::
  "(string \<Rightarrow> int option) \<Rightarrow> int \<Rightarrow> (string \<times> string) list \<Rightarrow> (string \<times> string) list" where
  "collect_tenant_retention_cutoffs parse now_ms settings =
     concat (map (\<lambda>(tenant_id, raw). case parse raw of
       Some retention_ms \<Rightarrow> [(tenant_id, iso_from_epoch_ms_blob (now_ms - retention_ms))] | None \<Rightarrow> []) settings)"

fun prune_tenants :: "(string \<times> string) list \<Rightarrow> nat \<Rightarrow> idempotency_row list \<Rightarrow> nat \<times> idempotency_row list" where
  "prune_tenants [] pruned rows = (pruned, rows)"
| "prune_tenants ((tenant_id, cutoff_iso) # rest) pruned rows =
    (let kept = filter (\<lambda>r. \<not> (ik_tenant_id r = tenant_id \<and> ik_created_at r < cutoff_iso)) rows
     in prune_tenants rest (pruned + (length rows - length kept)) kept)"

definition prune_keys ::
  "(string \<times> string) list \<Rightarrow> string \<Rightarrow> int \<Rightarrow> idempotency_row list \<Rightarrow> prune_result \<times> idempotency_row list" where
  "prune_keys tenant_cutoffs global_cutoff_iso max_rows rows =
    (case prune_tenants tenant_cutoffs 0 rows of (by_tenant, rows1) \<Rightarrow>
     let rows2 = filter (\<lambda>r. \<not> (ik_created_at r < global_cutoff_iso
                  \<and> ik_tenant_id r \<notin> set (map fst tenant_cutoffs))) rows1;
         overflow = int (length rows2) - max_rows;
         doomed = (if overflow > 0 then take (nat overflow) (order_by ik_created_at rows2) else []);
         rows3 = filter (\<lambda>r. idempotency_key r \<notin> set (map idempotency_key doomed)) rows2
     in (\<lparr>pn_pruned_by_age = by_tenant + (length rows1 - length rows2),
          pn_pruned_by_cap = length rows2 - length rows3\<rparr>, rows3))"

definition fresh_cache :: "facade \<Rightarrow> (store_error, front_cache) result" where
  "fresh_cache fa = (case cache_new (Finite (of_nat (fa_cache_capacity fa))) of
      Inl _ \<Rightarrow> Err (Store ''BoundedIdempotencyCache capacity must be > 0, got 0'') | Inr fresh \<Rightarrow> Ok (Some fresh))"

lemma fresh_cache_code [code]:
  "fresh_cache fa = (if fa_cache_capacity fa = 0
     then Err (Store ''BoundedIdempotencyCache capacity must be > 0, got 0'')
     else Ok (Some \<lparr>ic_capacity = min (fa_cache_capacity fa) (2 ^ 64 - 1), ic_entries = [], ic_order = [],
       ic_next_stamp = 0, ic_evictions = 0\<rparr>))"
  by (simp add: fresh_cache_def cache_new_def)

definition prune :: "facade \<Rightarrow> (string \<Rightarrow> int option) \<Rightarrow> prune_result store_prog" where
  "prune fa parse =
     sbind draw (\<lambda>n s.
       let now = fa_clock fa n;
           (res, keys) = prune_keys (collect_tenant_retention_cutoffs parse now (st_retention_settings s))
             (iso_from_epoch_ms_blob (now - fa_key_retention_ms fa)) (fa_key_max_rows fa) (ss_keys (st_streams s));
           s' = s\<lparr>st_streams := (st_streams s)\<lparr>ss_keys := keys\<rparr>\<rparr>
       in if pn_pruned_by_age res > 0 \<or> pn_pruned_by_cap res > 0
          then (case fresh_cache fa of
                  Inl e \<Rightarrow> (Err e, s')
                | Inr fresh \<Rightarrow> (Ok res, s'\<lparr>st_cache := fresh\<rparr>))
          else (Ok res, s'))"

section \<open>What the tables hold\<close>

type_synonym object_scope = "string \<times> string \<times> string \<times> string"

definition object_at :: "store_env \<Rightarrow> objects \<Rightarrow> object_scope \<Rightarrow> value option" where
  "object_at env rows k = (case k of (app, t, ty, i) \<Rightarrow> map_option (row_value env) (select_object app t ty i rows))"

definition facade_ready :: "facade \<Rightarrow> bool" where
  "facade_ready fa \<longleftrightarrow> env_ok (fa_env fa) \<and> (\<exists>lc. validate_schema lc (se_schema (fa_env fa)) = Inr ())
     \<and> (\<forall>n. length (fa_nonce fa n) = NONCE_LEN)"

definition store_inv :: "facade \<Rightarrow> store_state \<Rightarrow> bool" where
  "store_inv fa s \<longleftrightarrow> objects_inv (fa_env fa) (st_objects s) \<and> stream_inv (fa_env fa) (st_streams s)"

lemma select_object_in: "select_object app t ty i rows = Some r \<Longrightarrow>
    r \<in> set rows \<and> or_app_id r = app \<and> or_tenant_id r = t \<and> or_object_type r = ty \<and> or_object_id r = i"
  using find_Some_set by (fastforce simp: select_object_def)

lemma read_object_at:
  assumes "objects_inv env rows"
  shows "read_object env t ty i app rows = Inr (object_at env rows (app, t, ty, i))"
proof (cases "select_object app t ty i rows")
  case (Some r)
  then have "unpack_object env t (or_packed r) = Inr (row_value env r)"
    using objects_inv_row(1) [OF assms, of r] select_object_in [OF Some] by simp
  with Some show ?thesis by (simp add: read_object_def object_at_def)
qed (simp add: read_object_def object_at_def)

lemma list_objects_at:
  assumes "objects_inv env rows"
  obtains vs where "list_objects env t ty app rows = Inr vs" "set vs = {v. \<exists>i. object_at env rows (app, t, ty, i) = Some v}"
proof -
  let ?vs = "map (row_value env) (select_objects t ty app rows)"
  have ok: "tbl_ok object_key rows" using assms by (simp add: objects_inv_def)
  have "select_object app t ty (or_object_id r) rows = Some r" if "r \<in> set rows" "in_scope t ty app r" for r
    using that tbl_get_iff [OF ok, of "(t, ty, or_object_id r)" r]
    by (simp add: select_object_get [OF ok] in_scope_def object_key_def)
  then have "set ?vs \<subseteq> {v. \<exists>i. object_at env rows (app, t, ty, i) = Some v}"
    by (fastforce simp: select_objects_eq object_at_def)
  moreover have "{v. \<exists>i. object_at env rows (app, t, ty, i) = Some v} \<subseteq> set ?vs"
    using select_object_in by (fastforce simp: select_objects_eq object_at_def in_scope_def)
  ultimately show ?thesis using list_objects_inv [OF assms] that by blast
qed

lemma object_at_write:
  assumes "objects_inv env rows" "env_ok env" "validate_schema lc (se_schema env) = Inr ()" "length nonce = NONCE_LEN"
    and "pack_object env nonce t ty i v = Inr packed"
    and "\<And>r. tbl_get object_key (t, ty, i) rows = Some r \<Longrightarrow> or_app_id r = app"
  shows "object_at env (tbl_upsert object_key (new_row app t ty i packed version now) rows)
    = (object_at env rows)((app, t, ty, i) \<mapsto> stored_value i v)"
proof -
  have ok: "tbl_ok object_key rows" using assms(1) by (simp add: objects_inv_def)
  have rv: "row_value env (new_row app t ty i packed version now) = stored_value i v"
    using unpack_pack_object [OF assms(2-5)] by (simp add: row_value_def)
  have other: "select_object app' t ty i rows = None" if "app' \<noteq> app" for app'
    using assms(6) that by (auto simp: select_object_get [OF ok] split: option.split)
  show ?thesis
    using rv other by (auto simp: fun_eq_iff object_at_def select_after_write [OF ok])
qed

lemma object_at_delete:
  assumes "objects_inv env rows"
  shows "object_at env (snd (delete_object_row t ty i app rows)) = (object_at env rows)((app, t, ty, i) := None)"
    and "fst (delete_object_row t ty i app rows) \<longleftrightarrow> object_at env rows (app, t, ty, i) \<noteq> None"
proof -
  have "select_object app' t' ty' i' (filter (\<lambda>r. \<not> (in_scope t ty app r \<and> or_object_id r = i)) rows)
      = (if (app', t', ty', i') = (app, t, ty, i) then None else select_object app' t' ty' i' rows)" for app' t' ty' i'
    by (induction rows) (auto simp: select_object_def in_scope_def)
  then show "object_at env (snd (delete_object_row t ty i app rows)) = (object_at env rows)((app, t, ty, i) := None)"
    by (auto simp: fun_eq_iff object_at_def delete_object_row_eq)
  show "fst (delete_object_row t ty i app rows) \<longleftrightarrow> object_at env rows (app, t, ty, i) \<noteq> None"
    by (auto simp: delete_object_row_eq object_at_def select_object_def find_None_iff in_scope_def)
qed

section \<open>The effect of the object writes\<close>

definition wrote_object :: "facade \<Rightarrow> store_state \<Rightarrow> object_scope \<Rightarrow> value \<Rightarrow> store_state \<Rightarrow> bool" where
  "wrote_object fa s k v s' \<longleftrightarrow> object_at (fa_env fa) (st_objects s') = (object_at (fa_env fa) (st_objects s))(k \<mapsto> v)
     \<and> objects_inv (fa_env fa) (st_objects s') \<and> st_streams s' = st_streams s"

lemma reread_and_notify_app:
  assumes "objects_inv (fa_env fa) (st_objects s)" "object_at (fa_env fa) (st_objects s) (app, t, ty, i) = Some x"
  shows "reread_and_notify fa t ty i app v w s = (Inr (), s\<lparr>st_written := st_written s @ [ObjectUpsert t app ty i x w]\<rparr>)"
  using assms(2)
  by (simp add: reread_and_notify_def sbind_app prog_simps read_object_at [OF assms(1)] notify_write_listener_def)

lemma upsert_own:
  assumes "upsert env nonce t ty i v version app now rows = Inr rows'" "tbl_get object_key (t, ty, i) rows = Some r"
  shows "or_app_id r = app"
  using assms by (auto simp: upsert_def write_row_tx_def write_row_packed_eq split: if_splits)

lemma upsert_object_cases:
  assumes "facade_ready fa" "objects_inv (fa_env fa) (st_objects s)"
  obtains e s' where "upsert_object fa t ty i v version app s = (Inl e, s')" "s' = s\<lparr>st_draws := Suc (st_draws s)\<rparr>"
  | s' where "upsert_object fa t ty i v version app s = (Inr (), s')"
    "wrote_object fa s (app, t, ty, i) (stored_value i v) s'"
    "st_written s' = st_written s @ [ObjectUpsert t app ty i (stored_value i v) None]"
proof -
  obtain lc where lc: "validate_schema lc (se_schema (fa_env fa)) = Inr ()" using assms(1) by (auto simp: facade_ready_def)
  have fr: "env_ok (fa_env fa)" "length (fa_nonce fa (st_draws s)) = NONCE_LEN" using assms(1) by (auto simp: facade_ready_def)
  let ?u = "upsert (fa_env fa) (fa_nonce fa (st_draws s)) t ty i v version app (fa_clock fa (st_draws s)) (st_objects s)"
  show ?thesis
  proof (cases ?u)
    case (Inl e)
    then show ?thesis using that(1) by (simp add: upsert_object_def sbind_app draw_def on_objects_def)
  next
    case (Inr rows)
    from upsert_Inr [OF Inr] obtain packed where
      p: "pack_object (fa_env fa) (fa_nonce fa (st_draws s)) t ty i v = Inr packed"
      and r: "rows = tbl_upsert object_key (new_row app t ty i packed version (fa_clock fa (st_draws s))) (st_objects s)" by metis
    have oa: "object_at (fa_env fa) rows = (object_at (fa_env fa) (st_objects s))((app, t, ty, i) \<mapsto> stored_value i v)"
      unfolding r using object_at_write [OF assms(2) fr(1) lc fr(2) p upsert_own [OF Inr]] .
    have inv: "objects_inv (fa_env fa) rows" unfolding r using objects_inv_write [OF assms(2) fr(1) lc fr(2) p] .
    have "upsert_object fa t ty i v version app s = reread_and_notify fa t ty i app v None
        (s\<lparr>st_draws := Suc (st_draws s), st_objects := rows\<rparr>)"
      using Inr by (simp add: upsert_object_def sbind_app draw_def on_objects_def)
    also have "\<dots> = (Inr (), s\<lparr>st_draws := Suc (st_draws s), st_objects := rows,
        st_written := st_written s @ [ObjectUpsert t app ty i (stored_value i v) None]\<rparr>)"
      using inv oa by (simp add: reread_and_notify_app)
    finally show ?thesis by (rule that(2)) (simp_all add: wrote_object_def oa inv)
  qed
qed

lemma upsert_object_with_policy_cases:
  assumes "facade_ready fa" "objects_inv (fa_env fa) (st_objects s)"
  obtains e s' where "upsert_object_with_policy fa t app ty i v expected w s = (Inl e, s')" "s' = s\<lparr>st_draws := Suc (st_draws s)\<rparr>"
  | res s' where "upsert_object_with_policy fa t app ty i v expected w s = (Inr res, s')"
    "wrote_object fa s (app, t, ty, i) (stored_value i v) s'"
    "st_written s' = st_written s @ [ObjectUpsert t app ty i (stored_value i v) w]"
proof -
  obtain lc where lc: "validate_schema lc (se_schema (fa_env fa)) = Inr ()" using assms(1) by (auto simp: facade_ready_def)
  have fr: "env_ok (fa_env fa)" "length (fa_nonce fa (st_draws s)) = NONCE_LEN" using assms(1) by (auto simp: facade_ready_def)
  let ?u = "upsert_with_policy (fa_env fa) (fa_nonce fa (st_draws s)) app t ty i v expected
      (resolve_object_merge_policy (se_schema (fa_env fa)) ty) (fa_clock fa (st_draws s)) (st_objects s)"
  show ?thesis
  proof (cases ?u)
    case (Inl e)
    then show ?thesis using that(1) by (simp add: upsert_object_with_policy_def sbind_app draw_def on_objects_def)
  next
    case (Inr rr)
    obtain res rows where rr: "rr = (res, rows)" by fastforce
    from upsert_with_policy_Inr [OF Inr [unfolded rr]] obtain packed where
      p: "pack_object (fa_env fa) (fa_nonce fa (st_draws s)) t ty i v = Inr packed"
      and r: "rows = tbl_upsert object_key (new_row app t ty i packed (read_version t ty i app (st_objects s) + 1)
          (fa_clock fa (st_draws s))) (st_objects s)"
      and own: "\<And>r. tbl_get object_key (t, ty, i) (st_objects s) = Some r \<Longrightarrow> or_app_id r = app" by metis
    have oa: "object_at (fa_env fa) rows = (object_at (fa_env fa) (st_objects s))((app, t, ty, i) \<mapsto> stored_value i v)"
      unfolding r using object_at_write [OF assms(2) fr(1) lc fr(2) p own] .
    have inv: "objects_inv (fa_env fa) rows" unfolding r using objects_inv_write [OF assms(2) fr(1) lc fr(2) p] .
    have "reread_and_notify fa t ty i app v w (s\<lparr>st_draws := Suc (st_draws s), st_objects := rows\<rparr>)
        = (Inr (), s\<lparr>st_draws := Suc (st_draws s), st_objects := rows,
        st_written := st_written s @ [ObjectUpsert t app ty i (stored_value i v) w]\<rparr>)"
      using inv oa by (simp add: reread_and_notify_app)
    then have "upsert_object_with_policy fa t app ty i v expected w s = (Inr res, s\<lparr>st_draws := Suc (st_draws s), st_objects := rows,
        st_written := st_written s @ [ObjectUpsert t app ty i (stored_value i v) w]\<rparr>)"
      using Inr by (simp add: upsert_object_with_policy_def sbind_app draw_def on_objects_def rr prog_simps)
    then show ?thesis by (rule that(2)) (simp_all add: wrote_object_def oa inv)
  qed
qed

section \<open>The effect of an append\<close>

definition events_at :: "store_env \<Rightarrow> stream_state \<Rightarrow> object_scope \<Rightarrow> stored_event list" where
  "events_at env st k = (case k of (app, t, s, i) \<Rightarrow> stream_events env t s i app st)"

text \<open>An event as it is read back: its payload under string keys.\<close>

definition carried_event :: "stored_event \<Rightarrow> stored_event" where
  "carried_event e = e\<lparr>sv_event := (sv_event e)\<lparr>sei_payload := carried_value (sei_payload (sv_event e))\<rparr>\<rparr>"

definition event_scope :: "stored_event \<Rightarrow> object_scope" where
  "event_scope e = (sv_app_id e, sv_tenant_id e, sei_stream (sv_event e), sei_stream_id (sv_event e))"

lemma insort_key_snoc: "f x \<le> f y \<Longrightarrow> insort_key f x (zs @ [y]) = insort_key f x zs @ [y]"
  by (induction zs) auto

lemma sort_key_snoc_max: "(\<And>x. x \<in> set xs \<Longrightarrow> f x < f y) \<Longrightarrow> sort_key f (xs @ [y]) = sort_key f xs @ [y]"
  by (induction xs) (auto simp: insort_key_snoc less_imp_le)

lemma events_at_append:
  assumes "env_ok env" "validate_schema lc (se_schema env) = Inr ()" "length nonce = NONCE_LEN"
    and "append_fresh env nonce q st = Inr (ev, st')"
  shows "events_at env st' = (events_at env st)(event_scope ev := events_at env st (event_scope ev) @ [carried_event ev])"
    and "sv_tenant_id ev = aq_tenant_id q"
proof -
  from append_fresh_Inr [OF assms(4)] obtain p b packed where
    f: "pack_stream_event (se_schema env) (sv_event (fresh_event q st)) = Inr p"
    "wi_enc_event (se_wire env) p = Inr b" "seal_column env nonce (aq_tenant_id q) b = Inr packed"
    and ev: "ev = fresh_event q st"
    and st': "st' = \<lparr>ss_events = ss_events st @ [fresh_row q packed st],
            ss_keys = tbl_upsert idempotency_key (fresh_key q) (ss_keys st)\<rparr>" by metis
  have w: "wi_dec_event (se_wire env) b = Inr p" "\<not> starts_with b ENVELOPE_MAGIC"
    using assms(1) f(2) by (auto simp: env_ok_def wire_inverse_def)
  have o: "open_column env (aq_tenant_id q) packed = Inr b" using open_seal_column [OF assms(1,3) w(2) f(3)] .
  have rv: "row_event env (fresh_row q packed st) = carried_event ev"
    using pack_unpack_stream_event [OF assms(2) f(1)]
    by (simp add: row_event_def unpack_row_def o decode_packed_def w(1) ev carried_event_def carried_value_def fresh_event_def)
  have k: "event_scope ev = (aq_app_id q, aq_tenant_id q, aq_stream q, aq_stream_id q)"
    by (simp add: ev event_scope_def fresh_event_def)
  have "stream_events env t s i app st' = (if (app, t, s, i) = event_scope ev
      then stream_events env t s i app st @ [carried_event ev] else stream_events env t s i app st)" for app t s i
  proof (cases "(app, t, s, i) = event_scope ev")
    case True
    have "order_by er_sequence (stream_rows app t s i st @ [fresh_row q packed st])
        = order_by er_sequence (stream_rows app t s i st) @ [fresh_row q packed st]"
      unfolding order_by_def
    proof (rule sort_key_snoc_max)
      fix x assume "x \<in> set (stream_rows app t s i st)"
      then show "er_sequence x < er_sequence (fresh_row q packed st)"
        using True next_sequence_greater [of x st t s i] by (auto simp: k stream_rows_def)
    qed
    moreover have "stream_rows app t s i st' = stream_rows app t s i st @ [fresh_row q packed st]"
      using True by (simp add: stream_rows_def st' k)
    ultimately show ?thesis using True by (simp add: stream_events_def rv)
  next
    case False
    then have "stream_rows app t s i st' = stream_rows app t s i st" by (auto simp: stream_rows_def st' k)
    with False show ?thesis by (simp add: stream_events_def)
  qed
  then show "events_at env st' = (events_at env st)(event_scope ev := events_at env st (event_scope ev) @ [carried_event ev])"
    by (auto simp: fun_eq_iff events_at_def split: prod.split)
  show "sv_tenant_id ev = aq_tenant_id q" by (simp add: ev fresh_event_def)
qed

lemma append_stream_outcome:
  assumes "append_stream env w nonce q st cache = (r, st1, cache1)"
  obtains ev where "r = Inr \<lparr>ar_event = ev, ar_created = True\<rparr>" "append_fresh env nonce q st = Inr (ev, st1)"
  | "st1 = st" "\<And>res. r = Inr res \<Longrightarrow> \<not> ar_created res"
  using assms by (auto simp: append_stream_def Let_def split_beta split: option.splits sum.splits if_splits)

lemma append_event_cases:
  assumes "facade_ready fa" "store_inv fa s"
  obtains r s' where "append_event fa t stream i replica request event payload app s = (r, s')"
    "\<And>res. r = Inr res \<Longrightarrow> \<not> ar_created res" "st_objects s' = st_objects s" "st_streams s' = st_streams s" "st_written s' = st_written s"
  | ev s' where "append_event fa t stream i replica request event payload app s = (Inr \<lparr>ar_event = ev, ar_created = True\<rparr>, s')"
    "st_objects s' = st_objects s" "store_inv fa s'" "st_written s' = st_written s @ [StreamAppend (sv_tenant_id ev) ev]"
    "events_at (fa_env fa) (st_streams s')
      = (events_at (fa_env fa) (st_streams s))(event_scope ev := events_at (fa_env fa) (st_streams s) (event_scope ev) @ [carried_event ev])"
proof -
  obtain lc where lc: "validate_schema lc (se_schema (fa_env fa)) = Inr ()" using assms(1) by (auto simp: facade_ready_def)
  let ?n = "st_draws s"
  have fr: "env_ok (fa_env fa)" "length (fa_nonce fa ?n) = NONCE_LEN" using assms(1) by (auto simp: facade_ready_def)
  let ?q = "\<lparr>aq_tenant_id = t, aq_stream = stream, aq_stream_id = i, aq_replica_id = replica,
          aq_request_id = request, aq_event = event, aq_payload = payload, aq_app_id = app,
          aq_event_id = fa_event_id fa ?n, aq_now_ms = fa_clock fa ?n\<rparr>"
  obtain r st1 cache1 where a: "append_stream (fa_env fa) (fa_replay_window_ms fa) (fa_nonce fa ?n) ?q (st_streams s) (st_cache s)
      = (r, st1, cache1)" by (metis prod.collapse)
  from a show ?thesis
  proof (cases rule: append_stream_outcome)
    case (1 ev)
    have inv: "stream_inv (fa_env fa) st1"
      using append_fresh_inv [OF fr(1) lc fr(2) _ 1(2)] assms(2) by (simp add: store_inv_def)
    have "append_event fa t stream i replica request event payload app s = (Inr \<lparr>ar_event = ev, ar_created = True\<rparr>,
        s\<lparr>st_draws := Suc ?n, st_streams := st1, st_cache := cache1,
          st_written := st_written s @ [StreamAppend (sv_tenant_id ev) ev]\<rparr>)"
      using a 1(1) by (simp add: append_event_def sbind_app draw_def prog_simps notify_write_listener_def)
    then show ?thesis
      by (rule that(2)) (use events_at_append(1) [OF fr(1) lc fr(2) 1(2)] assms(2) inv in \<open>simp_all add: store_inv_def\<close>)
  next
    case 2
    have "append_event fa t stream i replica request event payload app s
        = (r, s\<lparr>st_draws := Suc ?n, st_streams := st1, st_cache := cache1\<rparr>)"
      using a 2(2) by (cases r) (simp_all add: append_event_def sbind_app draw_def prog_simps)
    then show ?thesis by (rule that(1)) (use 2 in simp_all)
  qed
qed

section \<open>Pruning\<close>

definition cutoff_for :: "(string \<times> string) list \<Rightarrow> string \<Rightarrow> idempotency_row \<Rightarrow> bool" where
  "cutoff_for cutoffs global r \<longleftrightarrow>
    (if ik_tenant_id r \<in> set (map fst cutoffs) then \<exists>c. (ik_tenant_id r, c) \<in> set cutoffs \<and> ik_created_at r < c
     else ik_created_at r < global)"

lemma length_filter_diff: "length xs - length (filter p xs) = length (filter (\<lambda>x. \<not> p x) xs)"
  using sum_length_filter_compl [of p xs] by simp

lemma prune_tenants_eq:
  "prune_tenants cutoffs n rows =
    (n + length (filter (\<lambda>r. \<exists>c. (ik_tenant_id r, c) \<in> set cutoffs \<and> ik_created_at r < c) rows),
     filter (\<lambda>r. \<not> (\<exists>c. (ik_tenant_id r, c) \<in> set cutoffs \<and> ik_created_at r < c)) rows)"
proof (induction cutoffs arbitrary: n rows)
  case (Cons a cutoffs)
  obtain t c where a: "a = (t, c)" by fastforce
  let ?p = "\<lambda>r. ik_tenant_id r = t \<and> ik_created_at r < c"
  let ?q = "\<lambda>r. \<exists>c. (ik_tenant_id r, c) \<in> set cutoffs \<and> ik_created_at r < c"
  have h: "(\<exists>d. (ik_tenant_id r, d) \<in> set (a # cutoffs) \<and> ik_created_at r < d) \<longleftrightarrow> ?p r \<or> ?q r" for r
    by (auto simp: a)
  have l: "length (filter (\<lambda>r. ?p r \<or> ?q r) rows) = length (filter ?p rows) + length (filter ?q (filter (\<lambda>r. \<not> ?p r) rows))"
    by (induction rows) auto
  have f: "filter (\<lambda>r. \<not> (?p r \<or> ?q r)) rows = filter (\<lambda>r. \<not> ?q r) (filter (\<lambda>r. \<not> ?p r) rows)"
    by (simp add: conj_commute)
  show ?case
    unfolding h l f using Cons.IH [of "n + length (filter ?p rows)" "filter (\<lambda>r. \<not> ?p r) rows"]
    by (simp add: a Let_def length_filter_diff)
qed simp

lemma order_by_split:
  fixes f :: "'a \<Rightarrow> 'b::linorder"
  assumes "x \<in> set (take n (order_by f xs))" "y \<in> set (drop n (order_by f xs))"
  shows "f x \<le> f y"
proof -
  have "sorted (map f (take n (order_by f xs)) @ map f (drop n (order_by f xs)))"
    using sorted_order_by [of f xs] by (metis append_take_drop_id map_append)
  with assms show ?thesis by (auto simp: sorted_append)
qed

lemma prune_keys_spec:
  assumes ok: "tbl_ok idempotency_key rows" and run: "prune_keys cutoffs global max_rows rows = (res, kept)"
  shows "kept = filter (\<lambda>r. r \<in> set kept) rows"
    and "r \<in> set kept \<Longrightarrow> \<not> cutoff_for cutoffs global r"
    and "r \<in> set rows \<Longrightarrow> r \<notin> set kept \<Longrightarrow> \<not> cutoff_for cutoffs global r \<Longrightarrow> r' \<in> set kept \<Longrightarrow> ik_created_at r \<le> ik_created_at r'"
    and "r \<in> set rows \<Longrightarrow> r \<notin> set kept \<Longrightarrow> \<not> cutoff_for cutoffs global r \<Longrightarrow> int (length kept) = max 0 max_rows"
    and "int (length kept) \<le> max 0 max_rows"
    and "pn_pruned_by_age res + pn_pruned_by_cap res + length kept = length rows"
proof -
  define rows2 where "rows2 = filter (\<lambda>r. \<not> cutoff_for cutoffs global r) rows"
  define over where "over = int (length rows2) - max_rows"
  define sorted where "sorted = order_by ik_created_at rows2"
  define doomed where "doomed = (if over > 0 then take (nat over) sorted else [])"
  have ok2: "tbl_ok idempotency_key rows2" using ok by (simp add: rows2_def tbl_ok_filter)
  have d2: "distinct rows2" using ok2 by (simp add: tbl_ok_def distinct_map)
  have st: "set sorted = set rows2" "length sorted = length rows2" "distinct sorted"
    using d2 by (simp_all add: sorted_def order_by_def)
  have dm: "set doomed \<subseteq> set rows2" "distinct doomed" "length doomed = min (nat over) (length rows2)"
    using st set_take_subset [of "nat over" sorted] by (auto simp: doomed_def)
  have r2: "filter (\<lambda>r. \<not> (ik_created_at r < global \<and> ik_tenant_id r \<notin> set (map fst cutoffs)))
      (filter (\<lambda>r. \<not> (\<exists>c. (ik_tenant_id r, c) \<in> set cutoffs \<and> ik_created_at r < c)) rows) = rows2"
    unfolding rows2_def filter_filter by (rule filter_cong) (auto simp: cutoff_for_def, force)
  have km: "filter (\<lambda>r. idempotency_key r \<notin> set (map idempotency_key doomed)) rows2 = filter (\<lambda>r. r \<notin> set doomed) rows2"
    using ok2 dm(1) by (intro filter_cong) (auto simp: tbl_ok_def distinct_map inj_on_def)
  note unfolded = run [unfolded prune_keys_def prune_tenants_eq prod.case Let_def r2, folded over_def,
      folded sorted_def, folded doomed_def, unfolded km]
  from unfolded have kept: "kept = filter (\<lambda>r. r \<notin> set doomed) rows2"
    and res: "pn_pruned_by_age res = length (filter (\<lambda>r. \<exists>c. (ik_tenant_id r, c) \<in> set cutoffs \<and> ik_created_at r < c) rows)
        + (length (filter (\<lambda>r. \<not> (\<exists>c. (ik_tenant_id r, c) \<in> set cutoffs \<and> ik_created_at r < c)) rows) - length rows2)"
      "pn_pruned_by_cap res = length rows2 - length kept"
    by (simp_all only: prod.inject) (auto simp del: filter_filter)
  have lk: "length kept = length rows2 - length doomed"
  proof -
    have "length kept = card (set rows2 - set doomed)"
      using d2 kept distinct_card [of kept] by (simp add: set_diff_eq)
    then show ?thesis using dm d2 by (simp add: card_Diff_subset distinct_card)
  qed
  show "kept = filter (\<lambda>r. r \<in> set kept) rows"
    by (auto simp: kept rows2_def intro: filter_cong)
  show "r \<in> set kept \<Longrightarrow> \<not> cutoff_for cutoffs global r" by (simp add: kept rows2_def)
  show "int (length kept) \<le> max 0 max_rows" using lk dm(3) by (auto simp: over_def)
  have in_doomed: "r \<in> set doomed" if "r \<in> set rows" "r \<notin> set kept" "\<not> cutoff_for cutoffs global r"
    using that by (simp add: kept rows2_def)
  show "int (length kept) = max 0 max_rows" if "r \<in> set rows" "r \<notin> set kept" "\<not> cutoff_for cutoffs global r"
  proof -
    have "0 < over" using in_doomed [OF that] by (auto simp: doomed_def split: if_splits)
    then show ?thesis using lk dm(3) by (auto simp: over_def)
  qed
  show "ik_created_at r \<le> ik_created_at r'"
    if "r \<in> set rows" "r \<notin> set kept" "\<not> cutoff_for cutoffs global r" "r' \<in> set kept"
  proof -
    have r: "r \<in> set (take (nat over) sorted)" using in_doomed [OF that(1-3)] by (auto simp: doomed_def split: if_splits)
    have "r' \<in> set sorted" "r' \<notin> set (take (nat over) sorted)"
      using that(4) in_doomed [OF that(1-3)] by (auto simp: kept st doomed_def split: if_splits)
    then have "r' \<in> set (drop (nat over) sorted)" by (metis Un_iff append_take_drop_id set_append)
    with r show ?thesis using order_by_split [of r "nat over" ik_created_at rows2 r'] by (simp add: sorted_def)
  qed
  have "length rows2 \<le> length (filter (\<lambda>r. \<not> (\<exists>c. (ik_tenant_id r, c) \<in> set cutoffs \<and> ik_created_at r < c)) rows)"
    unfolding r2 [symmetric] by (rule length_filter_le)
  moreover have "length kept \<le> length rows2" by (simp add: kept)
  ultimately show "pn_pruned_by_age res + pn_pruned_by_cap res + length kept = length rows"
    using res sum_length_filter_compl [of "\<lambda>r. \<exists>c. (ik_tenant_id r, c) \<in> set cutoffs \<and> ik_created_at r < c" rows] by simp
qed


section \<open>Sequences of writes\<close>

datatype facade_op =
    WUpsert string string string "value" int string
  | WPolicy string string string string "value" "int option" "string option"
  | WDelete string string string string
  | WAppend string string string string string string "value" string
  | WPresence string string string "value" int string
  | WClear string string string string
  | WSignal string string string "value" "int option" string
  | WPrune

fun facade_step :: "facade \<Rightarrow> (string \<Rightarrow> int option) \<Rightarrow> facade_op \<Rightarrow> store_state \<Rightarrow> store_state" where
  "facade_step fa parse (WUpsert t ty i v version app) s = snd (upsert_object fa t ty i v version app s)"
| "facade_step fa parse (WPolicy t app ty i v expected writer) s =
     snd (upsert_object_with_policy fa t app ty i v expected writer s)"
| "facade_step fa parse (WDelete t ty i app) s = snd (delete_object fa t ty i app s)"
| "facade_step fa parse (WAppend t stream i replica request event payload app) s =
     snd (append_event fa t stream i replica request event payload app s)"
| "facade_step fa parse (WPresence t ty k v ttl app) s = snd (set_presence fa t ty k v ttl app s)"
| "facade_step fa parse (WClear t ty k app) s = snd (clear_presence t ty k app s :: (store_error, unit) result \<times> store_state)"
| "facade_step fa parse (WSignal t ty k v ttl app) s = snd (enqueue_signal fa t ty k v ttl app s)"
| "facade_step fa parse WPrune s = snd (prune fa parse s)"

text \<open>A follower of the notifications: what it knows of every object and of every stream.\<close>

record follower =
  fo_objects :: "object_scope \<Rightarrow> value option"
  fo_streams :: "object_scope \<Rightarrow> stored_event list"

fun follow :: "write_event \<Rightarrow> follower \<Rightarrow> follower" where
  "follow (ObjectUpsert t app ty i v w) f = f\<lparr>fo_objects := (fo_objects f)((app, t, ty, i) \<mapsto> v)\<rparr>"
| "follow (ObjectDelete t app ty i) f = f\<lparr>fo_objects := (fo_objects f)((app, t, ty, i) := None)\<rparr>"
| "follow (StreamAppend t e) f =
     f\<lparr>fo_streams := (fo_streams f)(event_scope e := fo_streams f (event_scope e) @ [carried_event e])\<rparr>"

definition stored_state :: "facade \<Rightarrow> store_state \<Rightarrow> follower" where
  "stored_state fa s = \<lparr>fo_objects = object_at (fa_env fa) (st_objects s), fo_streams = events_at (fa_env fa) (st_streams s)\<rparr>"

definition announced :: "facade \<Rightarrow> store_state \<Rightarrow> store_state \<Rightarrow> bool" where
  "announced fa s s' \<longleftrightarrow> store_inv fa s' \<and> (\<exists>news. st_written s' = st_written s @ news \<and> length news \<le> 1
     \<and> stored_state fa s' = fold follow news (stored_state fa s))"

lemma announced_none: "store_inv fa s' \<Longrightarrow> st_written s' = st_written s \<Longrightarrow> stored_state fa s' = stored_state fa s \<Longrightarrow> announced fa s s'"
  by (simp add: announced_def)

lemma announced_one:
  "store_inv fa s' \<Longrightarrow> st_written s' = st_written s @ [e] \<Longrightarrow> stored_state fa s' = follow e (stored_state fa s) \<Longrightarrow> announced fa s s'"
  by (auto simp: announced_def)

lemma tbl_ok_sub: "tbl_ok key rows \<Longrightarrow> kept = filter p rows \<Longrightarrow> tbl_ok key kept"
  by (simp add: tbl_ok_filter)

lemma facade_step_announced:
  assumes "facade_ready fa" "store_inv fa s"
  shows "announced fa s (facade_step fa parse q s)"
proof -
  have oi: "objects_inv (fa_env fa) (st_objects s)" using assms(2) by (simp add: store_inv_def)
  show ?thesis
  proof (cases q)
    case (WUpsert t ty i v version app)
    show ?thesis unfolding WUpsert facade_step.simps
      using assms(2)
      by (cases rule: upsert_object_cases [OF assms(1) oi, of t ty i v version app])
        (auto simp: wrote_object_def store_inv_def stored_state_def intro: announced_none announced_one)
  next
    case (WPolicy t app ty i v expected writer)
    show ?thesis unfolding WPolicy facade_step.simps
      using assms(2)
      by (cases rule: upsert_object_with_policy_cases [OF assms(1) oi, of t app ty i v expected writer])
        (auto simp: wrote_object_def store_inv_def stored_state_def intro: announced_none announced_one)
  next
    case (WDelete t ty i app)
    obtain existed rows where d: "delete_object_row t ty i app (st_objects s) = (existed, rows)" by fastforce
    have del: "object_at (fa_env fa) rows = (object_at (fa_env fa) (st_objects s))((app, t, ty, i) := None)"
      "existed \<longleftrightarrow> object_at (fa_env fa) (st_objects s) (app, t, ty, i) \<noteq> None" "objects_inv (fa_env fa) rows"
      using object_at_delete [OF oi, of t ty i app] objects_inv_delete [OF oi, of t ty i app] by (simp_all add: d)
    show ?thesis
    proof (cases existed)
      case True
      then have "facade_step fa parse q s
          = s\<lparr>st_objects := rows, st_written := st_written s @ [ObjectDelete t app ty i]\<rparr>"
        by (simp add: WDelete delete_object_def sbind_app on_objects_def d notify_write_listener_def prog_simps)
      then show ?thesis using del assms(2) by (auto simp: store_inv_def stored_state_def intro: announced_one)
    next
      case False
      then have "facade_step fa parse q s = s\<lparr>st_objects := rows\<rparr>"
        by (simp add: WDelete delete_object_def sbind_app on_objects_def d prog_simps)
      then show ?thesis
        using del False assms(2) by (auto simp: store_inv_def stored_state_def intro!: announced_none fun_upd_idem)
    qed
  next
    case (WAppend t stream i replica request event payload app)
    show ?thesis unfolding WAppend facade_step.simps
      using assms(2)
      by (cases rule: append_event_cases [OF assms, of t stream i replica request event payload app])
        (auto simp: store_inv_def stored_state_def intro: announced_none announced_one)
  next
    case (WPresence t ty k v ttl app)
    show ?thesis unfolding WPresence facade_step.simps using assms(2)
      by (auto simp: set_presence_def sbind_app draw_def store_inv_def stored_state_def intro: announced_none split: sum.split)
  next
    case (WClear t ty k app)
    show ?thesis unfolding WClear facade_step.simps using assms(2)
      by (auto simp: clear_presence_def smodify_def store_inv_def stored_state_def intro: announced_none)
  next
    case (WSignal t ty k v ttl app)
    show ?thesis unfolding WSignal facade_step.simps using assms(2)
      by (auto simp: enqueue_signal_def sbind_app draw_def store_inv_def stored_state_def intro: announced_none split: sum.split)
  next
    case WPrune
    let ?now = "fa_clock fa (st_draws s)"
    obtain res keys where p: "prune_keys (collect_tenant_retention_cutoffs parse ?now (st_retention_settings s))
        (iso_from_epoch_ms_blob (?now - fa_key_retention_ms fa)) (fa_key_max_rows fa) (ss_keys (st_streams s)) = (res, keys)"
      by fastforce
    have ok: "tbl_ok idempotency_key (ss_keys (st_streams s))" using assms(2) by (simp add: store_inv_def stream_inv_def)
    have k: "tbl_ok idempotency_key keys" by (rule tbl_ok_sub [OF ok prune_keys_spec(1) [OF ok p]])
    let ?st = "(st_streams s)\<lparr>ss_keys := keys\<rparr>"
    have "store_inv fa (facade_step fa parse q s)" "st_streams (facade_step fa parse q s) = ?st"
      "st_written (facade_step fa parse q s) = st_written s" "st_objects (facade_step fa parse q s) = st_objects s"
      using assms(2) k
      by (auto simp: WPrune prune_def sbind_app draw_def Let_def p store_inv_def stream_inv_def split: sum.split)
    moreover have "events_at (fa_env fa) ?st = events_at (fa_env fa) (st_streams s)"
      by (simp add: fun_eq_iff events_at_def stream_events_def stream_rows_def split: prod.split)
    ultimately show ?thesis by (auto simp: stored_state_def intro: announced_none)
  qed
qed

lemma facade_run_announced:
  assumes "facade_ready fa" "store_inv fa s"
  shows "store_inv fa (fold (facade_step fa parse) ops s) \<and> (\<exists>news. st_written (fold (facade_step fa parse) ops s) = st_written s @ news
     \<and> length news \<le> length ops \<and> stored_state fa (fold (facade_step fa parse) ops s) = fold follow news (stored_state fa s))"
  using assms(2)
proof (induction ops arbitrary: s)
  case (Cons q ops)
  from facade_step_announced [OF assms(1) Cons.prems, of parse q] obtain news where
    n: "store_inv fa (facade_step fa parse q s)" "st_written (facade_step fa parse q s) = st_written s @ news" "length news \<le> 1"
    "stored_state fa (facade_step fa parse q s) = fold follow news (stored_state fa s)" by (auto simp: announced_def)
  from Cons.IH [OF n(1)] obtain news' where
    n': "st_written (fold (facade_step fa parse) ops (facade_step fa parse q s)) = st_written (facade_step fa parse q s) @ news'"
    "length news' \<le> length ops" "stored_state fa (fold (facade_step fa parse) ops (facade_step fa parse q s))
      = fold follow news' (stored_state fa (facade_step fa parse q s))" by blast
  with n show ?case using Cons.IH [OF n(1)] by (auto intro!: exI [of _ "news @ news'"])
qed simp

section \<open>Properties\<close>

text \<open>C26: the notifications are exact.  Over every sequence of writes, deletes, appends, presence and
  signal writes and prunes, successful or not, each operation announces at most one event, and a follower
  that applies the announced events to what was stored at the start knows, at the end, every
  object of every application, tenant and type with its stored value and every stream with its events in
  order: no change is announced that did not happen and none happens unannounced.\<close>

theorem write_notifications_exact:
  assumes "facade_ready fa" and "store_inv fa s"
  shows "let s' = fold (facade_step fa parse) ops s
    in \<exists>news. st_written s' = st_written s @ news \<and> length news \<le> length ops
       \<and> stored_state fa s' = fold follow news (stored_state fa s)"
  using facade_run_announced [OF assms, of parse ops] by (auto simp: Let_def)

text \<open>A prune of the idempotency keys removes a key exactly when it is older than the cutoff
  that applies to its tenant, or when the rows left over exceed the cap and it is among the oldest of them:
  a key younger than its cutoff is only removed when the table is left at the cap and then no key that
  stays is older than it.  The table is left within the cap, the two counters account for every removed row,
  and a prune that removed anything leaves an empty front-cache.\<close>

theorem prune_exact:
  assumes "tbl_ok idempotency_key (ss_keys (st_streams s))" and "prune fa parse s = (Inr res, s')"
  shows "let now = fa_clock fa (st_draws s);
      cutoffs = collect_tenant_retention_cutoffs parse now (st_retention_settings s);
      expired = cutoff_for cutoffs (iso_from_epoch_ms_blob (now - fa_key_retention_ms fa));
      before = ss_keys (st_streams s); after = ss_keys (st_streams s')
    in after = filter (\<lambda>r. r \<in> set after) before
     \<and> (\<forall>r \<in> set after. \<not> expired r)
     \<and> (\<forall>r \<in> set before - set after. \<not> expired r \<longrightarrow>
          int (length after) = max 0 (fa_key_max_rows fa) \<and> (\<forall>r' \<in> set after. ik_created_at r \<le> ik_created_at r'))
     \<and> int (length after) \<le> max 0 (fa_key_max_rows fa)
     \<and> pn_pruned_by_age res + pn_pruned_by_cap res + length after = length before
     \<and> ss_events (st_streams s') = ss_events (st_streams s)
     \<and> (if after = before then st_cache s' = st_cache s
        else \<exists>c. st_cache s' = Some c \<and> cache_size c = 0)"
proof -
  let ?now = "fa_clock fa (st_draws s)"
  let ?cutoffs = "collect_tenant_retention_cutoffs parse ?now (st_retention_settings s)"
  let ?global = "iso_from_epoch_ms_blob (?now - fa_key_retention_ms fa)"
  obtain res1 keys where p: "prune_keys ?cutoffs ?global (fa_key_max_rows fa) (ss_keys (st_streams s)) = (res1, keys)"
    by fastforce
  note spec = prune_keys_spec [OF assms(1) p]
  have s': "res = res1" "ss_keys (st_streams s') = keys" "ss_events (st_streams s') = ss_events (st_streams s)"
    "if pn_pruned_by_age res1 > 0 \<or> pn_pruned_by_cap res1 > 0
     then \<exists>c. st_cache s' = Some c \<and> cache_size c = 0 else st_cache s' = st_cache s"
    using assms(2)
    by (auto simp: prune_def sbind_app draw_def Let_def p fresh_cache_code cache_size_def split: sum.splits if_splits)
  have "length keys = length (ss_keys (st_streams s)) \<longleftrightarrow> keys = ss_keys (st_streams s)"
    using spec(1) by (metis length_filter_less less_irrefl filter_True)
  then have same: "keys = ss_keys (st_streams s) \<longleftrightarrow> \<not> (pn_pruned_by_age res1 > 0 \<or> pn_pruned_by_cap res1 > 0)"
    using spec(6) by auto
  show ?thesis unfolding Let_def s'(1,2,3) using spec s'(4) same by (auto split: if_splits)
qed

definition sample_facade :: facade where
  "sample_facade = \<lparr>fa_env = sample_env, fa_replay_window_ms = None, fa_key_retention_ms = 1000, fa_key_max_rows = 10,
     fa_cache_capacity = 4, fa_clock = (\<lambda>n. int n), fa_nonce = (\<lambda>_. sample_nonce), fa_event_id = (\<lambda>n. ''e'' @ dec_nat n)\<rparr>"

definition empty_store :: store_state where
  "empty_store = \<lparr>st_objects = [], st_streams = empty_stream_state, st_cache = None, st_leases = [],
     st_outbox = \<lparr>sb_rows = [], sb_last_id = 0\<rparr>, st_retention_settings = [], st_draws = 0, st_written = []\<rparr>"

lemma sample_facade_ready: "facade_ready sample_facade" "store_inv sample_facade empty_store"
  using sample_env_ok
  by (auto simp: facade_ready_def sample_facade_def NONCE_LEN_def store_inv_def empty_store_def objects_inv_def
      stream_inv_def empty_stream_state_def tbl_ok_def)

definition sample_writes :: "facade_op list" where
  "sample_writes = [WUpsert ''t'' ''User'' ''u1'' sample_user 7 ''app'',
     WAppend ''t'' ''Room'' ''r1'' ''rep'' ''req'' ''Message'' (VMap [(VString ''text'', VString ''hi'')]) ''app'',
     WPolicy ''t'' ''other'' ''User'' ''u1'' sample_user None None, WDelete ''t'' ''User'' ''u1'' ''app'']"

theorem write_notifications_exact_witness:
  "let s' = fold (facade_step sample_facade (\<lambda>_. None)) sample_writes empty_store
   in map event_kind (st_written s') = [''objectUpsert'', ''streamAppend'', ''objectDelete'']
     \<and> stored_state sample_facade s' = fold follow (st_written s') (stored_state sample_facade empty_store)"
proof -
  let ?s = "fold (facade_step sample_facade (\<lambda>_. None)) sample_writes empty_store"
  have k: "map event_kind (st_written ?s) = [''objectUpsert'', ''streamAppend'', ''objectDelete'']"
    by code_simp
  have e: "st_written empty_store = []" by (simp add: empty_store_def)
  obtain news where "st_written ?s = news" "stored_state sample_facade ?s = fold follow news (stored_state sample_facade empty_store)"
    using write_notifications_exact [OF sample_facade_ready, of "\<lambda>_. None" sample_writes] unfolding Let_def e append_Nil by blast
  with k show ?thesis unfolding Let_def by blast
qed

definition sample_key :: "string \<Rightarrow> char \<Rightarrow> idempotency_row" where
  "sample_key t c = \<lparr>ik_app_id = ''a'', ik_tenant_id = t, ik_replica_id = ''r'', ik_request_id = [c], ik_result_event_id = [c],
     ik_created_at = ''1970-01-01T00:00:00.00'' @ [c] @ ''Z''\<rparr>"

definition sample_keys :: "idempotency_row list" where
  "sample_keys = [sample_key ''t1'' CHR ''0'', sample_key ''t1'' CHR ''1'', sample_key ''t2'' CHR ''2'',
     sample_key ''t2'' CHR ''3'', sample_key ''t2'' CHR ''4'']"

definition prune_facade :: facade where
  "prune_facade = sample_facade\<lparr>fa_clock := (\<lambda>_. 1003), fa_key_max_rows := 2\<rparr>"

definition prune_store :: store_state where
  "prune_store = empty_store\<lparr>st_streams := \<lparr>ss_events = [], ss_keys = sample_keys\<rparr>,
     st_retention_settings := [(''t1'', ''1002''), (''t3'', ''x'')]\<rparr>"

abbreviation (input) "sample_parse \<equiv> (\<lambda>raw :: string. if raw = ''1002'' then Some (1002 :: int) else None)"

theorem prune_exact_witness:
  "\<exists>res s'. prune prune_facade sample_parse prune_store = (Inr res, s') \<and> pn_pruned_by_age res = 2 \<and> pn_pruned_by_cap res = 1
     \<and> map ik_request_id (ss_keys (st_streams s')) = [''3'', ''4''] \<and> (\<exists>c. st_cache s' = Some c \<and> cache_size c = 0)"
proof -
  let ?p = "prune prune_facade sample_parse prune_store"
  have ok: "tbl_ok idempotency_key (ss_keys (st_streams prune_store))" by code_simp
  have "case ?p of (Inr res, s') \<Rightarrow> pn_pruned_by_age res = 2 \<and> pn_pruned_by_cap res = 1
      \<and> map ik_request_id (ss_keys (st_streams s')) = [''3'', ''4''] | _ \<Rightarrow> False" by code_simp
  then obtain res s' where r: "?p = (Inr res, s')" and c: "pn_pruned_by_age res = 2" "pn_pruned_by_cap res = 1"
    "map ik_request_id (ss_keys (st_streams s')) = [''3'', ''4'']" by (auto split: prod.splits sum.splits)
  have l: "length (ss_keys (st_streams prune_store)) = 5" by (simp add: prune_store_def empty_store_def sample_keys_def)
  have "ss_keys (st_streams s') \<noteq> ss_keys (st_streams prune_store)"
  proof
    assume "ss_keys (st_streams s') = ss_keys (st_streams prune_store)"
    then have "length (map ik_request_id (ss_keys (st_streams s'))) = 5" using l by simp
    then show False unfolding c(3) by simp
  qed
  with prune_exact [OF ok r] have "\<exists>c. st_cache s' = Some c \<and> cache_size c = 0" unfolding Let_def by meson
  with c r show ?thesis by (intro exI [of _ res] exI [of _ s'] conjI)
qed

end
