(* ===== verification/FrickCallSchema.thy ===== *)
theory FrickCallSchema
  imports FrickObjectStore
begin

text \<open>
  The types of a call: the schema (\<open>frick-server/src/calls/schema.rs\<close>), the records
  (\<open>frick-protocol/src/calls.rs\<close>) and their form as values.

  \<open>to_value\<close> and the derived deserialisers go through serde; what is modelled of them is the mapping the
  attributes of the structs ask for: camel-case keys, absent options skipped on the way out and
  accepted on the way in.
\<close>

section \<open>Names\<close>

definition CALL_ROOM_TYPE :: string where "CALL_ROOM_TYPE = ''CallRoom''"
definition CALL_INVITE_TYPE :: string where "CALL_INVITE_TYPE = ''CallInvite''"
definition CALL_PARTICIPANT_TYPE :: string where "CALL_PARTICIPANT_TYPE = ''CallParticipant''"
definition CALL_EVENT_STREAM :: string where "CALL_EVENT_STREAM = ''CallEventStream''"
definition WEBRTC_SIGNAL :: string where "WEBRTC_SIGNAL = ''WebRTCSignal''"
definition CALL_DATA_CHANNEL :: string where "CALL_DATA_CHANNEL = ''CallDataChannel''"

definition CALL_CREATED :: string where "CALL_CREATED = ''CallCreated''"
definition CALL_INVITE_SENT :: string where "CALL_INVITE_SENT = ''CallInviteSent''"
definition CALL_INVITE_ACCEPTED :: string where "CALL_INVITE_ACCEPTED = ''CallInviteAccepted''"
definition CALL_PARTICIPANT_JOINED :: string where "CALL_PARTICIPANT_JOINED = ''CallParticipantJoined''"
definition CALL_PARTICIPANT_MEDIA_CHANGED :: string where
  "CALL_PARTICIPANT_MEDIA_CHANGED = ''CallParticipantMediaChanged''"
definition CALL_PARTICIPANT_LEFT :: string where "CALL_PARTICIPANT_LEFT = ''CallParticipantLeft''"
definition CALL_ENDED :: string where "CALL_ENDED = ''CallEnded''"

definition CALL_ROOM_STATES :: "string list" where
  "CALL_ROOM_STATES = [''ringing'', ''active'', ''ended'']"
definition CALL_INVITE_STATES :: "string list" where
  "CALL_INVITE_STATES = [''ringing'', ''accepted'', ''declined'', ''cancelled'']"
definition CALL_PARTICIPANT_STATES :: "string list" where
  "CALL_PARTICIPANT_STATES = [''joined'', ''left'']"

lemmas call_names = CALL_ROOM_TYPE_def CALL_INVITE_TYPE_def CALL_PARTICIPANT_TYPE_def CALL_EVENT_STREAM_def
  WEBRTC_SIGNAL_def CALL_DATA_CHANNEL_def CALL_CREATED_def CALL_INVITE_SENT_def CALL_INVITE_ACCEPTED_def
  CALL_PARTICIPANT_JOINED_def CALL_PARTICIPANT_MEDIA_CHANGED_def CALL_PARTICIPANT_LEFT_def CALL_ENDED_def

section \<open>The schema of the call types\<close>

definition field :: "int \<Rightarrow> string \<Rightarrow> field_kind \<Rightarrow> bool \<Rightarrow> field_def" where
  "field i name kind required = \<lparr>fd_id = i, fd_name = name, fd_kind = kind, fd_required = required, fd_ref = None,
     fd_enum_values = None, fd_sensitivity = None\<rparr>"

definition enum_field :: "int \<Rightarrow> string \<Rightarrow> string list \<Rightarrow> bool \<Rightarrow> field_def" where
  "enum_field i name values required = \<lparr>fd_id = i, fd_name = name, fd_kind = FK_Enum, fd_required = required,
     fd_ref = None, fd_enum_values = Some values, fd_sensitivity = None\<rparr>"

definition index_of :: "int \<Rightarrow> string \<Rightarrow> string list \<Rightarrow> index_def" where
  "index_of i name fs = \<lparr>ix_id = i, ix_name = name, ix_fields = fs\<rparr>"

definition call_object_defs :: "int \<Rightarrow> object_def list" where
  "call_object_defs id_base =
    [\<lparr>ob_id = id_base, ob_name = CALL_ROOM_TYPE,
      ob_fields =
       [field 1 ''conversationId'' FK_String True,
        enum_field 2 ''state'' CALL_ROOM_STATES True,
        field 3 ''createdBy'' FK_String True,
        enum_field 4 ''kind'' [''audio'', ''video''] True,
        field 5 ''createdAt'' FK_Timestamp True,
        field 6 ''startedAt'' FK_Timestamp False,
        field 7 ''endedAt'' FK_Timestamp False,
        field 8 ''mediaSessionId'' FK_String False,
        field 9 ''transport'' FK_String False],
      ob_indexes = [index_of 1 ''byConversation'' [''conversationId'', ''state'']],
      ob_merge_policy = None\<rparr>,
     \<lparr>ob_id = id_base + 1, ob_name = CALL_INVITE_TYPE,
      ob_fields =
       [field 1 ''callId'' FK_String True,
        field 2 ''inviteeUserId'' FK_String True,
        enum_field 3 ''status'' CALL_INVITE_STATES True,
        field 4 ''invitedBy'' FK_String True,
        field 5 ''invitedAt'' FK_Timestamp True,
        field 6 ''respondedAt'' FK_Timestamp False],
      ob_indexes = [index_of 1 ''byCall'' [''callId'', ''inviteeUserId'']],
      ob_merge_policy = None\<rparr>,
     \<lparr>ob_id = id_base + 2, ob_name = CALL_PARTICIPANT_TYPE,
      ob_fields =
       [field 1 ''callId'' FK_String True,
        field 2 ''userId'' FK_String True,
        field 3 ''deviceId'' FK_String True,
        enum_field 4 ''state'' CALL_PARTICIPANT_STATES True,
        field 5 ''joinedAt'' FK_Timestamp True,
        field 6 ''leftAt'' FK_Timestamp False,
        field 7 ''micEnabled'' FK_Bool True,
        field 8 ''cameraEnabled'' FK_Bool True,
        field 9 ''screenSharing'' FK_Bool True],
      ob_indexes = [index_of 1 ''byCall'' [''callId'', ''userId'']],
      ob_merge_policy = None\<rparr>]"

definition call_event_defs :: "int \<Rightarrow> event_def list" where
  "call_event_defs id_base =
    [\<lparr>ev_id = id_base, ev_name = CALL_CREATED,
      ev_fields =
       [field 1 ''callId'' FK_String True,
        field 2 ''conversationId'' FK_String True,
        field 3 ''createdBy'' FK_String True,
        field 4 ''kind'' FK_String True,
        field 5 ''createdAt'' FK_Timestamp True]\<rparr>,
     \<lparr>ev_id = id_base + 1, ev_name = CALL_INVITE_SENT,
      ev_fields =
       [field 1 ''callId'' FK_String True,
        field 2 ''inviteeUserId'' FK_String True,
        field 3 ''invitedBy'' FK_String True]\<rparr>,
     \<lparr>ev_id = id_base + 2, ev_name = CALL_INVITE_ACCEPTED,
      ev_fields =
       [field 1 ''callId'' FK_String True,
        field 2 ''inviteeUserId'' FK_String True]\<rparr>,
     \<lparr>ev_id = id_base + 3, ev_name = CALL_PARTICIPANT_JOINED,
      ev_fields =
       [field 1 ''callId'' FK_String True,
        field 2 ''userId'' FK_String True,
        field 3 ''deviceId'' FK_String True,
        field 4 ''joinedAt'' FK_Timestamp True]\<rparr>,
     \<lparr>ev_id = id_base + 4, ev_name = CALL_PARTICIPANT_MEDIA_CHANGED,
      ev_fields =
       [field 1 ''callId'' FK_String True,
        field 2 ''userId'' FK_String True,
        field 3 ''deviceId'' FK_String True,
        field 4 ''micEnabled'' FK_Bool True,
        field 5 ''cameraEnabled'' FK_Bool True,
        field 6 ''screenSharing'' FK_Bool True]\<rparr>,
     \<lparr>ev_id = id_base + 5, ev_name = CALL_PARTICIPANT_LEFT,
      ev_fields =
       [field 1 ''callId'' FK_String True,
        field 2 ''userId'' FK_String True,
        field 3 ''deviceId'' FK_String True,
        field 4 ''leftAt'' FK_Timestamp True]\<rparr>,
     \<lparr>ev_id = id_base + 6, ev_name = CALL_ENDED,
      ev_fields =
       [field 1 ''callId'' FK_String True,
        field 2 ''endedBy'' FK_String True,
        field 3 ''endedAt'' FK_Timestamp True]\<rparr>]"

definition call_stream_defs :: "int \<Rightarrow> stream_def list" where
  "call_stream_defs id_base =
    [\<lparr>sm_id = id_base, sm_name = CALL_EVENT_STREAM, sm_key_fields = [field 1 ''callId'' FK_String True],
      sm_events = [CALL_CREATED, CALL_INVITE_SENT, CALL_INVITE_ACCEPTED, CALL_PARTICIPANT_JOINED,
        CALL_PARTICIPANT_MEDIA_CHANGED, CALL_PARTICIPANT_LEFT, CALL_ENDED]\<rparr>]"

definition call_data_channel_signal_def :: "int \<Rightarrow> signal_def" where
  "call_data_channel_signal_def i =
     \<lparr>sg_id = i, sg_name = CALL_DATA_CHANNEL, sg_key_fields = [field 1 ''callId'' FK_String True],
      sg_fields =
       [field 1 ''senderUserId'' FK_String True,
        field 2 ''senderDeviceId'' FK_String True,
        enum_field 3 ''kind'' [''reaction'', ''raiseHand'', ''caption''] True,
        field 4 ''payload'' FK_Bytes True],
      sg_ttl_ms = 10000\<rparr>"

definition call_signal_defs :: "int \<Rightarrow> signal_def list" where
  "call_signal_defs id_base =
    [\<lparr>sg_id = id_base, sg_name = WEBRTC_SIGNAL, sg_key_fields = [field 1 ''callId'' FK_String True],
      sg_fields =
       [field 1 ''senderDeviceId'' FK_String True,
        field 2 ''recipientDeviceId'' FK_String False,
        enum_field 3 ''kind'' [''offer'', ''answer'', ''ice'', ''renegotiate'', ''sfuToken'', ''keyEpoch''] True,
        field 4 ''payload'' FK_Bytes True],
      sg_ttl_ms = 30000\<rparr>,
     call_data_channel_signal_def (id_base + 1)]"

definition build_call_schema :: frick_schema where
  "build_call_schema =
     \<lparr>sc_name = ''frick-calls'', sc_schema_id = ''frick-calls'', sc_schema_version = ''0.1.0'',
      sc_schema_revision = 1, sc_minimum_client_revision = 1, sc_minimum_server_revision = 1,
      sc_protocol = ''frick.realtime'', sc_protocol_version = 1, sc_compatibility = ''greenfield-cutover'',
      sc_hash = ''frick-calls-0.1.0'', sc_objects = call_object_defs 1, sc_streams = call_stream_defs 1,
      sc_events = call_event_defs 1, sc_presences = [], sc_signals = call_signal_defs 1, sc_blobs = [],
      sc_jobs = [], sc_projections = []\<rparr>"

section \<open>Records\<close>

text \<open>The \<open>string_enum!\<close> types: a text for every constructor and its inverse.\<close>

datatype call_kind = Audio | Video

fun call_kind_as_str :: "call_kind \<Rightarrow> string" where
  "call_kind_as_str Audio = ''audio''" | "call_kind_as_str Video = ''video''"

definition parse_call_kind :: "string \<Rightarrow> call_kind option" where
  "parse_call_kind t = (if t = ''audio'' then Some Audio else if t = ''video'' then Some Video else None)"

datatype call_room_state = RoomRinging | RoomActive | RoomEnded

fun call_room_state_as_str :: "call_room_state \<Rightarrow> string" where
  "call_room_state_as_str RoomRinging = ''ringing''"
| "call_room_state_as_str RoomActive = ''active''"
| "call_room_state_as_str RoomEnded = ''ended''"

definition parse_call_room_state :: "string \<Rightarrow> call_room_state option" where
  "parse_call_room_state t = (if t = ''ringing'' then Some RoomRinging else if t = ''active'' then Some RoomActive
     else if t = ''ended'' then Some RoomEnded else None)"

datatype call_invite_state = InviteRinging | InviteAccepted | InviteDeclined | InviteCancelled

fun call_invite_state_as_str :: "call_invite_state \<Rightarrow> string" where
  "call_invite_state_as_str InviteRinging = ''ringing''"
| "call_invite_state_as_str InviteAccepted = ''accepted''"
| "call_invite_state_as_str InviteDeclined = ''declined''"
| "call_invite_state_as_str InviteCancelled = ''cancelled''"

definition parse_call_invite_state :: "string \<Rightarrow> call_invite_state option" where
  "parse_call_invite_state t = (if t = ''ringing'' then Some InviteRinging else if t = ''accepted'' then Some InviteAccepted
     else if t = ''declined'' then Some InviteDeclined else if t = ''cancelled'' then Some InviteCancelled else None)"

datatype call_participant_state = Joined | Left

fun call_participant_state_as_str :: "call_participant_state \<Rightarrow> string" where
  "call_participant_state_as_str Joined = ''joined''" | "call_participant_state_as_str Left = ''left''"

definition parse_call_participant_state :: "string \<Rightarrow> call_participant_state option" where
  "parse_call_participant_state t = (if t = ''joined'' then Some Joined else if t = ''left'' then Some Left else None)"

datatype call_network_quality = NQ_Unknown | NQ_Poor | NQ_Fair | NQ_Good | NQ_Excellent

fun call_network_quality_as_str :: "call_network_quality \<Rightarrow> string" where
  "call_network_quality_as_str NQ_Unknown = ''unknown''"
| "call_network_quality_as_str NQ_Poor = ''poor''"
| "call_network_quality_as_str NQ_Fair = ''fair''"
| "call_network_quality_as_str NQ_Good = ''good''"
| "call_network_quality_as_str NQ_Excellent = ''excellent''"

definition parse_call_network_quality :: "string \<Rightarrow> call_network_quality option" where
  "parse_call_network_quality t = (if t = ''unknown'' then Some NQ_Unknown else if t = ''poor'' then Some NQ_Poor
     else if t = ''fair'' then Some NQ_Fair else if t = ''good'' then Some NQ_Good
     else if t = ''excellent'' then Some NQ_Excellent else None)"

lemma parse_call_kind_as_str [simp]: "parse_call_kind (call_kind_as_str k) = Some k"
  by (cases k) (simp_all add: parse_call_kind_def)

lemma parse_call_room_state_as_str [simp]: "parse_call_room_state (call_room_state_as_str r) = Some r"
  by (cases r) (simp_all add: parse_call_room_state_def)

lemma parse_call_invite_state_as_str [simp]: "parse_call_invite_state (call_invite_state_as_str i) = Some i"
  by (cases i) (simp_all add: parse_call_invite_state_def)

lemma parse_call_participant_state_as_str [simp]: "parse_call_participant_state (call_participant_state_as_str p) = Some p"
  by (cases p) (simp_all add: parse_call_participant_state_def)

lemma parse_call_network_quality_as_str [simp]: "parse_call_network_quality (call_network_quality_as_str q) = Some q"
  by (cases q) (simp_all add: parse_call_network_quality_def)

record call_room =
  cr_id :: string
  cr_conversation_id :: string
  cr_state :: call_room_state
  cr_created_by :: string
  cr_kind :: call_kind
  cr_created_at :: string
  cr_started_at :: "string option"
  cr_ended_at :: "string option"
  cr_media_session_id :: "string option"
  cr_transport :: "string option"

record call_invite =
  inv_id :: string
  inv_call_id :: string
  inv_invitee_user_id :: string
  inv_status :: call_invite_state
  inv_invited_by :: string
  inv_invited_at :: string
  inv_responded_at :: "string option"

record call_participant =
  cpt_id :: string
  cpt_call_id :: string
  cpt_user_id :: string
  cpt_device_id :: string
  cpt_state :: call_participant_state
  cpt_joined_at :: string
  cpt_left_at :: "string option"
  cpt_mic_enabled :: bool
  cpt_camera_enabled :: bool
  cpt_screen_sharing :: bool
  cpt_speaking :: "bool option"
  cpt_network_quality :: "call_network_quality option"

record media_state_patch =
  pt_mic_enabled :: "bool option"
  pt_camera_enabled :: "bool option"
  pt_screen_sharing :: "bool option"

section \<open>Records as values\<close>

text \<open>The derived serialisers: a map with camel-case keys in the order of the fields, absent options
  skipped.  The derived deserialisers are modelled on maps with string keys, the only values the
  store returns: a required field is present once, an option may be absent or nil.\<close>

definition str_entry :: "string \<Rightarrow> string \<Rightarrow> value \<times> value" where
  "str_entry k s = (VString k, VString s)"

definition bool_entry :: "string \<Rightarrow> bool \<Rightarrow> value \<times> value" where
  "bool_entry k b = (VString k, VBoolean b)"

fun opt_value_entry :: "string \<Rightarrow> value option \<Rightarrow> (value \<times> value) list" where
  "opt_value_entry k None = []"
| "opt_value_entry k (Some v) = [(VString k, v)]"

definition room_to_value :: "call_room \<Rightarrow> value" where
  "room_to_value r = VMap (
    [str_entry ''id'' (cr_id r),
     str_entry ''conversationId'' (cr_conversation_id r),
     str_entry ''state'' (call_room_state_as_str (cr_state r)),
     str_entry ''createdBy'' (cr_created_by r),
     str_entry ''kind'' (call_kind_as_str (cr_kind r)),
     str_entry ''createdAt'' (cr_created_at r)]
    @ opt_value_entry ''startedAt'' (map_option VString (cr_started_at r))
    @ opt_value_entry ''endedAt'' (map_option VString (cr_ended_at r))
    @ opt_value_entry ''mediaSessionId'' (map_option VString (cr_media_session_id r))
    @ opt_value_entry ''transport'' (map_option VString (cr_transport r)))"

definition invite_to_value :: "call_invite \<Rightarrow> value" where
  "invite_to_value r = VMap (
    [str_entry ''id'' (inv_id r),
     str_entry ''callId'' (inv_call_id r),
     str_entry ''inviteeUserId'' (inv_invitee_user_id r),
     str_entry ''status'' (call_invite_state_as_str (inv_status r)),
     str_entry ''invitedBy'' (inv_invited_by r),
     str_entry ''invitedAt'' (inv_invited_at r)]
    @ opt_value_entry ''respondedAt'' (map_option VString (inv_responded_at r)))"

definition participant_to_value :: "call_participant \<Rightarrow> value" where
  "participant_to_value r = VMap (
    [str_entry ''id'' (cpt_id r),
     str_entry ''callId'' (cpt_call_id r),
     str_entry ''userId'' (cpt_user_id r),
     str_entry ''deviceId'' (cpt_device_id r),
     str_entry ''state'' (call_participant_state_as_str (cpt_state r)),
     str_entry ''joinedAt'' (cpt_joined_at r)]
    @ opt_value_entry ''leftAt'' (map_option VString (cpt_left_at r))
    @ [bool_entry ''micEnabled'' (cpt_mic_enabled r),
       bool_entry ''cameraEnabled'' (cpt_camera_enabled r),
       bool_entry ''screenSharing'' (cpt_screen_sharing r)]
    @ opt_value_entry ''speaking'' (map_option VBoolean (cpt_speaking r))
    @ opt_value_entry ''networkQuality'' (map_option (\<lambda>q. VString (call_network_quality_as_str q)) (cpt_network_quality r)))"

definition entries_of :: "string \<Rightarrow> (value \<times> value) list \<Rightarrow> value list" where
  "entries_of k es = map snd (filter (\<lambda>e. as_str (fst e) = Some k) es)"

definition required :: "(value \<Rightarrow> 'a option) \<Rightarrow> string \<Rightarrow> (value \<times> value) list \<Rightarrow> 'a option" where
  "required f k es = (case entries_of k es of [v] \<Rightarrow> f v | _ \<Rightarrow> None)"

definition optional :: "(value \<Rightarrow> 'a option) \<Rightarrow> string \<Rightarrow> (value \<times> value) list \<Rightarrow> 'a option option" where
  "optional f k es = (case entries_of k es of
      [] \<Rightarrow> Some None
    | [v] \<Rightarrow> if v = VNil then Some None else map_option Some (f v)
    | _ \<Rightarrow> None)"

definition text_of :: "(string \<Rightarrow> 'a option) \<Rightarrow> value \<Rightarrow> 'a option" where
  "text_of parse v = Option.bind (as_str v) parse"

definition room_of_value :: "value \<Rightarrow> call_room option" where
  "room_of_value v = Option.bind (as_map v) (\<lambda>es.
     Option.bind (required as_str ''id'' es) (\<lambda>i.
     Option.bind (required as_str ''conversationId'' es) (\<lambda>conversation_id.
     Option.bind (required (text_of parse_call_room_state) ''state'' es) (\<lambda>state.
     Option.bind (required as_str ''createdBy'' es) (\<lambda>created_by.
     Option.bind (required (text_of parse_call_kind) ''kind'' es) (\<lambda>kind.
     Option.bind (required as_str ''createdAt'' es) (\<lambda>created_at.
     Option.bind (optional as_str ''startedAt'' es) (\<lambda>started_at.
     Option.bind (optional as_str ''endedAt'' es) (\<lambda>ended_at.
     Option.bind (optional as_str ''mediaSessionId'' es) (\<lambda>media_session_id.
     Option.bind (optional as_str ''transport'' es) (\<lambda>transport.
     Some \<lparr>cr_id = i, cr_conversation_id = conversation_id, cr_state = state, cr_created_by = created_by,
       cr_kind = kind, cr_created_at = created_at, cr_started_at = started_at, cr_ended_at = ended_at,
       cr_media_session_id = media_session_id, cr_transport = transport\<rparr>)))))))))))"

definition invite_of_value :: "value \<Rightarrow> call_invite option" where
  "invite_of_value v = Option.bind (as_map v) (\<lambda>es.
     Option.bind (required as_str ''id'' es) (\<lambda>i.
     Option.bind (required as_str ''callId'' es) (\<lambda>call_id.
     Option.bind (required as_str ''inviteeUserId'' es) (\<lambda>invitee_user_id.
     Option.bind (required (text_of parse_call_invite_state) ''status'' es) (\<lambda>status.
     Option.bind (required as_str ''invitedBy'' es) (\<lambda>invited_by.
     Option.bind (required as_str ''invitedAt'' es) (\<lambda>invited_at.
     Option.bind (optional as_str ''respondedAt'' es) (\<lambda>responded_at.
     Some \<lparr>inv_id = i, inv_call_id = call_id, inv_invitee_user_id = invitee_user_id, inv_status = status,
       inv_invited_by = invited_by, inv_invited_at = invited_at, inv_responded_at = responded_at\<rparr>))))))))"

definition participant_of_value :: "value \<Rightarrow> call_participant option" where
  "participant_of_value v = Option.bind (as_map v) (\<lambda>es.
     Option.bind (required as_str ''id'' es) (\<lambda>i.
     Option.bind (required as_str ''callId'' es) (\<lambda>call_id.
     Option.bind (required as_str ''userId'' es) (\<lambda>user_id.
     Option.bind (required as_str ''deviceId'' es) (\<lambda>device_id.
     Option.bind (required (text_of parse_call_participant_state) ''state'' es) (\<lambda>state.
     Option.bind (required as_str ''joinedAt'' es) (\<lambda>joined_at.
     Option.bind (optional as_str ''leftAt'' es) (\<lambda>left_at.
     Option.bind (required as_bool ''micEnabled'' es) (\<lambda>mic_enabled.
     Option.bind (required as_bool ''cameraEnabled'' es) (\<lambda>camera_enabled.
     Option.bind (required as_bool ''screenSharing'' es) (\<lambda>screen_sharing.
     Option.bind (optional as_bool ''speaking'' es) (\<lambda>speaking.
     Option.bind (optional (text_of parse_call_network_quality) ''networkQuality'' es) (\<lambda>network_quality.
     Some \<lparr>cpt_id = i, cpt_call_id = call_id, cpt_user_id = user_id, cpt_device_id = device_id, cpt_state = state,
       cpt_joined_at = joined_at, cpt_left_at = left_at, cpt_mic_enabled = mic_enabled,
       cpt_camera_enabled = camera_enabled, cpt_screen_sharing = screen_sharing, cpt_speaking = speaking,
       cpt_network_quality = network_quality\<rparr>)))))))))))))"

lemma entries_of_simps [simp]:
  "entries_of k [] = []"
  "entries_of k (str_entry k' s # es) = (if k' = k then VString s # entries_of k es else entries_of k es)"
  "entries_of k (bool_entry k' b # es) = (if k' = k then VBoolean b # entries_of k es else entries_of k es)"
  "entries_of k (opt_value_entry k' o' @ es) = (if k' = k then (case o' of Some v \<Rightarrow> [v] | None \<Rightarrow> []) @ entries_of k es else entries_of k es)"
  "entries_of k (opt_value_entry k' o') = (if k' = k then (case o' of Some v \<Rightarrow> [v] | None \<Rightarrow> []) else [])"
  by (cases o'; simp add: entries_of_def str_entry_def bool_entry_def)+

lemma optional_present:
  assumes "entries_of k es = (case map_option g x of Some v \<Rightarrow> [v] | None \<Rightarrow> [])" "\<And>a. f (g a) = Some a" "\<And>a. g a \<noteq> VNil"
  shows "optional f k es = Some x"
  using assms by (cases x) (simp_all add: optional_def)

lemma of_to_value:
  "room_of_value (room_to_value r) = Some r"
  "invite_of_value (invite_to_value i) = Some i"
  "participant_of_value (participant_to_value p) = Some p"
  by (simp_all add: room_of_value_def room_to_value_def invite_of_value_def invite_to_value_def
      participant_of_value_def participant_to_value_def required_def text_of_def
      optional_present [where g = VString] optional_present [where g = VBoolean]
      optional_present [where g = "\<lambda>q. VString (call_network_quality_as_str q)"])

section \<open>Records fit their types\<close>

text \<open>What a field declaration promises of a value, and a record of a list of fields.\<close>

definition kind_admits :: "field_def \<Rightarrow> value \<Rightarrow> bool" where
  "kind_admits f v = (case fd_kind f of
      FK_Bool \<Rightarrow> (case v of VBoolean _ \<Rightarrow> True | _ \<Rightarrow> False)
    | FK_Int \<Rightarrow> (case v of VInteger _ \<Rightarrow> True | _ \<Rightarrow> False)
    | FK_Bytes \<Rightarrow> (case v of VBinary _ \<Rightarrow> True | _ \<Rightarrow> False)
    | FK_Json \<Rightarrow> True
    | FK_Enum \<Rightarrow> (case v of VString t \<Rightarrow> (case fd_enum_values f of Some ts \<Rightarrow> t \<in> set ts | None \<Rightarrow> False) | _ \<Rightarrow> False)
    | _ \<Rightarrow> (case v of VString _ \<Rightarrow> True | _ \<Rightarrow> False))"

definition typed_record :: "field_def list \<Rightarrow> value \<Rightarrow> bool" where
  "typed_record fds v = (case v of
      VMap es \<Rightarrow> distinct (map fst es)
        \<and> list_all (\<lambda>(k, x). list_ex (\<lambda>f. k = VString (fd_name f) \<and> kind_admits f x) fds) es
        \<and> list_all (\<lambda>f. fd_required f \<longrightarrow> list_ex (\<lambda>(k, x). k = VString (fd_name f)) es) fds
    | _ \<Rightarrow> False)"

lemma without_id [simp]:
  "without_record_id (VMap ((VString ''id'', VString i) # es)) = VMap (filter (\<lambda>e. fst e \<noteq> VString ''id'') es)"
  by (simp add: without_record_id_def)

lemma typed_packs:
  assumes "typed_record (ob_fields ob) v" "object_by_name schema ty = Inr ob"
  shows "\<exists>fs. pack_object_record schema ty i v = Inr (ob_id ob, i, fs)"
proof -
  obtain es where v: "v = VMap es" and es: "list_all (\<lambda>(k, x). list_ex (\<lambda>f. k = VString (fd_name f) \<and> kind_admits f x) (ob_fields ob)) es"
    using assms(1) by (cases v) (auto simp: typed_record_def)
  have "\<exists>fs. rmap (\<lambda>(key, entry). rbind (field_name_of_key key) (\<lambda>name.
        rbind (field_by_name (ob_fields ob) name) (\<lambda>field. Ok (fd_id field, entry)))) es = Inr fs"
    using es
  proof (induction es)
    case Nil
    show ?case by simp
  next
    case (Cons e es)
    obtain k x where e: "e = (k, x)" by (cases e)
    from Cons.prems e obtain f where f: "f \<in> set (ob_fields ob)" "k = VString (fd_name f)" by (auto simp: list_ex_iff)
    then obtain g where "field_by_name (ob_fields ob) (fd_name f) = Inr g"
      by (cases "field_by_name (ob_fields ob) (fd_name f)") (auto simp: field_by_name_def find_by_name_def find_None_iff split: option.splits)
    with Cons f e show ?case by (auto simp: field_name_of_key_def)
  qed
  then show ?thesis using assms(2) by (auto simp: v pack_object_record_def pack_fields_def)
qed

lemmas call_value_defs = room_to_value_def invite_to_value_def participant_to_value_def str_entry_def bool_entry_def

lemma room_typed: "typed_record (ob_fields (call_object_defs base ! 0)) (without_record_id (room_to_value r))"
  by (cases "cr_state r"; cases "cr_kind r"; cases "cr_started_at r"; cases "cr_ended_at r"; cases "cr_media_session_id r";
      cases "cr_transport r")
    (simp_all add: typed_record_def call_value_defs call_object_defs_def field_def enum_field_def kind_admits_def
      CALL_ROOM_STATES_def)

lemma invite_typed: "typed_record (ob_fields (call_object_defs base ! 1)) (without_record_id (invite_to_value i))"
  by (cases "inv_status i"; cases "inv_responded_at i")
    (simp_all add: typed_record_def call_value_defs call_object_defs_def field_def enum_field_def kind_admits_def
      CALL_INVITE_STATES_def)

lemma participant_typed:
  assumes "cpt_speaking p = None" "cpt_network_quality p = None"
  shows "typed_record (ob_fields (call_object_defs base ! 2)) (without_record_id (participant_to_value p))"
  using assms
  by (cases "cpt_state p"; cases "cpt_left_at p")
    (simp_all add: typed_record_def call_value_defs call_object_defs_def field_def enum_field_def kind_admits_def
      CALL_PARTICIPANT_STATES_def)

text \<open>The schema of a deployment carries the call types when the lookups find them.\<close>

definition carries_call_types :: "int \<Rightarrow> frick_schema \<Rightarrow> bool" where
  "carries_call_types base schema \<longleftrightarrow> list_all (\<lambda>ob. object_by_name schema (ob_name ob) = Inr ob) (call_object_defs base)"

text \<open>C27: under a schema that carries the call types, every room, every invite and every participant without a
  speaking flag and network quality is a record of its declared type, is packed, and reads back as itself.\<close>

theorem call_records_typed:
  assumes "carries_call_types base schema" "cpt_speaking p = None" "cpt_network_quality p = None"
  shows "typed_record (ob_fields (call_object_defs base ! 0)) (without_record_id (room_to_value r))
    \<and> typed_record (ob_fields (call_object_defs base ! 1)) (without_record_id (invite_to_value i))
    \<and> typed_record (ob_fields (call_object_defs base ! 2)) (without_record_id (participant_to_value p))
    \<and> (\<exists>fs. pack_object_record schema CALL_ROOM_TYPE (cr_id r) (without_record_id (room_to_value r)) = Inr (base, cr_id r, fs))
    \<and> (\<exists>fs. pack_object_record schema CALL_INVITE_TYPE (inv_id i) (without_record_id (invite_to_value i))
          = Inr (base + 1, inv_id i, fs))
    \<and> (\<exists>fs. pack_object_record schema CALL_PARTICIPANT_TYPE (cpt_id p) (without_record_id (participant_to_value p))
          = Inr (base + 2, cpt_id p, fs))
    \<and> room_of_value (room_to_value r) = Some r \<and> invite_of_value (invite_to_value i) = Some i
    \<and> participant_of_value (participant_to_value p) = Some p"
proof -
  have o: "object_by_name schema CALL_ROOM_TYPE = Inr (call_object_defs base ! 0)"
      "object_by_name schema CALL_INVITE_TYPE = Inr (call_object_defs base ! 1)"
      "object_by_name schema CALL_PARTICIPANT_TYPE = Inr (call_object_defs base ! 2)"
      "ob_id (call_object_defs base ! 0) = base" "ob_id (call_object_defs base ! 1) = base + 1"
      "ob_id (call_object_defs base ! 2) = base + 2"
    using assms(1) by (simp_all add: carries_call_types_def call_object_defs_def)
  show ?thesis
    using typed_packs [OF room_typed o(1)] typed_packs [OF invite_typed o(2)]
      typed_packs [OF participant_typed [OF assms(2,3)] o(3)] room_typed invite_typed participant_typed [OF assms(2,3)]
    unfolding o by (simp add: of_to_value)
qed

definition sample_participant :: call_participant where
  "sample_participant = \<lparr>cpt_id = ''c:u:d'', cpt_call_id = ''c'', cpt_user_id = ''u'', cpt_device_id = ''d'', cpt_state = Joined,
     cpt_joined_at = ''t'', cpt_left_at = None, cpt_mic_enabled = True, cpt_camera_enabled = False, cpt_screen_sharing = False,
     cpt_speaking = None, cpt_network_quality = None\<rparr>"

theorem call_records_typed_witness:
  "validate_schema ascii_lower build_call_schema = Inr ()
   \<and> (\<exists>fs. pack_object_record build_call_schema CALL_PARTICIPANT_TYPE (cpt_id sample_participant)
         (without_record_id (participant_to_value sample_participant)) = Inr (3, cpt_id sample_participant, fs))"
proof -
  have v: "validate_schema ascii_lower build_call_schema = Inr ()" by code_simp
  have c: "carries_call_types 1 build_call_schema" by code_simp
  have "cpt_speaking sample_participant = None" "cpt_network_quality sample_participant = None"
    by (simp_all add: sample_participant_def)
  from call_records_typed [OF c this] v show ?thesis by simp
qed

text \<open>The two optional fields of a participant that the schema does not declare: a record with one of them is
  refused by the packer.\<close>

lemma speaking_participant_refused:
  "\<not> is_ok (pack_object_record build_call_schema CALL_PARTICIPANT_TYPE (cpt_id sample_participant)
     (without_record_id (participant_to_value (sample_participant\<lparr>cpt_speaking := Some True\<rparr>))))"
  by code_simp

end
