(* ===== verification/FrickMedia.thy ===== *)
theory FrickMedia
  imports FrickTime
begin

text \<open>
  The media-plane boundary (\<open>frick-server/src/calls/media_plane.rs\<close>), the deterministic plane
  (\<open>fake_media_plane.rs\<close>) and the peer-to-peer plane (\<open>p2p_media_plane.rs\<close>).

  The interface \<open>media_plane_contract\<close> is the documented contract of \<open>MediaPlaneAdapter\<close>; both planes are
  instances.  The lock of an adapter makes each of its operations one step; its counters are
  unbounded.
\<close>

section \<open>The boundary\<close>

datatype media_transport = P2p | Sfu

fun media_transport_as_wire :: "media_transport \<Rightarrow> string" where
  "media_transport_as_wire P2p = ''p2p''"
| "media_transport_as_wire Sfu = ''sfu''"

record media_capabilities =
  mc_transport :: media_transport
  mc_max_participants :: "nat option"
  mc_supports_region_hint :: bool

record media_participant =
  mu_user_id :: string
  mu_device_id :: string

type_synonym connection = "(string \<times> string) list"

record media_session =
  ms_call_id :: string
  ms_media_session_id :: string
  ms_transport :: media_transport
  ms_region :: "string option"
  ms_connection :: "connection option"

record media_join_grant =
  mg_call_id :: string
  mg_media_session_id :: string
  mg_user_id :: string
  mg_device_id :: string
  mg_token :: string
  mg_expires_at :: string
  mg_connection :: "connection option"

record allocate_session_options =
  ao_region_hint :: "string option"
  ao_expected_participants :: "nat option"

text \<open>The trait \<open>MediaPlaneAdapter\<close>, over the state \<open>'m\<close> of an adapter.\<close>

record 'm media_plane =
  mp_describe :: media_capabilities
  mp_allocate :: "string \<Rightarrow> allocate_session_options \<Rightarrow> 'm \<Rightarrow> (string, media_session) result \<times> 'm"
  mp_issue :: "string \<Rightarrow> media_participant \<Rightarrow> int \<Rightarrow> int option \<Rightarrow> 'm \<Rightarrow> (string, media_join_grant) result \<times> 'm"
  mp_release :: "string \<Rightarrow> 'm \<Rightarrow> 'm"

text \<open>\<open>i64::saturating_add\<close>.\<close>

definition saturating_add :: "int \<Rightarrow> int \<Rightarrow> int" where
  "saturating_add a b = max (- (2 ^ 63)) (min (2 ^ 63 - 1) (a + b))"

definition no_session_error :: "string \<Rightarrow> string" where
  "no_session_error call_id = ''Cannot issue a join token: no media session allocated for call '' @ call_id"

section \<open>The deterministic plane\<close>

record fake_media_state =
  fm_sessions :: "string \<Rightarrow> media_session option"
  fm_counter :: nat
  fm_token_counts :: "string \<Rightarrow> nat option"

record fake_media_options =
  fo_transport :: media_transport
  fo_default_token_ttl_ms :: int

definition DEFAULT_TOKEN_TTL_MS :: int where
  "DEFAULT_TOKEN_TTL_MS = 5 * 60 * 1000"

definition fake_media_new :: fake_media_state where
  "fake_media_new = \<lparr>fm_sessions = (\<lambda>_. None), fm_counter = 0, fm_token_counts = (\<lambda>_. None)\<rparr>"

definition fake_describe :: "fake_media_options \<Rightarrow> media_capabilities" where
  "fake_describe opts = (case fo_transport opts of
      P2p \<Rightarrow> \<lparr>mc_transport = P2p, mc_max_participants = Some 2, mc_supports_region_hint = False\<rparr>
    | Sfu \<Rightarrow> \<lparr>mc_transport = Sfu, mc_max_participants = None, mc_supports_region_hint = True\<rparr>)"

definition fake_allocate_session ::
  "fake_media_options \<Rightarrow> string \<Rightarrow> allocate_session_options \<Rightarrow> fake_media_state
    \<Rightarrow> (string, media_session) result \<times> fake_media_state" where
  "fake_allocate_session opts call_id options m =
    (case fm_sessions m call_id of
       Some existing \<Rightarrow> (Ok existing, m)
     | None \<Rightarrow>
        let ordinal = fm_counter m + 1;
            region = (if mc_supports_region_hint (fake_describe opts)
                      then Some (case ao_region_hint options of Some r \<Rightarrow> r | None \<Rightarrow> ''local'') else None);
            session = \<lparr>ms_call_id = call_id,
              ms_media_session_id = ''fake-room-'' @ call_id @ ''-'' @ dec_nat ordinal,
              ms_transport = fo_transport opts, ms_region = region,
              ms_connection = Some [(''signalingUrl'', ''fake://media/'' @ call_id)]\<rparr>
        in (Ok session, m\<lparr>fm_counter := ordinal, fm_sessions := (fm_sessions m)(call_id \<mapsto> session)\<rparr>))"

definition fake_issue_join_token ::
  "fake_media_options \<Rightarrow> string \<Rightarrow> media_participant \<Rightarrow> int \<Rightarrow> int option \<Rightarrow> fake_media_state
    \<Rightarrow> (string, media_join_grant) result \<times> fake_media_state" where
  "fake_issue_join_token opts call_id participant now_ms ttl m =
    (case fm_sessions m call_id of
       None \<Rightarrow> (Err (no_session_error call_id), m)
     | Some allocated \<Rightarrow>
        let media_session_id = ms_media_session_id allocated;
            participant_key = call_id @ ''::'' @ mu_user_id participant @ ''::'' @ mu_device_id participant;
            token_ordinal = (case fm_token_counts m participant_key of Some n \<Rightarrow> n | None \<Rightarrow> 0) + 1;
            ttl_ms = (case ttl of Some t \<Rightarrow> t | None \<Rightarrow> fo_default_token_ttl_ms opts)
        in (Ok \<lparr>mg_call_id = call_id, mg_media_session_id = media_session_id,
               mg_user_id = mu_user_id participant, mg_device_id = mu_device_id participant,
               mg_token = ''fake-token.'' @ media_session_id @ ''.'' @ mu_user_id participant @ ''.''
                 @ mu_device_id participant @ ''.'' @ dec_nat token_ordinal,
               mg_expires_at = iso_from_epoch_ms_boot (saturating_add now_ms ttl_ms),
               mg_connection = Some [(''iceServers'', ''fake://turn'')]\<rparr>,
            m\<lparr>fm_token_counts := (fm_token_counts m)(participant_key \<mapsto> token_ordinal)\<rparr>))"

definition fake_release_session :: "string \<Rightarrow> fake_media_state \<Rightarrow> fake_media_state" where
  "fake_release_session call_id m = m\<lparr>fm_sessions := (fm_sessions m)(call_id := None)\<rparr>"

definition fake_media_plane :: "fake_media_options \<Rightarrow> fake_media_state media_plane" where
  "fake_media_plane opts = \<lparr>mp_describe = fake_describe opts, mp_allocate = fake_allocate_session opts,
     mp_issue = fake_issue_join_token opts, mp_release = fake_release_session\<rparr>"

section \<open>The peer-to-peer plane\<close>

record p2p_ice_server =
  is_urls :: "string list"
  is_username :: "string option"
  is_credential :: "string option"

record p2p_turn_config =
  tc_urls :: "string list"
  tc_shared_secret :: string
  tc_realm :: "string option"

record p2p_media_options =
  po_ice_servers :: "p2p_ice_server list"
  po_turn :: "p2p_turn_config option"
  po_default_token_ttl_ms :: int

text \<open>Code of other packages: base64 of HMAC-SHA1 under the shared secret, and the JSON text of a list of ICE
  servers.\<close>

record p2p_codecs =
  pc_credential :: "string \<Rightarrow> string \<Rightarrow> string"
  pc_json :: "p2p_ice_server list \<Rightarrow> (string, string) result"

record p2p_state =
  pp_sessions :: "string \<Rightarrow> media_session option"
  pp_counter :: nat

definition MIN_TURN_SECRET_BYTES :: nat where
  "MIN_TURN_SECRET_BYTES = 16"

definition DEFAULT_STUN_URL :: string where
  "DEFAULT_STUN_URL = ''stun:stun.l.google.com:19302''"

definition p2p_ice_stun :: "string \<Rightarrow> p2p_ice_server" where
  "p2p_ice_stun url = \<lparr>is_urls = [url], is_username = None, is_credential = None\<rparr>"

definition p2p_default_options :: p2p_media_options where
  "p2p_default_options = \<lparr>po_ice_servers = [p2p_ice_stun DEFAULT_STUN_URL], po_turn = None,
     po_default_token_ttl_ms = DEFAULT_TOKEN_TTL_MS\<rparr>"

definition p2p_new :: "p2p_media_options \<Rightarrow> (string, p2p_media_options \<times> p2p_state) result" where
  "p2p_new options =
    (case po_turn options of
       Some turn \<Rightarrow> if length (tc_shared_secret turn) < MIN_TURN_SECRET_BYTES
         then Err (''P2pMediaPlaneAdapter requires a TURN shared_secret of at least ''
                @ dec_nat MIN_TURN_SECRET_BYTES @ '' bytes'')
         else Ok (options, \<lparr>pp_sessions = (\<lambda>_. None), pp_counter = 0\<rparr>)
     | None \<Rightarrow> Ok (options, \<lparr>pp_sessions = (\<lambda>_. None), pp_counter = 0\<rparr>))"

definition p2p_build_ice_servers :: "p2p_codecs \<Rightarrow> p2p_media_options \<Rightarrow> string \<Rightarrow> int \<Rightarrow> p2p_ice_server list" where
  "p2p_build_ice_servers pc opts user_id expiry_ms =
     po_ice_servers opts @
    (case po_turn opts of
       None \<Rightarrow> []
     | Some turn \<Rightarrow>
        let username = dec_int (expiry_ms div 1000) @ '':'' @ user_id
        in [\<lparr>is_urls = tc_urls turn, is_username = Some username,
             is_credential = Some (pc_credential pc (tc_shared_secret turn) username)\<rparr>])"

definition p2p_allocate_session ::
  "string \<Rightarrow> allocate_session_options \<Rightarrow> p2p_state \<Rightarrow> (string, media_session) result \<times> p2p_state" where
  "p2p_allocate_session call_id options m =
    (case pp_sessions m call_id of
       Some existing \<Rightarrow> (Ok existing, m)
     | None \<Rightarrow>
        let ordinal = pp_counter m + 1;
            session = \<lparr>ms_call_id = call_id, ms_media_session_id = ''p2p-'' @ call_id @ ''-'' @ dec_nat ordinal,
              ms_transport = P2p, ms_region = None, ms_connection = Some [(''transport'', ''p2p'')]\<rparr>
        in (Ok session, m\<lparr>pp_counter := ordinal, pp_sessions := (pp_sessions m)(call_id \<mapsto> session)\<rparr>))"

definition p2p_issue_join_token ::
  "p2p_codecs \<Rightarrow> p2p_media_options \<Rightarrow> string \<Rightarrow> media_participant \<Rightarrow> int \<Rightarrow> int option \<Rightarrow> p2p_state
    \<Rightarrow> (string, media_join_grant) result \<times> p2p_state" where
  "p2p_issue_join_token pc opts call_id participant now_ms ttl m =
    (case pp_sessions m call_id of
       None \<Rightarrow> (Err (no_session_error call_id), m)
     | Some allocated \<Rightarrow>
        let ttl_ms = (case ttl of Some t \<Rightarrow> t | None \<Rightarrow> po_default_token_ttl_ms opts);
            expiry_ms = saturating_add now_ms ttl_ms;
            ice_servers = p2p_build_ice_servers pc opts (mu_user_id participant) expiry_ms
        in (rbind (map_err (\<lambda>err. ''failed to serialize ICE servers: '' @ err) (pc_json pc ice_servers)) (\<lambda>serialized.
              Ok \<lparr>mg_call_id = call_id, mg_media_session_id = ms_media_session_id allocated,
                  mg_user_id = mu_user_id participant, mg_device_id = mu_device_id participant,
                  mg_token = serialized, mg_expires_at = iso_from_epoch_ms_boot expiry_ms,
                  mg_connection = Some ((''iceServers'', serialized) #
                    (case po_turn opts of
                       Some turn \<Rightarrow> (case tc_realm turn of Some realm \<Rightarrow> [(''turnRealm'', realm)] | None \<Rightarrow> [])
                     | None \<Rightarrow> []))\<rparr>), m))"

definition p2p_release_session :: "string \<Rightarrow> p2p_state \<Rightarrow> p2p_state" where
  "p2p_release_session call_id m = m\<lparr>pp_sessions := (pp_sessions m)(call_id := None)\<rparr>"

definition p2p_media_plane :: "p2p_codecs \<Rightarrow> p2p_media_options \<Rightarrow> p2p_state media_plane" where
  "p2p_media_plane pc opts =
     \<lparr>mp_describe = \<lparr>mc_transport = P2p, mc_max_participants = Some 2, mc_supports_region_hint = False\<rparr>,
      mp_allocate = p2p_allocate_session, mp_issue = p2p_issue_join_token pc opts, mp_release = p2p_release_session\<rparr>"

section \<open>What a plane promises\<close>

text \<open>The documented contract of the boundary: allocating is idempotent per call, a token names the
  allocated session and the participant, releasing forgets exactly the session of the call.\<close>

locale media_plane_contract =
  fixes mp :: "'m media_plane" and sessions :: "'m \<Rightarrow> string \<Rightarrow> media_session option"
  assumes allocate_again: "sessions m c = Some x \<Longrightarrow> mp_allocate mp c opts m = (Inr x, m') \<Longrightarrow> sessions m' = sessions m"
    and allocate_fresh: "sessions m c = None \<Longrightarrow> mp_allocate mp c opts m = (Inr x, m')
      \<Longrightarrow> sessions m' = (sessions m)(c \<mapsto> x) \<and> ms_call_id x = c"
    and allocate_same: "sessions m c = Some x \<Longrightarrow> mp_allocate mp c opts m = (r, m') \<Longrightarrow> r = Inr x"
    and allocate_fails: "mp_allocate mp c opts m = (Inl e, m') \<Longrightarrow> sessions m' = sessions m"
    and issue_keeps: "mp_issue mp c u now ttl m = (g', m') \<Longrightarrow> sessions m' = sessions m"
    and issue_names: "mp_issue mp c u now ttl m = (Inr g, m') \<Longrightarrow> \<exists>x. sessions m c = Some x
      \<and> mg_call_id g = c \<and> mg_media_session_id g = ms_media_session_id x
      \<and> mg_user_id g = mu_user_id u \<and> mg_device_id g = mu_device_id u"
    and release_forgets: "sessions (mp_release mp c m) = (sessions m)(c := None)"
begin

lemma allocate_sessions:
  assumes "mp_allocate mp c opts m = (r, m')"
  shows "(\<exists>x. sessions m' = (sessions m)(c \<mapsto> x) \<and> r = Inr x) \<or> sessions m' = sessions m \<and> \<not> is_ok r"
proof (cases r)
  case (Inl e)
  with assms allocate_fails show ?thesis by simp
next
  case (Inr x)
  show ?thesis
  proof (cases "sessions m c")
    case None
    with assms Inr allocate_fresh show ?thesis by blast
  next
    case (Some y)
    with assms Inr allocate_same have "y = x" by blast
    with assms Inr Some allocate_again show ?thesis by (auto simp: fun_upd_idem)
  qed
qed

lemma allocate_idempotent:
  assumes "mp_allocate mp c opts m = (Inr x, m')" "mp_allocate mp c opts' m' = (r, m'')"
  shows "r = Inr x \<and> sessions m'' = sessions m'"
proof -
  have "sessions m' c = Some x"
    using allocate_sessions [OF assms(1)] by auto
  with assms(2) allocate_same allocate_again show ?thesis by metis
qed

lemma no_token_after_release:
  "\<not> is_ok (fst (mp_issue mp c u now ttl (mp_release mp c m)))"
  using issue_names [of c u now ttl "mp_release mp c m"] release_forgets [of c m]
  by (cases "mp_issue mp c u now ttl (mp_release mp c m)") (auto simp: is_ok_def split: sum.split)

lemma release_idempotent: "sessions (mp_release mp c (mp_release mp c m)) = sessions (mp_release mp c m)"
  by (simp add: release_forgets)

end

interpretation fake_plane: media_plane_contract "fake_media_plane opts" fm_sessions
  by unfold_locales
    (auto simp: fake_media_plane_def fake_allocate_session_def fake_issue_join_token_def fake_release_session_def
      Let_def split: option.splits)

interpretation p2p_plane: media_plane_contract "p2p_media_plane pc opts" pp_sessions
  by unfold_locales
    (auto simp: p2p_media_plane_def p2p_allocate_session_def p2p_issue_join_token_def p2p_release_session_def
      Let_def split: option.splits)

end
