(* ===== verification/FrickCalls.thy ===== *)
theory FrickCalls
  imports FrickFacade FrickCallSchema FrickMedia
begin

text \<open>
  The call control plane (\<open>frick-server/src/calls/control_plane.rs\<close>): creating a call, answering an invite,
  joining, changing media state, the SFU negotiation, leaving and ending, and the gate for call
  signals.

  Every operation is a program over the state of the store facade and of the media plane; it stops at
  the first failure and keeps what it has already written, as the code does.  An operation runs from
  its start to its end: the code takes no lock between its store calls, so two operations that overlap
  are outside the model.
\<close>

section \<open>Types\<close>

datatype call_state_reason = NoInvitees | CapacityExceeded | CallNotFound | CallEnded | NotParticipant | InviteAlreadyResolved

datatype call_authz_reason = NotCreator | NotInvitee | NotSelf

datatype call_error =
    CallState call_state_reason string
  | CallAuthz call_authz_reason string
  | CallMediaUnsupported string
  | CallMediaForbidden string
  | CallMedia string
  | CallStore string
  | CallDecode string

record call_actor =
  ca_tenant_id :: string
  ca_user_id :: string
  ca_device_id :: string
  ca_app_id :: "string option"

definition actor_app_id :: "call_actor \<Rightarrow> string" where
  "actor_app_id actor = (case ca_app_id actor of Some a \<Rightarrow> a | None \<Rightarrow> FACADE_DEFAULT_APP_ID)"

record create_call_input =
  cc_conversation_id :: string
  cc_invitee_user_ids :: "string list"
  cc_kind :: "call_kind option"
  cc_region_hint :: "string option"

record create_call_result =
  ccr_room :: call_room
  ccr_invites :: "call_invite list"

record join_call_result =
  jc_room :: call_room
  jc_participant :: call_participant
  jc_media_grant :: media_join_grant

datatype media_kind = MediaAudio | MediaVideo

record producer_handle =
  ph_id :: string
  ph_kind :: media_kind

record consumer_handle =
  ch_id :: string
  ch_producer_id :: string
  ch_kind :: media_kind
  ch_rtp_parameters :: "value"

text \<open>The produce and consume companion of a plane (\<open>SfuMediaOperations\<close>), over the same state.\<close>

record 'm sfu_ops =
  so_connect :: "string \<Rightarrow> media_participant \<Rightarrow> string \<Rightarrow> string \<Rightarrow> value \<Rightarrow> int \<Rightarrow> 'm \<Rightarrow> (string, unit) result \<times> 'm"
  so_produce :: "string \<Rightarrow> media_participant \<Rightarrow> string \<Rightarrow> string \<Rightarrow> media_kind \<Rightarrow> value \<Rightarrow> int \<Rightarrow> 'm
    \<Rightarrow> (string, producer_handle) result \<times> 'm"
  so_consume :: "string \<Rightarrow> media_participant \<Rightarrow> string \<Rightarrow> string \<Rightarrow> string \<Rightarrow> value \<Rightarrow> int \<Rightarrow> 'm
    \<Rightarrow> (string, consumer_handle) result \<times> 'm"
  so_leave :: "string \<Rightarrow> media_participant \<Rightarrow> 'm \<Rightarrow> 'm"

text \<open>What the control plane is built from: the store, the media plane with its companion, the clock and
  the source of call ids (by the number of the draw), and the text of a failed deserialisation.\<close>

record 'm call_plane =
  cp_facade :: facade
  cp_media :: "'m media_plane"
  cp_sfu_media :: "'m sfu_ops option"
  cp_clock :: "nat \<Rightarrow> int"
  cp_call_id :: "nat \<Rightarrow> string"
  cp_decode_error :: "value \<Rightarrow> string"

record 'm call_state =
  cl_store :: store_state
  cl_media :: 'm
  cl_seq :: nat
  cl_draws :: nat

type_synonym ('m, 'a) call_prog = "('m call_state, call_error, 'a) prog"

section \<open>Clock, store and media\<close>

definition now_ms :: "'m call_plane \<Rightarrow> ('m, int) call_prog" where
  "now_ms cp = (\<lambda>s. (Ok (cp_clock cp (cl_draws s)), s\<lparr>cl_draws := Suc (cl_draws s)\<rparr>))"

definition new_call_id :: "'m call_plane \<Rightarrow> ('m, string) call_prog" where
  "new_call_id cp = (\<lambda>s. (Ok (cp_call_id cp (cl_draws s)), s\<lparr>cl_draws := Suc (cl_draws s)\<rparr>))"

definition now_iso :: "'m call_plane \<Rightarrow> ('m, string) call_prog" where
  "now_iso cp = sbind (now_ms cp) (\<lambda>ms. sret (iso_from_epoch_ms_boot ms))"

definition on_store :: "'a store_prog \<Rightarrow> ('m, 'a) call_prog" where
  "on_store m = (\<lambda>s. case m (cl_store s) of
     (r, st) \<Rightarrow> (map_err (\<lambda>e. CallStore (store_error_text e)) r, s\<lparr>cl_store := st\<rparr>))"

definition on_media :: "(string \<Rightarrow> call_error) \<Rightarrow> ('m \<Rightarrow> (string, 'a) result \<times> 'm) \<Rightarrow> ('m, 'a) call_prog" where
  "on_media err f = (\<lambda>s. case f (cl_media s) of (r, m) \<Rightarrow> (map_err err r, s\<lparr>cl_media := m\<rparr>))"

definition call_read_object ::
  "'m call_plane \<Rightarrow> (value \<Rightarrow> 'r option) \<Rightarrow> call_actor \<Rightarrow> string \<Rightarrow> string \<Rightarrow> string \<Rightarrow> ('m, 'r option) call_prog" where
  "call_read_object cp decode actor app_id object_type object_id =
     sbind (on_store (sread (\<lambda>st. read_object (fa_env (cp_facade cp)) (ca_tenant_id actor) object_type object_id app_id
              (st_objects st)))) (\<lambda>row. case row of
       None \<Rightarrow> sret None
     | Some v \<Rightarrow> (case decode v of Some r \<Rightarrow> sret (Some r) | None \<Rightarrow> sfail (CallDecode (cp_decode_error cp v))))"

definition read_room :: "'m call_plane \<Rightarrow> call_actor \<Rightarrow> string \<Rightarrow> string \<Rightarrow> ('m, call_room option) call_prog" where
  "read_room cp actor app_id call_id = call_read_object cp room_of_value actor app_id CALL_ROOM_TYPE call_id"

definition invite_id :: "string \<Rightarrow> string \<Rightarrow> string" where
  "invite_id call_id user_id = call_id @ '':'' @ user_id"

definition participant_id :: "string \<Rightarrow> string \<Rightarrow> string \<Rightarrow> string" where
  "participant_id call_id user_id device_id = call_id @ '':'' @ user_id @ '':'' @ device_id"

definition read_invite :: "'m call_plane \<Rightarrow> call_actor \<Rightarrow> string \<Rightarrow> string \<Rightarrow> string \<Rightarrow> ('m, call_invite option) call_prog" where
  "read_invite cp actor app_id call_id user_id =
     call_read_object cp invite_of_value actor app_id CALL_INVITE_TYPE (invite_id call_id user_id)"

definition read_participant ::
  "'m call_plane \<Rightarrow> call_actor \<Rightarrow> string \<Rightarrow> string \<Rightarrow> string \<Rightarrow> string \<Rightarrow> ('m, call_participant option) call_prog" where
  "read_participant cp actor app_id call_id user_id device_id =
     call_read_object cp participant_of_value actor app_id CALL_PARTICIPANT_TYPE (participant_id call_id user_id device_id)"

definition call_write_object ::
  "'m call_plane \<Rightarrow> call_actor \<Rightarrow> string \<Rightarrow> string \<Rightarrow> string \<Rightarrow> value \<Rightarrow> ('m, unit) call_prog" where
  "call_write_object cp actor app_id object_type object_id v =
     sbind (on_store (upsert_object_with_policy (cp_facade cp) (ca_tenant_id actor) app_id object_type object_id v None None))
       (\<lambda>_. sret ())"

definition write_room :: "'m call_plane \<Rightarrow> call_actor \<Rightarrow> string \<Rightarrow> call_room \<Rightarrow> ('m, unit) call_prog" where
  "write_room cp actor app_id room = call_write_object cp actor app_id CALL_ROOM_TYPE (cr_id room) (room_to_value room)"

definition write_invite :: "'m call_plane \<Rightarrow> call_actor \<Rightarrow> string \<Rightarrow> call_invite \<Rightarrow> ('m, unit) call_prog" where
  "write_invite cp actor app_id invite =
     call_write_object cp actor app_id CALL_INVITE_TYPE (inv_id invite) (invite_to_value invite)"

definition write_participant :: "'m call_plane \<Rightarrow> call_actor \<Rightarrow> string \<Rightarrow> call_participant \<Rightarrow> ('m, unit) call_prog" where
  "write_participant cp actor app_id participant =
     call_write_object cp actor app_id CALL_PARTICIPANT_TYPE (cpt_id participant) (participant_to_value participant)"

definition call_append_event ::
  "'m call_plane \<Rightarrow> call_actor \<Rightarrow> string \<Rightarrow> string \<Rightarrow> string \<Rightarrow> (string \<times> value) list \<Rightarrow> ('m, unit) call_prog" where
  "call_append_event cp actor app_id call_id event fs =
     sbind (\<lambda>s. (Ok (cl_seq s + 1), s\<lparr>cl_seq := cl_seq s + 1\<rparr>)) (\<lambda>seq.
     sbind (on_store (append_event (cp_facade cp) (ca_tenant_id actor) CALL_EVENT_STREAM call_id ''call-control-plane''
         (''call-'' @ call_id @ ''-'' @ event @ ''-'' @ dec_nat seq) event
         (VMap (map (\<lambda>(k, v). (VString k, v)) fs)) app_id)) (\<lambda>_.
     sret ()))"

section \<open>Reading membership\<close>

definition list_participants :: "'m call_plane \<Rightarrow> call_actor \<Rightarrow> string \<Rightarrow> ('m, call_participant list) call_prog" where
  "list_participants cp actor call_id =
     sbind (on_store (sread (\<lambda>st. list_objects (fa_env (cp_facade cp)) (ca_tenant_id actor) CALL_PARTICIPANT_TYPE
              (actor_app_id actor) (st_objects st)))) (\<lambda>rows.
     sret (filter (\<lambda>p. cpt_call_id p = call_id) (List.map_filter participant_of_value rows)))"

definition no_call_error :: "string \<Rightarrow> call_error" where
  "no_call_error call_id = CallState CallNotFound (''Call '' @ call_id @ '' does not exist'')"

definition require_live_room :: "'m call_plane \<Rightarrow> call_actor \<Rightarrow> string \<Rightarrow> string \<Rightarrow> ('m, call_room) call_prog" where
  "require_live_room cp actor app_id call_id =
     sbind (read_room cp actor app_id call_id) (\<lambda>found. case found of
       None \<Rightarrow> sfail (no_call_error call_id)
     | Some room \<Rightarrow>
        if cr_state room = RoomEnded
        then sfail (CallState CallEnded (''Call '' @ call_id @ '' has already ended''))
        else sret room)"

definition require_invitee_or_creator ::
  "'m call_plane \<Rightarrow> call_room \<Rightarrow> call_actor \<Rightarrow> string \<Rightarrow> ('m, call_invite option) call_prog" where
  "require_invitee_or_creator cp room actor app_id =
    (if cr_created_by room = ca_user_id actor then sret None
     else sbind (read_invite cp actor app_id (cr_id room) (ca_user_id actor)) (\<lambda>found. case found of
       Some invite \<Rightarrow> sret (Some invite)
     | None \<Rightarrow> sfail (CallAuthz NotInvitee (ca_user_id actor @ '' was not invited to call '' @ cr_id room))))"

definition active_participant_count :: "'m call_plane \<Rightarrow> call_actor \<Rightarrow> string \<Rightarrow> ('m, nat) call_prog" where
  "active_participant_count cp actor call_id =
     sbind (list_participants cp actor call_id) (\<lambda>participants.
     sret (length (filter (\<lambda>p. cpt_state p = Joined) participants)))"

definition assert_participant_capacity :: "'m call_plane \<Rightarrow> call_actor \<Rightarrow> string \<Rightarrow> ('m, unit) call_prog" where
  "assert_participant_capacity cp actor call_id =
    (case mc_max_participants (mp_describe (cp_media cp)) of
       None \<Rightarrow> sret ()
     | Some max_participants \<Rightarrow>
        sbind (list_participants cp actor call_id) (\<lambda>participants.
        let is_rejoin = list_ex (\<lambda>p. cpt_state p = Joined \<and> cpt_user_id p = ca_user_id actor
              \<and> cpt_device_id p = ca_device_id actor) participants;
            active_users = map cpt_user_id (filter (\<lambda>p. cpt_state p = Joined) participants)
        in if is_rejoin \<or> ca_user_id actor \<in> set active_users then sret ()
           else if length (remdups (ca_user_id actor # active_users)) > max_participants
           then sfail (CallState CapacityExceeded (''Call '' @ call_id @ '' is full (media plane capacity is ''
                  @ dec_nat max_participants @ '')''))
           else sret ()))"

definition creator_self_invite :: "'m call_plane \<Rightarrow> string \<Rightarrow> string \<Rightarrow> ('m, call_invite) call_prog" where
  "creator_self_invite cp call_id user_id =
     sbind (now_iso cp) (\<lambda>stamp.
     sret \<lparr>inv_id = invite_id call_id user_id, inv_call_id = call_id, inv_invitee_user_id = user_id,
        inv_status = InviteAccepted, inv_invited_by = user_id, inv_invited_at = stamp, inv_responded_at = Some stamp\<rparr>)"

definition not_participant_error :: "call_actor \<Rightarrow> string \<Rightarrow> call_error" where
  "not_participant_error actor call_id =
     CallState NotParticipant (ca_user_id actor @ ''/'' @ ca_device_id actor @ '' is not an active participant of '' @ call_id)"

definition require_joined ::
  "'m call_plane \<Rightarrow> call_actor \<Rightarrow> string \<Rightarrow> string \<Rightarrow> ('m, call_participant) call_prog" where
  "require_joined cp actor app_id call_id =
     sbind (read_participant cp actor app_id call_id (ca_user_id actor) (ca_device_id actor)) (\<lambda>found. case found of
       Some p \<Rightarrow> if cpt_state p = Joined then sret p else sfail (not_participant_error actor call_id)
     | None \<Rightarrow> sfail (not_participant_error actor call_id))"

section \<open>Creating\<close>

fun dedupe_from :: "string set \<Rightarrow> string list \<Rightarrow> string list" where
  "dedupe_from seen [] = []"
| "dedupe_from seen (u # us) = (if u \<in> seen then dedupe_from seen us else u # dedupe_from (insert u seen) us)"

definition dedupe :: "string list \<Rightarrow> string \<Rightarrow> string list" where
  "dedupe values exclude = dedupe_from {} (filter (\<lambda>u. u \<noteq> exclude) values)"

definition invite_accepted_fields :: "string \<Rightarrow> string \<Rightarrow> (string \<times> value) list" where
  "invite_accepted_fields call_id user_id = [(''callId'', VString call_id), (''inviteeUserId'', VString user_id)]"

fun send_invites ::
  "'m call_plane \<Rightarrow> call_actor \<Rightarrow> string \<Rightarrow> string \<Rightarrow> string \<Rightarrow> string list \<Rightarrow> ('m, call_invite list) call_prog"
where
  "send_invites cp actor app_id call_id created_at [] = sret []"
| "send_invites cp actor app_id call_id created_at (invitee # rest) =
    (let invite = \<lparr>inv_id = invite_id call_id invitee, inv_call_id = call_id, inv_invitee_user_id = invitee,
           inv_status = InviteRinging, inv_invited_by = ca_user_id actor, inv_invited_at = created_at,
           inv_responded_at = None\<rparr>
     in sbind (write_invite cp actor app_id invite) (\<lambda>_.
        sbind (call_append_event cp actor app_id call_id CALL_INVITE_SENT
          [(''callId'', VString call_id), (''inviteeUserId'', VString invitee),
           (''invitedBy'', VString (ca_user_id actor))]) (\<lambda>_.
        sbind (send_invites cp actor app_id call_id created_at rest) (\<lambda>invites.
        sret (invite # invites)))))"

definition create_call :: "'m call_plane \<Rightarrow> call_actor \<Rightarrow> create_call_input \<Rightarrow> ('m, create_call_result) call_prog" where
  "create_call cp actor input =
    (let invitees = dedupe (cc_invitee_user_ids input) (ca_user_id actor);
         full = (case mc_max_participants (mp_describe (cp_media cp)) of
                   Some max_participants \<Rightarrow> length invitees + 1 > max_participants | None \<Rightarrow> False);
         app_id = actor_app_id actor
     in sbind (sguard (invitees \<noteq> [])
          (CallState NoInvitees ''A call must invite at least one user other than the creator'')) (\<lambda>_.
        sbind (sguard (\<not> full)
          (CallState CapacityExceeded (''Call exceeds the media plane capacity of ''
             @ (case mc_max_participants (mp_describe (cp_media cp)) of Some n \<Rightarrow> dec_nat n | None \<Rightarrow> '''')
             @ '' participants''))) (\<lambda>_.
        sbind (new_call_id cp) (\<lambda>call_id.
        sbind (now_iso cp) (\<lambda>created_at.
        let kind = (case cc_kind input of Some k \<Rightarrow> k | None \<Rightarrow> Video) in
        sbind (on_media CallMedia (mp_allocate (cp_media cp) call_id
          \<lparr>ao_region_hint = cc_region_hint input,
           ao_expected_participants = (if length invitees + 1 < 2 ^ 32 then Some (length invitees + 1) else None)\<rparr>)) (\<lambda>session.
        let room = \<lparr>cr_id = call_id, cr_conversation_id = cc_conversation_id input, cr_state = RoomRinging,
              cr_created_by = ca_user_id actor, cr_kind = kind, cr_created_at = created_at, cr_started_at = None,
              cr_ended_at = None, cr_media_session_id = Some (ms_media_session_id session),
              cr_transport = Some (media_transport_as_wire (ms_transport session))\<rparr> in
        sbind (write_room cp actor app_id room) (\<lambda>_.
        sbind (call_append_event cp actor app_id call_id CALL_CREATED
          [(''callId'', VString call_id), (''conversationId'', VString (cc_conversation_id input)),
           (''createdBy'', VString (ca_user_id actor)), (''kind'', VString (call_kind_as_str kind)),
           (''createdAt'', VString created_at)]) (\<lambda>_.
        sbind (send_invites cp actor app_id call_id created_at invitees) (\<lambda>invites.
        sret \<lparr>ccr_room = room, ccr_invites = invites\<rparr>)))))))))"

section \<open>Answering an invite\<close>

definition accept_invite :: "'m call_plane \<Rightarrow> call_actor \<Rightarrow> string \<Rightarrow> ('m, call_invite) call_prog" where
  "accept_invite cp actor call_id =
    (let app_id = actor_app_id actor in
     sbind (require_live_room cp actor app_id call_id) (\<lambda>room.
     sbind (require_invitee_or_creator cp room actor app_id) (\<lambda>found. case found of
       None \<Rightarrow> creator_self_invite cp call_id (ca_user_id actor)
     | Some invite \<Rightarrow>
        (case inv_status invite of
           InviteAccepted \<Rightarrow> sret invite
         | InviteRinging \<Rightarrow>
            sbind (now_iso cp) (\<lambda>stamp.
            let updated = invite\<lparr>inv_status := InviteAccepted, inv_responded_at := Some stamp\<rparr> in
            sbind (write_invite cp actor app_id updated) (\<lambda>_.
            sbind (call_append_event cp actor app_id call_id CALL_INVITE_ACCEPTED
              (invite_accepted_fields call_id (ca_user_id actor))) (\<lambda>_.
            sret updated)))
         | _ \<Rightarrow> sfail (CallState InviteAlreadyResolved
             (''Invite for '' @ ca_user_id actor @ '' is resolved and cannot be accepted''))))))"

definition decline_invite :: "'m call_plane \<Rightarrow> call_actor \<Rightarrow> string \<Rightarrow> ('m, call_invite) call_prog" where
  "decline_invite cp actor call_id =
    (let app_id = actor_app_id actor in
     sbind (require_live_room cp actor app_id call_id) (\<lambda>room.
     sbind (require_invitee_or_creator cp room actor app_id) (\<lambda>found. case found of
       None \<Rightarrow> sfail (CallAuthz NotInvitee ''The call creator has no invite to decline'')
     | Some invite \<Rightarrow>
        if inv_status invite = InviteAccepted
        then sfail (CallState InviteAlreadyResolved ''An accepted invite cannot be declined'')
        else sbind (now_iso cp) (\<lambda>stamp.
             let updated = invite\<lparr>inv_status := InviteDeclined, inv_responded_at := Some stamp\<rparr> in
             sbind (write_invite cp actor app_id updated) (\<lambda>_.
             sret updated)))))"

section \<open>Joining\<close>

definition media_participant_of :: "call_actor \<Rightarrow> media_participant" where
  "media_participant_of actor = \<lparr>mu_user_id = ca_user_id actor, mu_device_id = ca_device_id actor\<rparr>"

definition joining_participant :: "call_actor \<Rightarrow> string \<Rightarrow> string \<Rightarrow> call_participant" where
  "joining_participant actor call_id joined_at =
     \<lparr>cpt_id = participant_id call_id (ca_user_id actor) (ca_device_id actor), cpt_call_id = call_id,
      cpt_user_id = ca_user_id actor, cpt_device_id = ca_device_id actor, cpt_state = Joined,
      cpt_joined_at = joined_at, cpt_left_at = None, cpt_mic_enabled = True, cpt_camera_enabled = False,
      cpt_screen_sharing = False, cpt_speaking = None, cpt_network_quality = None\<rparr>"

definition accept_on_join ::
  "'m call_plane \<Rightarrow> call_actor \<Rightarrow> string \<Rightarrow> string \<Rightarrow> string \<Rightarrow> call_invite option \<Rightarrow> ('m, unit) call_prog" where
  "accept_on_join cp actor app_id call_id joined_at invite = (case invite of
      None \<Rightarrow> sret ()
    | Some i \<Rightarrow>
       if inv_status i = InviteAccepted then sret ()
       else sbind (write_invite cp actor app_id
                (i\<lparr>inv_status := InviteAccepted, inv_responded_at := Some joined_at\<rparr>)) (\<lambda>_.
            call_append_event cp actor app_id call_id CALL_INVITE_ACCEPTED
              (invite_accepted_fields call_id (ca_user_id actor))))"

definition activate_on_join ::
  "'m call_plane \<Rightarrow> call_actor \<Rightarrow> string \<Rightarrow> string \<Rightarrow> call_room \<Rightarrow> ('m, call_room) call_prog" where
  "activate_on_join cp actor app_id joined_at room =
    (if cr_state room = RoomRinging
     then let activated = room\<lparr>cr_state := RoomActive, cr_started_at := Some joined_at\<rparr>
          in sbind (write_room cp actor app_id activated) (\<lambda>_. sret activated)
     else sret room)"

definition join_call :: "'m call_plane \<Rightarrow> call_actor \<Rightarrow> string \<Rightarrow> ('m, join_call_result) call_prog" where
  "join_call cp actor call_id =
    (let app_id = actor_app_id actor in
     sbind (require_live_room cp actor app_id call_id) (\<lambda>room.
     sbind (require_invitee_or_creator cp room actor app_id) (\<lambda>invite.
     sbind (sguard (\<not> (case invite of Some i \<Rightarrow> inv_status i \<in> {InviteDeclined, InviteCancelled} | None \<Rightarrow> False))
       (CallState InviteAlreadyResolved (''Invite for '' @ ca_user_id actor @ '' is resolved; cannot join''))) (\<lambda>_.
     sbind (now_iso cp) (\<lambda>joined_at.
     sbind (assert_participant_capacity cp actor call_id) (\<lambda>_.
     sbind (accept_on_join cp actor app_id call_id joined_at invite) (\<lambda>_.
     let participant = joining_participant actor call_id joined_at in
     sbind (write_participant cp actor app_id participant) (\<lambda>_.
     sbind (activate_on_join cp actor app_id joined_at room) (\<lambda>active_room.
     sbind (call_append_event cp actor app_id call_id CALL_PARTICIPANT_JOINED
       [(''callId'', VString call_id), (''userId'', VString (ca_user_id actor)),
        (''deviceId'', VString (ca_device_id actor)), (''joinedAt'', VString joined_at)]) (\<lambda>_.
     sbind (now_ms cp) (\<lambda>now.
     sbind (on_media CallMedia (mp_issue (cp_media cp) call_id (media_participant_of actor) now None)) (\<lambda>grant.
     sret \<lparr>jc_room = active_room, jc_participant = participant, jc_media_grant = grant\<rparr>))))))))))))"

section \<open>Media state\<close>

definition set_media_state ::
  "'m call_plane \<Rightarrow> call_actor \<Rightarrow> string \<Rightarrow> media_state_patch \<Rightarrow> ('m, call_participant) call_prog" where
  "set_media_state cp actor call_id patch =
    (let app_id = actor_app_id actor in
     sbind (require_live_room cp actor app_id call_id) (\<lambda>_.
     sbind (require_joined cp actor app_id call_id) (\<lambda>participant.
     let updated = participant\<lparr>
           cpt_mic_enabled := (case pt_mic_enabled patch of Some b \<Rightarrow> b | None \<Rightarrow> cpt_mic_enabled participant),
           cpt_camera_enabled := (case pt_camera_enabled patch of Some b \<Rightarrow> b | None \<Rightarrow> cpt_camera_enabled participant),
           cpt_screen_sharing := (case pt_screen_sharing patch of Some b \<Rightarrow> b | None \<Rightarrow> cpt_screen_sharing participant)\<rparr> in
     sbind (write_participant cp actor app_id updated) (\<lambda>_.
     sbind (call_append_event cp actor app_id call_id CALL_PARTICIPANT_MEDIA_CHANGED
       [(''callId'', VString call_id), (''userId'', VString (ca_user_id actor)),
        (''deviceId'', VString (ca_device_id actor)), (''micEnabled'', VBoolean (cpt_mic_enabled updated)),
        (''cameraEnabled'', VBoolean (cpt_camera_enabled updated)),
        (''screenSharing'', VBoolean (cpt_screen_sharing updated))]) (\<lambda>_.
     sret updated)))))"

definition require_sfu_participant :: "'m call_plane \<Rightarrow> call_actor \<Rightarrow> string \<Rightarrow> ('m, 'm sfu_ops) call_prog" where
  "require_sfu_participant cp actor call_id = (case cp_sfu_media cp of
      None \<Rightarrow> sfail (CallMediaUnsupported (''Call '' @ call_id
        @ '' is not brokered over an SFU media plane; SFU media negotiation is unsupported''))
    | Some ops \<Rightarrow>
       (let app_id = actor_app_id actor in
        sbind (require_live_room cp actor app_id call_id) (\<lambda>_.
        sbind (require_joined cp actor app_id call_id) (\<lambda>_.
        sret ops))))"

definition sfu_connect_transport ::
  "'m call_plane \<Rightarrow> call_actor \<Rightarrow> string \<Rightarrow> string \<Rightarrow> string \<Rightarrow> value \<Rightarrow> ('m, unit) call_prog" where
  "sfu_connect_transport cp actor call_id token transport_id dtls_parameters =
     sbind (require_sfu_participant cp actor call_id) (\<lambda>ops.
     sbind (now_ms cp) (\<lambda>now.
     on_media CallMediaForbidden
       (so_connect ops call_id (media_participant_of actor) token transport_id dtls_parameters now)))"

definition sfu_produce ::
  "'m call_plane \<Rightarrow> call_actor \<Rightarrow> string \<Rightarrow> string \<Rightarrow> string \<Rightarrow> media_kind \<Rightarrow> value \<Rightarrow> ('m, producer_handle) call_prog" where
  "sfu_produce cp actor call_id token transport_id kind rtp_parameters =
     sbind (require_sfu_participant cp actor call_id) (\<lambda>ops.
     sbind (now_ms cp) (\<lambda>now.
     on_media CallMediaForbidden
       (so_produce ops call_id (media_participant_of actor) token transport_id kind rtp_parameters now)))"

definition sfu_consume ::
  "'m call_plane \<Rightarrow> call_actor \<Rightarrow> string \<Rightarrow> string \<Rightarrow> string \<Rightarrow> string \<Rightarrow> value \<Rightarrow> ('m, consumer_handle) call_prog" where
  "sfu_consume cp actor call_id token transport_id producer_id rtp_capabilities =
     sbind (require_sfu_participant cp actor call_id) (\<lambda>ops.
     sbind (now_ms cp) (\<lambda>now.
     on_media CallMediaForbidden
       (so_consume ops call_id (media_participant_of actor) token transport_id producer_id rtp_capabilities now)))"

section \<open>Leaving and ending\<close>

definition finalize_end ::
  "'m call_plane \<Rightarrow> call_actor \<Rightarrow> string \<Rightarrow> string \<Rightarrow> string \<Rightarrow> ('m, call_room) call_prog" where
  "finalize_end cp actor app_id call_id ended_by =
     sbind (now_iso cp) (\<lambda>ended_at.
     sbind (read_room cp actor app_id call_id) (\<lambda>found. case found of
       None \<Rightarrow> sfail (no_call_error call_id)
     | Some room \<Rightarrow>
        if cr_state room = RoomEnded then sret room
        else let ended = room\<lparr>cr_state := RoomEnded, cr_ended_at := Some ended_at\<rparr> in
             sbind (write_room cp actor app_id ended) (\<lambda>_.
             sbind (call_append_event cp actor app_id call_id CALL_ENDED
               [(''callId'', VString call_id), (''endedBy'', VString ended_by), (''endedAt'', VString ended_at)]) (\<lambda>_.
             sbind (smodify (\<lambda>s. s\<lparr>cl_media := mp_release (cp_media cp) call_id (cl_media s)\<rparr>)) (\<lambda>_.
             sret ended)))))"

definition leave_call :: "'m call_plane \<Rightarrow> call_actor \<Rightarrow> string \<Rightarrow> ('m, call_room) call_prog" where
  "leave_call cp actor call_id =
    (let app_id = actor_app_id actor in
     sbind (read_room cp actor app_id call_id) (\<lambda>found. case found of
       None \<Rightarrow> sfail (no_call_error call_id)
     | Some room \<Rightarrow>
        if cr_state room = RoomEnded then sret room
        else
        sbind (require_joined cp actor app_id call_id) (\<lambda>participant.
        sbind (now_iso cp) (\<lambda>left_at.
        sbind (write_participant cp actor app_id (participant\<lparr>cpt_state := Left, cpt_left_at := Some left_at\<rparr>)) (\<lambda>_.
        sbind (call_append_event cp actor app_id call_id CALL_PARTICIPANT_LEFT
          [(''callId'', VString call_id), (''userId'', VString (ca_user_id actor)),
           (''deviceId'', VString (ca_device_id actor)), (''leftAt'', VString left_at)]) (\<lambda>_.
        sbind (case cp_sfu_media cp of
            Some ops \<Rightarrow> smodify (\<lambda>s. s\<lparr>cl_media := so_leave ops call_id (media_participant_of actor) (cl_media s)\<rparr>)
          | None \<Rightarrow> sret ()) (\<lambda>_.
        sbind (active_participant_count cp actor call_id) (\<lambda>remaining.
        if remaining = 0 \<and> cr_state room = RoomActive
        then finalize_end cp actor app_id call_id (ca_user_id actor)
        else sret room))))))))"

definition end_call :: "'m call_plane \<Rightarrow> call_actor \<Rightarrow> string \<Rightarrow> ('m, call_room) call_prog" where
  "end_call cp actor call_id =
    (let app_id = actor_app_id actor in
     sbind (read_room cp actor app_id call_id) (\<lambda>found. case found of
       None \<Rightarrow> sfail (no_call_error call_id)
     | Some room \<Rightarrow>
        if cr_created_by room \<noteq> ca_user_id actor
        then sfail (CallAuthz NotCreator ''Only the call creator may end the call'')
        else if cr_state room = RoomEnded then sret room
        else finalize_end cp actor app_id call_id (ca_user_id actor)))"

section \<open>The signal gate\<close>

definition is_signal_member :: "'m call_plane \<Rightarrow> string \<Rightarrow> string \<Rightarrow> string \<Rightarrow> string \<Rightarrow> 'm call_state \<Rightarrow> bool" where
  "is_signal_member cp tenant_id app_id call_id user_id s =
    (let actor = \<lparr>ca_tenant_id = tenant_id, ca_user_id = user_id, ca_device_id = '''', ca_app_id = Some app_id\<rparr>
     in case fst (read_room cp actor app_id call_id s) of
       Inr (Some room) \<Rightarrow>
         if cr_state room = RoomEnded then False
         else if cr_created_by room = user_id then True
         else if (case fst (read_invite cp actor app_id call_id user_id s) of
                    Inr (Some invite) \<Rightarrow> inv_status invite \<notin> {InviteDeclined, InviteCancelled} | _ \<Rightarrow> False)
         then True
         else (case fst (list_participants cp actor call_id s) of
                 Inr ps \<Rightarrow> list_ex (\<lambda>p. cpt_user_id p = user_id) ps | Inl _ \<Rightarrow> False)
     | _ \<Rightarrow> False)"

end
