(* ===== verification/FrickCallLogic.thy ===== *)
theory FrickCallLogic
  imports FrickCalls
begin

text \<open>
  How the programs of the control plane are reasoned about: the view of a state (the stored objects and
  the media sessions), the judgement \<open>runs\<close> with one rule per primitive, collected in \<open>runs_intro\<close>, and
  the operations as data (\<open>call_op\<close>).  A property of an operation is then proved by \<open>auto intro!: runs_intro\<close>.
\<close>

section \<open>Stored records\<close>

lemma stored_value_own_id:
  assumes "string_keyed ((VString ''id'', VString i) # es)"
  shows "stored_value i (VMap ((VString ''id'', VString i) # es)) = VMap ((VString ''id'', VString i) # es)"
proof -
  have "VString ''id'' \<notin> fst ` set es" using assms by (simp add: string_keyed_def)
  then have "filter (\<lambda>e. fst e \<noteq> VString ''id'') es = es" by (intro filter_True) (auto simp: image_iff)
  then show ?thesis using stored_value_string_keyed [OF assms, of i] by simp
qed

lemma stored_room [simp]: "stored_value (cr_id r) (room_to_value r) = room_to_value r"
  unfolding room_to_value_def str_entry_def append_Cons
  by (rule stored_value_own_id)
    (cases "cr_started_at r"; cases "cr_ended_at r"; cases "cr_media_session_id r"; cases "cr_transport r";
      simp add: string_keyed_def)

lemma stored_invite [simp]: "stored_value (inv_id i) (invite_to_value i) = invite_to_value i"
  unfolding invite_to_value_def str_entry_def append_Cons
  by (rule stored_value_own_id) (cases "inv_responded_at i"; simp add: string_keyed_def)

lemma stored_participant [simp]: "stored_value (cpt_id p) (participant_to_value p) = participant_to_value p"
  unfolding participant_to_value_def str_entry_def append_Cons
  by (rule stored_value_own_id)
    (cases "cpt_left_at p"; cases "cpt_speaking p"; cases "cpt_network_quality p"; simp add: string_keyed_def bool_entry_def)

lemmas of_to_value [simp]

section \<open>What an operation does to the store and the media plane\<close>

text \<open>The part of the state a call operation reads and changes: the objects of every application and
  tenant, the sessions of the media plane, and the number of the next draw.\<close>

record call_view =
  vw_objects :: "object_scope \<Rightarrow> value option"
  vw_sessions :: "string \<Rightarrow> media_session option"
  vw_draws :: nat

definition call_view_of :: "'m call_plane \<Rightarrow> ('m \<Rightarrow> string \<Rightarrow> media_session option) \<Rightarrow> 'm call_state \<Rightarrow> call_view" where
  "call_view_of cp sessions s = \<lparr>vw_objects = object_at (fa_env (cp_facade cp)) (st_objects (cl_store s)),
     vw_sessions = sessions (cl_media s), vw_draws = cl_draws s\<rparr>"

definition call_inv :: "'m call_plane \<Rightarrow> 'm call_state \<Rightarrow> bool" where
  "call_inv cp s \<longleftrightarrow> store_inv (cp_facade cp) (cl_store s)"

definition sfu_keeps :: "('m \<Rightarrow> string \<Rightarrow> media_session option) \<Rightarrow> 'm sfu_ops \<Rightarrow> bool" where
  "sfu_keeps sessions ops \<longleftrightarrow> (\<forall>c u t x v now m. sessions (snd (so_connect ops c u t x v now m)) = sessions m)
     \<and> (\<forall>c u t x k v now m. sessions (snd (so_produce ops c u t x k v now m)) = sessions m)
     \<and> (\<forall>c u t x q v now m. sessions (snd (so_consume ops c u t x q v now m)) = sessions m)
     \<and> (\<forall>c u m. sessions (so_leave ops c u m) = sessions m)"

definition call_ready :: "'m call_plane \<Rightarrow> ('m \<Rightarrow> string \<Rightarrow> media_session option) \<Rightarrow> bool" where
  "call_ready cp sessions \<longleftrightarrow> facade_ready (cp_facade cp) \<and> media_plane_contract (cp_media cp) sessions
     \<and> (\<forall>ops. cp_sfu_media cp = Some ops \<longrightarrow> sfu_keeps sessions ops)"

text \<open>\<open>runs cp sessions m v Q\<close>: started in a state that looks like \<open>v\<close>, the program ends with a result and
  a state that satisfy \<open>Q\<close>, whatever the clock, the nonces and the failures of the encoder.\<close>

definition runs ::
  "'m call_plane \<Rightarrow> ('m \<Rightarrow> string \<Rightarrow> media_session option) \<Rightarrow> ('m, 'a) call_prog \<Rightarrow> call_view
    \<Rightarrow> ((call_error, 'a) result \<Rightarrow> call_view \<Rightarrow> bool) \<Rightarrow> bool" where
  "runs cp sessions m v Q \<longleftrightarrow> (\<forall>s. call_inv cp s \<and> call_view_of cp sessions s = v \<longrightarrow>
     call_inv cp (snd (m s)) \<and> Q (fst (m s)) (call_view_of cp sessions (snd (m s))))"

named_theorems runs_intro \<open>rules for the programs of the control plane\<close>

lemma runsD:
  assumes "runs cp ss m (call_view_of cp ss s) Q" "call_inv cp s" "m s = (r, s')"
  shows "call_inv cp s'" "Q r (call_view_of cp ss s')"
  using assms by (auto simp: runs_def)

lemma runs_mono: "runs cp ss m v Q \<Longrightarrow> (\<And>r v'. Q r v' \<Longrightarrow> R r v') \<Longrightarrow> runs cp ss m v R"
  by (auto simp: runs_def)

lemma runs_sret [runs_intro]: "Q (Inr a) v \<Longrightarrow> runs cp ss (sret a) v Q"
  by (simp add: runs_def prog_simps)

lemma runs_sfail [runs_intro]: "Q (Inl e) v \<Longrightarrow> runs cp ss (sfail e) v Q"
  by (simp add: runs_def prog_simps)

lemma runs_sguard [runs_intro]:
  "(b \<Longrightarrow> Q (Inr ()) v) \<Longrightarrow> (\<not> b \<Longrightarrow> Q (Inl e) v) \<Longrightarrow> runs cp ss (sguard b e) v Q"
  by (simp add: runs_def prog_simps)

lemma runs_sbind [runs_intro]:
  assumes "runs cp ss m v (\<lambda>r v'. case r of Inl e \<Rightarrow> Q (Inl e) v' | Inr a \<Rightarrow> runs cp ss (f a) v' Q)"
  shows "runs cp ss (sbind m f) v Q"
  unfolding runs_def
proof (intro allI impI)
  fix s assume s: "call_inv cp s \<and> call_view_of cp ss s = v"
  obtain r s1 where m: "m s = (r, s1)" by fastforce
  have 1: "call_inv cp s1" "case r of Inl e \<Rightarrow> Q (Inl e) (call_view_of cp ss s1) | Inr a \<Rightarrow> runs cp ss (f a) (call_view_of cp ss s1) Q"
    using runsD [OF assms [folded conjunct2 [OF s]] conjunct1 [OF s] m] by auto
  show "call_inv cp (snd (sbind m f s)) \<and> Q (fst (sbind m f s)) (call_view_of cp ss (snd (sbind m f s)))"
    using 1 by (cases r) (auto simp: sbind_app m runs_def)
qed

lemma runs_if [runs_intro]:
  "(b \<Longrightarrow> runs cp ss m v Q) \<Longrightarrow> (\<not> b \<Longrightarrow> runs cp ss m' v Q) \<Longrightarrow> runs cp ss (if b then m else m') v Q"
  by simp

lemma runs_option [runs_intro]:
  "(x = None \<Longrightarrow> runs cp ss m v Q) \<Longrightarrow> (\<And>a. x = Some a \<Longrightarrow> runs cp ss (f a) v Q)
    \<Longrightarrow> runs cp ss (case x of None \<Rightarrow> m | Some a \<Rightarrow> f a) v Q"
  by (cases x) auto

lemma runs_now_ms [runs_intro]: "(\<And>t. Q (Inr t) (v\<lparr>vw_draws := Suc (vw_draws v)\<rparr>)) \<Longrightarrow> runs cp ss (now_ms cp) v Q"
  by (auto simp: runs_def now_ms_def call_inv_def call_view_of_def)

lemma runs_now_iso [runs_intro]: "(\<And>t. Q (Inr t) (v\<lparr>vw_draws := Suc (vw_draws v)\<rparr>)) \<Longrightarrow> runs cp ss (now_iso cp) v Q"
  unfolding now_iso_def by (intro runs_intro) (auto intro: runs_intro)

lemma runs_new_call_id [runs_intro]:
  "Q (Inr (cp_call_id cp (vw_draws v))) (v\<lparr>vw_draws := Suc (vw_draws v)\<rparr>) \<Longrightarrow> runs cp ss (new_call_id cp) v Q"
  by (auto simp: runs_def new_call_id_def call_inv_def call_view_of_def)

lemma object_at_id:
  assumes "objects_inv env rows" "object_at env rows (app, t, ty, i) = Some x"
  shows "id_of_value x = Some i"
proof -
  from assms(2) obtain r where r: "select_object app t ty i rows = Some r" "x = row_value env r"
    by (auto simp: object_at_def)
  with select_object_in [OF r(1)] objects_inv_row(2) [OF assms(1), of r] show ?thesis by simp
qed

lemma runs_read_object [runs_intro]:
  assumes "vw_objects v (app, ca_tenant_id actor, ty, i) = None \<Longrightarrow> Q (Inr None) v"
    and "\<And>x r. vw_objects v (app, ca_tenant_id actor, ty, i) = Some x \<Longrightarrow> id_of_value x = Some i
      \<Longrightarrow> decode x = Some r \<Longrightarrow> Q (Inr (Some r)) v"
    and "\<And>x e. vw_objects v (app, ca_tenant_id actor, ty, i) = Some x \<Longrightarrow> decode x = None \<Longrightarrow> Q (Inl (CallDecode e)) v"
  shows "runs cp ss (call_read_object cp decode actor app ty i) v Q"
  unfolding runs_def
proof (intro allI impI)
  fix s assume s: "call_inv cp s \<and> call_view_of cp ss s = v"
  have o: "objects_inv (fa_env (cp_facade cp)) (st_objects (cl_store s))"
    using s by (simp add: call_inv_def store_inv_def)
  have v: "vw_objects v = object_at (fa_env (cp_facade cp)) (st_objects (cl_store s))"
    using s by (auto simp: call_view_of_def)
  have "id_of_value x = Some i" if "vw_objects v (app, ca_tenant_id actor, ty, i) = Some x" for x
    using that object_at_id [OF o, of app "ca_tenant_id actor" ty i x] by (simp add: v)
  with v show "call_inv cp (snd (call_read_object cp decode actor app ty i s))
      \<and> Q (fst (call_read_object cp decode actor app ty i s)) (call_view_of cp ss (snd (call_read_object cp decode actor app ty i s)))"
    using s assms
    by (auto simp: call_read_object_def sbind_app on_store_def sread_def read_object_at [OF o] prog_simps split: option.split)
qed

lemma runs_write_object [runs_intro]:
  assumes "call_ready cp ss" "\<And>e. Q (Inl e) v"
    and "Q (Inr ()) (v\<lparr>vw_objects := (vw_objects v)((app, ca_tenant_id actor, ty, i) \<mapsto> stored_value i x)\<rparr>)"
  shows "runs cp ss (call_write_object cp actor app ty i x) v Q"
  unfolding runs_def
proof (intro allI impI)
  fix s assume s: "call_inv cp s \<and> call_view_of cp ss s = v"
  have o: "objects_inv (fa_env (cp_facade cp)) (st_objects (cl_store s))" and fr: "facade_ready (cp_facade cp)"
    using s assms(1) by (simp_all add: call_inv_def store_inv_def call_ready_def)
  show "call_inv cp (snd (call_write_object cp actor app ty i x s))
      \<and> Q (fst (call_write_object cp actor app ty i x s)) (call_view_of cp ss (snd (call_write_object cp actor app ty i x s)))"
  proof (cases rule: upsert_object_with_policy_cases [OF fr o, of "ca_tenant_id actor" app ty i x None None])
    case (1 e s')
    then have "call_view_of cp ss (s\<lparr>cl_store := s'\<rparr>) = v" "call_inv cp (s\<lparr>cl_store := s'\<rparr>)"
      using s by (auto simp: call_view_of_def call_inv_def store_inv_def)
    then show ?thesis using assms(2) 1(1) by (simp add: call_write_object_def sbind_app on_store_def)
  next
    case (2 res s')
    then have "call_view_of cp ss (s\<lparr>cl_store := s'\<rparr>)
        = v\<lparr>vw_objects := (vw_objects v)((app, ca_tenant_id actor, ty, i) \<mapsto> stored_value i x)\<rparr>"
      "call_inv cp (s\<lparr>cl_store := s'\<rparr>)"
      using s by (auto simp: call_view_of_def call_inv_def store_inv_def wrote_object_def)
    then show ?thesis using assms(3) 2(1) by (simp add: call_write_object_def sbind_app on_store_def prog_simps)
  qed
qed

lemma runs_append_event [runs_intro]:
  assumes "call_ready cp ss" "\<And>e. Q (Inl e) v" "Q (Inr ()) v"
  shows "runs cp ss (call_append_event cp actor app c event fs) v Q"
  unfolding runs_def
proof (intro allI impI)
  fix s assume s: "call_inv cp s \<and> call_view_of cp ss s = v"
  have fr: "facade_ready (cp_facade cp)" and si: "store_inv (cp_facade cp) (cl_store s)"
    using s assms(1) by (simp_all add: call_inv_def call_ready_def)
  obtain r st where a: "append_event (cp_facade cp) (ca_tenant_id actor) CALL_EVENT_STREAM c ''call-control-plane''
         (''call-'' @ c @ ''-'' @ event @ ''-'' @ dec_nat (cl_seq s + 1)) event
         (VMap (map (\<lambda>(k, v). (VString k, v)) fs)) app (cl_store s) = (r, st)" by fastforce
  have st: "st_objects st = st_objects (cl_store s)" "store_inv (cp_facade cp) st"
    using a si by (cases rule: append_event_cases [OF fr si, of "ca_tenant_id actor" CALL_EVENT_STREAM c "''call-control-plane''"
        "''call-'' @ c @ ''-'' @ event @ ''-'' @ dec_nat (cl_seq s + 1)" event "VMap (map (\<lambda>(k, v). (VString k, v)) fs)" app];
      auto simp: store_inv_def)+
  let ?s = "s\<lparr>cl_seq := cl_seq s + 1, cl_store := st\<rparr>"
  have v: "call_view_of cp ss ?s = v" "call_inv cp ?s"
    using s st by (auto simp: call_view_of_def call_inv_def)
  show "call_inv cp (snd (call_append_event cp actor app c event fs s))
      \<and> Q (fst (call_append_event cp actor app c event fs s)) (call_view_of cp ss (snd (call_append_event cp actor app c event fs s)))"
    using a v assms(2,3) by (cases r) (simp_all add: call_append_event_def sbind_app on_store_def prog_simps)
qed

lemma runs_list_participants [runs_intro]:
  assumes "\<And>ps. set ps = {p. \<exists>i x. vw_objects v (actor_app_id actor, ca_tenant_id actor, CALL_PARTICIPANT_TYPE, i) = Some x
      \<and> participant_of_value x = Some p \<and> cpt_call_id p = c} \<Longrightarrow> Q (Inr ps) v"
  shows "runs cp ss (list_participants cp actor c) v Q"
  unfolding runs_def
proof (intro allI impI)
  fix s assume s: "call_inv cp s \<and> call_view_of cp ss s = v"
  have o: "objects_inv (fa_env (cp_facade cp)) (st_objects (cl_store s))"
    using s by (simp add: call_inv_def store_inv_def)
  obtain vs where l: "list_objects (fa_env (cp_facade cp)) (ca_tenant_id actor) CALL_PARTICIPANT_TYPE (actor_app_id actor)
      (st_objects (cl_store s)) = Inr vs"
    "set vs = {x. \<exists>i. object_at (fa_env (cp_facade cp)) (st_objects (cl_store s)) (actor_app_id actor, ca_tenant_id actor, CALL_PARTICIPANT_TYPE, i) = Some x}"
    by (rule list_objects_at [OF o])
  have v: "vw_objects v = object_at (fa_env (cp_facade cp)) (st_objects (cl_store s))" using s by (auto simp: call_view_of_def)
  have "set (filter (\<lambda>p. cpt_call_id p = c) (List.map_filter participant_of_value vs))
      = {p. \<exists>i x. vw_objects v (actor_app_id actor, ca_tenant_id actor, CALL_PARTICIPANT_TYPE, i) = Some x
      \<and> participant_of_value x = Some p \<and> cpt_call_id p = c}"
    using l(2) by (auto simp: v map_filter_def image_iff) (metis option.sel)+
  from assms [OF this] show "call_inv cp (snd (list_participants cp actor c s))
      \<and> Q (fst (list_participants cp actor c s)) (call_view_of cp ss (snd (list_participants cp actor c s)))"
    using s l(1) by (auto simp: list_participants_def sbind_app on_store_def sread_def prog_simps)
qed


lemma runs_on_media:
  assumes "\<And>m. ss (snd (f m)) = ss m" "\<And>r. Q r v"
  shows "runs cp ss (on_media err f) v Q"
  using assms by (auto simp: runs_def on_media_def call_inv_def call_view_of_def split: prod.split) (metis snd_conv)+

lemma runs_allocate [runs_intro]:
  assumes "call_ready cp ss" "\<And>e. Q (Inl e) v" "\<And>x. Q (Inr x) (v\<lparr>vw_sessions := (vw_sessions v)(c \<mapsto> x)\<rparr>)"
  shows "runs cp ss (on_media err (mp_allocate (cp_media cp) c opts)) v Q"
  unfolding runs_def
proof (intro allI impI)
  fix s assume s: "call_inv cp s \<and> call_view_of cp ss s = v"
  obtain r m where a: "mp_allocate (cp_media cp) c opts (cl_media s) = (r, m)" by fastforce
  have "media_plane_contract (cp_media cp) ss" using assms(1) by (simp add: call_ready_def)
  from media_plane_contract.allocate_sessions [OF this a]
  show "call_inv cp (snd (on_media err (mp_allocate (cp_media cp) c opts) s))
      \<and> Q (fst (on_media err (mp_allocate (cp_media cp) c opts) s)) (call_view_of cp ss (snd (on_media err (mp_allocate (cp_media cp) c opts) s)))"
    using s assms(2,3) by (cases r) (auto simp: on_media_def a call_inv_def call_view_of_def)
qed

lemma runs_issue [runs_intro]:
  assumes "call_ready cp ss" "\<And>e. Q (Inl e) v"
    and "\<And>g x. vw_sessions v c = Some x \<Longrightarrow> mg_call_id g = c \<Longrightarrow> mg_media_session_id g = ms_media_session_id x
      \<Longrightarrow> mg_user_id g = mu_user_id u \<Longrightarrow> mg_device_id g = mu_device_id u \<Longrightarrow> Q (Inr g) v"
  shows "runs cp ss (on_media err (mp_issue (cp_media cp) c u now ttl)) v Q"
  unfolding runs_def
proof (intro allI impI)
  fix s assume s: "call_inv cp s \<and> call_view_of cp ss s = v"
  obtain r m where a: "mp_issue (cp_media cp) c u now ttl (cl_media s) = (r, m)" by fastforce
  have mc: "media_plane_contract (cp_media cp) ss" using assms(1) by (simp add: call_ready_def)
  have k: "ss m = ss (cl_media s)" using media_plane_contract.issue_keeps [OF mc a] .
  show "call_inv cp (snd (on_media err (mp_issue (cp_media cp) c u now ttl) s))
      \<and> Q (fst (on_media err (mp_issue (cp_media cp) c u now ttl) s)) (call_view_of cp ss (snd (on_media err (mp_issue (cp_media cp) c u now ttl) s)))"
  proof (cases r)
    case (Inl e)
    with s k assms(2) show ?thesis by (auto simp: on_media_def a call_inv_def call_view_of_def)
  next
    case (Inr g)
    from media_plane_contract.issue_names [OF mc a [unfolded Inr]] s k assms(3) show ?thesis
      by (auto simp: on_media_def a Inr call_inv_def call_view_of_def)
  qed
qed

lemma runs_release [runs_intro]:
  assumes "call_ready cp ss" "Q (Inr ()) (v\<lparr>vw_sessions := (vw_sessions v)(c := None)\<rparr>)"
  shows "runs cp ss (smodify (\<lambda>s. s\<lparr>cl_media := mp_release (cp_media cp) c (cl_media s)\<rparr>)) v Q"
proof -
  have "media_plane_contract (cp_media cp) ss" using assms(1) by (simp add: call_ready_def)
  then have r: "ss (mp_release (cp_media cp) c m) = (ss m)(c := None)" for m
    by (rule media_plane_contract.release_forgets)
  show ?thesis
    using assms(2) by (auto simp: runs_def prog_simps call_inv_def call_view_of_def r)
qed

lemma runs_sfu_leave [runs_intro]:
  assumes "call_ready cp ss" "Q (Inr ()) v"
  shows "runs cp ss (case cp_sfu_media cp of
            Some ops \<Rightarrow> smodify (\<lambda>s. s\<lparr>cl_media := so_leave ops c u (cl_media s)\<rparr>) | None \<Rightarrow> sret ()) v Q"
  using assms
  by (cases "cp_sfu_media cp")
    (auto simp: runs_def prog_simps call_inv_def call_view_of_def call_ready_def sfu_keeps_def)

lemma runs_invite_state [runs_intro]:
  assumes "x = InviteRinging \<Longrightarrow> runs cp ss m1 v Q" "x = InviteAccepted \<Longrightarrow> runs cp ss m2 v Q"
    "x = InviteDeclined \<Longrightarrow> runs cp ss m3 v Q" "x = InviteCancelled \<Longrightarrow> runs cp ss m4 v Q"
  shows "runs cp ss (case x of InviteRinging \<Rightarrow> m1 | InviteAccepted \<Rightarrow> m2 | InviteDeclined \<Rightarrow> m3 | InviteCancelled \<Rightarrow> m4) v Q"
  using assms by (cases x) auto

lemmas call_access = read_room_def read_invite_def read_participant_def write_room_def write_invite_def write_participant_def

text \<open>The users with a joined participant of a call, and the rooms, of an application and tenant.\<close>

definition joined_users :: "call_view \<Rightarrow> string \<Rightarrow> string \<Rightarrow> string \<Rightarrow> string set" where
  "joined_users v app t c = {u. \<exists>i x p. vw_objects v (app, t, CALL_PARTICIPANT_TYPE, i) = Some x
     \<and> participant_of_value x = Some p \<and> cpt_call_id p = c \<and> cpt_state p = Joined \<and> u = cpt_user_id p}"

lemma runs_capacity [runs_intro]:
  assumes "\<And>e. Q (Inl e) v"
    and "(\<And>n. mc_max_participants (mp_describe (cp_media cp)) = Some n \<Longrightarrow>
         ca_user_id actor \<in> joined_users v (actor_app_id actor) (ca_tenant_id actor) c
         \<or> card (insert (ca_user_id actor) (joined_users v (actor_app_id actor) (ca_tenant_id actor) c)) \<le> n) \<Longrightarrow> Q (Inr ()) v"
  shows "runs cp ss (assert_participant_capacity cp actor c) v Q"
  unfolding assert_participant_capacity_def
proof (rule runs_option, goal_cases)
  case 1
  then show ?case using assms(2) by (auto intro: runs_intro)
next
  case (2 n)
  show ?case
  proof (rule runs_sbind, rule runs_list_participants, simp only: sum.case Let_def)
    fix ps assume ps: "set ps = {p. \<exists>i x. vw_objects v (actor_app_id actor, ca_tenant_id actor, CALL_PARTICIPANT_TYPE, i) = Some x
      \<and> participant_of_value x = Some p \<and> cpt_call_id p = c}"
    let ?us = "map cpt_user_id (filter (\<lambda>p. cpt_state p = Joined) ps)"
    have us: "set ?us = joined_users v (actor_app_id actor) (ca_tenant_id actor) c"
      using ps by (auto simp: joined_users_def)
    have len: "length (remdups (ca_user_id actor # ?us))
        = card (insert (ca_user_id actor) (joined_users v (actor_app_id actor) (ca_tenant_id actor) c))"
      unfolding us [symmetric] by (simp only: length_remdups_card_conv list.set)
    show "runs cp ss (if list_ex (\<lambda>p. cpt_state p = Joined \<and> cpt_user_id p = ca_user_id actor
              \<and> cpt_device_id p = ca_device_id actor) ps \<or> ca_user_id actor \<in> set ?us then sret ()
           else if length (remdups (ca_user_id actor # ?us)) > n
           then sfail (CallState CapacityExceeded (''Call '' @ c @ '' is full (media plane capacity is '' @ dec_nat n @ '')''))
           else sret ()) v Q"
    proof (intro runs_if runs_sret runs_sfail)
      show "Q (Inr ()) v" if "list_ex (\<lambda>p. cpt_state p = Joined \<and> cpt_user_id p = ca_user_id actor
              \<and> cpt_device_id p = ca_device_id actor) ps \<or> ca_user_id actor \<in> set ?us"
      proof (rule assms(2))
        have "ca_user_id actor \<in> set ?us" using that by (force simp: list_ex_iff)
        then show "ca_user_id actor \<in> joined_users v (actor_app_id actor) (ca_tenant_id actor) c
           \<or> card (insert (ca_user_id actor) (joined_users v (actor_app_id actor) (ca_tenant_id actor) c)) \<le> k" for k
          unfolding us by blast
      qed
      show "Q (Inr ()) v" if "\<not> n < length (remdups (ca_user_id actor # ?us))"
      proof (rule assms(2))
        fix k assume "mc_max_participants (mp_describe (cp_media cp)) = Some k"
        then show "ca_user_id actor \<in> joined_users v (actor_app_id actor) (ca_tenant_id actor) c
           \<or> card (insert (ca_user_id actor) (joined_users v (actor_app_id actor) (ca_tenant_id actor) c)) \<le> k"
          using that 2 by (simp only: len) simp
      qed
    qed (rule assms(1))
  qed
qed

lemma required_id: "required as_str ''id'' es = Some i \<Longrightarrow> find (\<lambda>e. as_str (fst e) = Some ''id'') es = Some e \<Longrightarrow> as_str (snd e) = Some i"
proof -
  assume r: "required as_str ''id'' es = Some i" and f: "find (\<lambda>e. as_str (fst e) = Some ''id'') es = Some e"
  define ids where "ids = filter (\<lambda>e. as_str (fst e) = Some ''id'') es"
  have "e \<in> set ids" using find_Some_set [OF f] by (simp add: ids_def)
  moreover obtain v where "map snd ids = [v]" "as_str v = Some i"
    using r by (auto simp: required_def entries_of_def ids_def split: list.splits)
  ultimately show ?thesis by (cases ids) auto
qed

lemma decoded_id:
  assumes "id_of_value x = Some i"
  shows "room_of_value x = Some r \<Longrightarrow> cr_id r = i" "invite_of_value x = Some n \<Longrightarrow> inv_id n = i"
    "participant_of_value x = Some p \<Longrightarrow> cpt_id p = i"
proof -
  obtain es e where es: "as_map x = Some es" "find (\<lambda>e. as_str (fst e) = Some ''id'') es = Some e" "as_str (snd e) = Some i"
    using assms by (auto simp: id_of_value_def split: option.splits)
  have *: "required as_str ''id'' es = Some j \<Longrightarrow> j = i" for j using required_id [OF _ es(2)] es(3) by auto
  show "room_of_value x = Some r \<Longrightarrow> cr_id r = i" using es(1) by (auto simp: room_of_value_def bind_eq_Some_conv dest: *)
  show "invite_of_value x = Some n \<Longrightarrow> inv_id n = i" using es(1) by (auto simp: invite_of_value_def bind_eq_Some_conv dest: *)
  show "participant_of_value x = Some p \<Longrightarrow> cpt_id p = i" using es(1) by (auto simp: participant_of_value_def bind_eq_Some_conv dest: *)
qed

definition room_in :: "call_view \<Rightarrow> string \<Rightarrow> string \<Rightarrow> string \<Rightarrow> call_room option" where
  "room_in v app t c = Option.bind (vw_objects v (app, t, CALL_ROOM_TYPE, c)) room_of_value"

definition invite_in :: "call_view \<Rightarrow> string \<Rightarrow> string \<Rightarrow> string \<Rightarrow> call_invite option" where
  "invite_in v app t i = Option.bind (vw_objects v (app, t, CALL_INVITE_TYPE, i)) invite_of_value"

definition participant_in :: "call_view \<Rightarrow> string \<Rightarrow> string \<Rightarrow> string \<Rightarrow> call_participant option" where
  "participant_in v app t i = Option.bind (vw_objects v (app, t, CALL_PARTICIPANT_TYPE, i)) participant_of_value"

lemma runs_read_room [runs_intro]:
  assumes "\<And>e. room_in v app (ca_tenant_id actor) c = None \<Longrightarrow> Q (Inl e) v" "room_in v app (ca_tenant_id actor) c = None \<Longrightarrow> Q (Inr None) v"
    and "\<And>r. room_in v app (ca_tenant_id actor) c = Some r \<Longrightarrow> cr_id r = c \<Longrightarrow> Q (Inr (Some r)) v"
  shows "runs cp ss (read_room cp actor app c) v Q"
  unfolding read_room_def by (auto intro!: runs_intro assms simp: room_in_def decoded_id)

lemma runs_read_invite [runs_intro]:
  assumes "\<And>e. invite_in v app (ca_tenant_id actor) (invite_id c u) = None \<Longrightarrow> Q (Inl e) v" "invite_in v app (ca_tenant_id actor) (invite_id c u) = None \<Longrightarrow> Q (Inr None) v"
    and "\<And>r. invite_in v app (ca_tenant_id actor) (invite_id c u) = Some r \<Longrightarrow> inv_id r = invite_id c u \<Longrightarrow> Q (Inr (Some r)) v"
  shows "runs cp ss (read_invite cp actor app c u) v Q"
  unfolding read_invite_def by (auto intro!: runs_intro assms simp: invite_in_def decoded_id)

lemma runs_read_participant [runs_intro]:
  assumes "\<And>e. participant_in v app (ca_tenant_id actor) (participant_id c u d) = None \<Longrightarrow> Q (Inl e) v" "participant_in v app (ca_tenant_id actor) (participant_id c u d) = None \<Longrightarrow> Q (Inr None) v"
    and "\<And>r. participant_in v app (ca_tenant_id actor) (participant_id c u d) = Some r \<Longrightarrow> cpt_id r = participant_id c u d
      \<Longrightarrow> Q (Inr (Some r)) v"
  shows "runs cp ss (read_participant cp actor app c u d) v Q"
  unfolding read_participant_def by (auto intro!: runs_intro assms simp: participant_in_def decoded_id)

lemma runs_require_live_room [runs_intro]:
  assumes "\<And>e. Q (Inl e) v"
    and "\<And>r. room_in v app (ca_tenant_id actor) c = Some r \<Longrightarrow> cr_id r = c \<Longrightarrow> cr_state r \<noteq> RoomEnded \<Longrightarrow> Q (Inr r) v"
  shows "runs cp ss (require_live_room cp actor app c) v Q"
  unfolding require_live_room_def by (auto intro!: runs_intro assms)

lemma runs_require_invitee [runs_intro]:
  assumes "\<And>e. Q (Inl e) v" "cr_created_by room = ca_user_id actor \<Longrightarrow> Q (Inr None) v"
    and "\<And>i. cr_created_by room \<noteq> ca_user_id actor
      \<Longrightarrow> invite_in v app (ca_tenant_id actor) (invite_id (cr_id room) (ca_user_id actor)) = Some i
      \<Longrightarrow> inv_id i = invite_id (cr_id room) (ca_user_id actor) \<Longrightarrow> Q (Inr (Some i)) v"
  shows "runs cp ss (require_invitee_or_creator cp room actor app) v Q"
  unfolding require_invitee_or_creator_def by (auto intro!: runs_intro assms)

lemma runs_require_joined [runs_intro]:
  assumes "\<And>e. Q (Inl e) v"
    and "\<And>p. participant_in v app (ca_tenant_id actor) (participant_id c (ca_user_id actor) (ca_device_id actor)) = Some p
      \<Longrightarrow> cpt_id p = participant_id c (ca_user_id actor) (ca_device_id actor) \<Longrightarrow> cpt_state p = Joined \<Longrightarrow> Q (Inr p) v"
  shows "runs cp ss (require_joined cp actor app c) v Q"
  unfolding require_joined_def by (auto intro!: runs_intro assms)

lemma runs_active_count [runs_intro]:
  assumes "\<And>n. n = 0 \<longleftrightarrow> joined_users v (actor_app_id actor) (ca_tenant_id actor) c = {} \<Longrightarrow> Q (Inr n) v"
  shows "runs cp ss (active_participant_count cp actor c) v Q"
  unfolding active_participant_count_def
proof (intro runs_intro, simp only: sum.case, intro runs_intro)
  fix ps assume "set ps = {p. \<exists>i x. vw_objects v (actor_app_id actor, ca_tenant_id actor, CALL_PARTICIPANT_TYPE, i) = Some x
      \<and> participant_of_value x = Some p \<and> cpt_call_id p = c}"
  then have "joined_users v (actor_app_id actor) (ca_tenant_id actor) c = cpt_user_id ` set (filter (\<lambda>p. cpt_state p = Joined) ps)"
    by (auto simp: joined_users_def)
  then show "Q (Inr (length (filter (\<lambda>p. cpt_state p = Joined) ps))) v" by (intro assms) (simp only: image_is_empty set_empty length_0_conv)
qed

lemma runs_sfu_participant [runs_intro]:
  assumes "\<And>e. Q (Inl e) v" "\<And>ops. cp_sfu_media cp = Some ops \<Longrightarrow> Q (Inr ops) v"
  shows "runs cp ss (require_sfu_participant cp actor c) v Q"
  unfolding require_sfu_participant_def Let_def using assms by (auto intro!: runs_intro)

section \<open>The operations\<close>

datatype call_op =
    OpCreate create_call_input
  | OpAccept string
  | OpDecline string
  | OpJoin string
  | OpSetMedia string media_state_patch
  | OpConnect string string string "value"
  | OpProduce string string string media_kind "value"
  | OpConsume string string string string "value"
  | OpLeave string
  | OpEnd string

fun call_run :: "'m call_plane \<Rightarrow> call_actor \<Rightarrow> call_op \<Rightarrow> ('m, unit) call_prog" where
  "call_run cp actor (OpCreate input) = sbind (create_call cp actor input) (\<lambda>_. sret ())"
| "call_run cp actor (OpAccept c) = sbind (accept_invite cp actor c) (\<lambda>_. sret ())"
| "call_run cp actor (OpDecline c) = sbind (decline_invite cp actor c) (\<lambda>_. sret ())"
| "call_run cp actor (OpJoin c) = sbind (join_call cp actor c) (\<lambda>_. sret ())"
| "call_run cp actor (OpSetMedia c patch) = sbind (set_media_state cp actor c patch) (\<lambda>_. sret ())"
| "call_run cp actor (OpConnect c token transport v) = sfu_connect_transport cp actor c token transport v"
| "call_run cp actor (OpProduce c token transport k v) = sbind (sfu_produce cp actor c token transport k v) (\<lambda>_. sret ())"
| "call_run cp actor (OpConsume c token transport p v) = sbind (sfu_consume cp actor c token transport p v) (\<lambda>_. sret ())"
| "call_run cp actor (OpLeave c) = sbind (leave_call cp actor c) (\<lambda>_. sret ())"
| "call_run cp actor (OpEnd c) = sbind (end_call cp actor c) (\<lambda>_. sret ())"

lemma runs_sfu_connect:
  assumes "call_ready cp ss" "\<And>r v'. v' = v \<or> v' = v\<lparr>vw_draws := Suc (vw_draws v)\<rparr> \<Longrightarrow> Q r v'"
  shows "runs cp ss (sfu_connect_transport cp actor c token transport d) v Q"
  unfolding sfu_connect_transport_def using assms
  by (auto intro!: runs_intro runs_on_media simp: call_ready_def sfu_keeps_def)

lemma runs_sfu_produce:
  assumes "call_ready cp ss" "\<And>r v'. v' = v \<or> v' = v\<lparr>vw_draws := Suc (vw_draws v)\<rparr> \<Longrightarrow> Q r v'"
  shows "runs cp ss (sfu_produce cp actor c token transport k d) v Q"
  unfolding sfu_produce_def using assms
  by (auto intro!: runs_intro runs_on_media simp: call_ready_def sfu_keeps_def)

lemma runs_sfu_consume:
  assumes "call_ready cp ss" "\<And>r v'. v' = v \<or> v' = v\<lparr>vw_draws := Suc (vw_draws v)\<rparr> \<Longrightarrow> Q r v'"
  shows "runs cp ss (sfu_consume cp actor c token transport p d) v Q"
  unfolding sfu_consume_def using assms
  by (auto intro!: runs_intro runs_on_media simp: call_ready_def sfu_keeps_def)

text \<open>What the three kinds of write do to a view.\<close>

definition room_write :: "call_view \<Rightarrow> call_actor \<Rightarrow> call_room \<Rightarrow> call_view" where
  "room_write v actor r = v\<lparr>vw_objects := (vw_objects v)((actor_app_id actor, ca_tenant_id actor, CALL_ROOM_TYPE, cr_id r) \<mapsto> room_to_value r)\<rparr>"

definition invite_write :: "call_view \<Rightarrow> call_actor \<Rightarrow> call_invite \<Rightarrow> call_view" where
  "invite_write v actor i = v\<lparr>vw_objects := (vw_objects v)((actor_app_id actor, ca_tenant_id actor, CALL_INVITE_TYPE, inv_id i) \<mapsto> invite_to_value i)\<rparr>"

definition participant_write :: "call_view \<Rightarrow> call_actor \<Rightarrow> call_participant \<Rightarrow> call_view" where
  "participant_write v actor p = v\<lparr>vw_objects := (vw_objects v)((actor_app_id actor, ca_tenant_id actor, CALL_PARTICIPANT_TYPE, cpt_id p) \<mapsto> participant_to_value p)\<rparr>"

lemma runs_write_room [runs_intro]:
  assumes "call_ready cp ss" "\<And>e. Q (Inl e) v" "Q (Inr ()) (room_write v actor r)"
  shows "runs cp ss (write_room cp actor (actor_app_id actor) r) v Q"
  unfolding write_room_def using assms by (intro runs_intro) (auto simp: room_write_def)

lemma runs_write_invite [runs_intro]:
  assumes "call_ready cp ss" "\<And>e. Q (Inl e) v" "Q (Inr ()) (invite_write v actor i)"
  shows "runs cp ss (write_invite cp actor (actor_app_id actor) i) v Q"
  unfolding write_invite_def using assms by (intro runs_intro) (auto simp: invite_write_def)

lemma runs_write_participant [runs_intro]:
  assumes "call_ready cp ss" "\<And>e. Q (Inl e) v" "Q (Inr ()) (participant_write v actor p)"
  shows "runs cp ss (write_participant cp actor (actor_app_id actor) p) v Q"
  unfolding write_participant_def using assms by (intro runs_intro) (auto simp: participant_write_def)

lemma view_write_simps [simp]:
  "vw_sessions (room_write v actor r) = vw_sessions v" "vw_draws (room_write v actor r) = vw_draws v"
  "vw_sessions (invite_write v actor i) = vw_sessions v" "vw_draws (invite_write v actor i) = vw_draws v"
  "vw_sessions (participant_write v actor p) = vw_sessions v" "vw_draws (participant_write v actor p) = vw_draws v"
  by (simp_all add: room_write_def invite_write_def participant_write_def)

end
