(* ===== verification/FrickCallScope.thy ===== *)
theory FrickCallScope
  imports FrickCallLogic
begin

text \<open>
  The footprint of the call operations: what every operation keeps because it touches the store only
  through object writes and event appends of its actor's tenant and application.  The locale takes
  these two kinds of write as its interface and proves that every operation keeps what they keep.
\<close>

fun op_call :: "call_op \<Rightarrow> string option" where
  "op_call (OpCreate _) = None"
| "op_call (OpAccept c) = Some c" | "op_call (OpDecline c) = Some c" | "op_call (OpJoin c) = Some c"
| "op_call (OpSetMedia c _) = Some c" | "op_call (OpConnect c _ _ _) = Some c" | "op_call (OpProduce c _ _ _ _) = Some c"
| "op_call (OpConsume c _ _ _ _) = Some c" | "op_call (OpLeave c) = Some c" | "op_call (OpEnd c) = Some c"

text \<open>The call an operation is about; a new call gets the next id.\<close>

definition op_call_id :: "'m call_plane \<Rightarrow> call_op \<Rightarrow> 'm call_state \<Rightarrow> string" where
  "op_call_id cp q s = (case op_call q of Some c \<Rightarrow> c | None \<Rightarrow> cp_call_id cp (cl_draws s))"

lemma keeps_cases [prog_keeps]:
  "\<lbrakk>\<And>y. keeps P (f y); keeps P m\<rbrakk> \<Longrightarrow> keeps P (case x of None \<Rightarrow> m | Some y \<Rightarrow> f y)"
  "\<lbrakk>keeps P m; keeps P m'\<rbrakk> \<Longrightarrow> keeps P (if b then m else m')"
  by (auto split: option.split)

lemma snd_sbind_sret: "snd (sbind m (\<lambda>_. sret a) s) = snd (m s)"
  by (cases "m s") (auto simp: sbind_app sret_def split: sum.split)

locale call_footprint =
  fixes cp :: "'m call_plane" and actor :: call_actor and calls :: "string set" and P :: "'m call_state \<Rightarrow> bool"
  assumes kept_media: "P s \<Longrightarrow> P (s\<lparr>cl_media := m\<rparr>)"
    and kept_draws: "P s \<Longrightarrow> P (s\<lparr>cl_draws := n\<rparr>)"
    and kept_seq: "P s \<Longrightarrow> P (s\<lparr>cl_seq := n\<rparr>)"
    and kept_upsert: "P s \<Longrightarrow> P (s\<lparr>cl_store := snd (upsert_object_with_policy (cp_facade cp) (ca_tenant_id actor)
        (actor_app_id actor) ty i v None None (cl_store s))\<rparr>)"
    and kept_append: "c \<in> calls \<Longrightarrow> P s \<Longrightarrow> P (s\<lparr>cl_store := snd (append_event (cp_facade cp) (ca_tenant_id actor)
        CALL_EVENT_STREAM c ''call-control-plane'' request event payload (actor_app_id actor) (cl_store s))\<rparr>)"
begin

lemma keeps_media [prog_keeps]: "keeps P (on_media err f)" "keeps P (smodify (\<lambda>s. s\<lparr>cl_media := g s\<rparr>))"
  by (auto simp: keeps_def on_media_def smodify_def kept_media split: prod.split)

lemma keeps_counters [prog_keeps]:
  "keeps P (now_ms cp)" "keeps P (new_call_id cp)" "keeps P (\<lambda>s. (Inr (cl_seq s + 1), s\<lparr>cl_seq := cl_seq s + 1\<rparr>))"
  by (simp_all add: keeps_def now_ms_def new_call_id_def kept_draws kept_seq)

lemma keeps_store_read [prog_keeps]: "keeps P (on_store (sread f))"
  by (auto simp: keeps_def on_store_def sread_def)

lemma keeps_write [prog_keeps]:
  "keeps P (call_write_object cp actor (actor_app_id actor) ty i v)"
  "c \<in> calls \<Longrightarrow> keeps P (call_append_event cp actor (actor_app_id actor) c event fs)"
  unfolding call_write_object_def call_append_event_def
  by (intro prog_keeps; auto intro!: keepsI simp: on_store_def split_beta dest: kept_upsert kept_append)+

lemma keeps_read [prog_keeps]:
  "keeps P (call_read_object cp decode actor a ty i)" "keeps P (list_participants cp actor c)" "keeps P (now_iso cp)"
  unfolding call_read_object_def list_participants_def now_iso_def by (intro prog_keeps)+

lemma keeps_require [prog_keeps]:
  "keeps P (require_live_room cp actor a c)" "keeps P (require_invitee_or_creator cp room actor a)"
  "keeps P (active_participant_count cp actor c)" "keeps P (assert_participant_capacity cp actor c)"
  "keeps P (require_joined cp actor a c)" "keeps P (creator_self_invite cp c u)"
  unfolding require_live_room_def require_invitee_or_creator_def active_participant_count_def assert_participant_capacity_def
    require_joined_def creator_self_invite_def read_room_def read_invite_def read_participant_def Let_def
  by (intro prog_keeps)+

lemma keeps_sfu [prog_keeps]:
  "keeps P (sfu_connect_transport cp actor c token transport v)" "keeps P (sfu_produce cp actor c token transport k v)"
  "keeps P (sfu_consume cp actor c token transport p v)"
  unfolding sfu_connect_transport_def sfu_produce_def sfu_consume_def require_sfu_participant_def Let_def
  by (intro prog_keeps)+

lemma keeps_invites [prog_keeps]:
  "c \<in> calls \<Longrightarrow> keeps P (send_invites cp actor (actor_app_id actor) c created us)"
  by (induction us) (auto simp: Let_def write_invite_def intro!: prog_keeps)

lemma keeps_ops:
  assumes "c \<in> calls"
  shows "keeps P (accept_invite cp actor c)" "keeps P (decline_invite cp actor c)" "keeps P (join_call cp actor c)"
    "keeps P (set_media_state cp actor c patch)" "keeps P (finalize_end cp actor (actor_app_id actor) c u)"
  unfolding accept_invite_def decline_invite_def join_call_def set_media_state_def finalize_end_def accept_on_join_def
    activate_on_join_def read_room_def write_room_def write_participant_def write_invite_def Let_def
  by (auto intro!: prog_keeps assms split: option.split call_invite_state.split)

lemma keeps_leave:
  assumes "c \<in> calls"
  shows "keeps P (leave_call cp actor c)" "keeps P (end_call cp actor c)"
  unfolding leave_call_def end_call_def read_room_def write_participant_def Let_def
  by (intro prog_keeps keeps_ops assms)+

lemma create_keeps:
  assumes "cp_call_id cp (cl_draws s) \<in> calls" "P s"
  shows "P (snd (create_call cp actor input s))"
proof -
  have bind: "P (snd (sbind (new_call_id cp) f s))" if "keeps P (f (cp_call_id cp (cl_draws s)))" for f :: "string \<Rightarrow> ('m, create_call_result) call_prog"
    using keepsD [OF that kept_draws [OF assms(2)]] by (simp add: sbind_app new_call_id_def)
  have guard: "P (snd (sbind (sguard b e) f s))" if "P (snd (f () s))" for b e and f :: "unit \<Rightarrow> ('m, create_call_result) call_prog"
    using that assms(2) by (simp add: sbind_app sguard_def sret_def sfail_def)
  show ?thesis
    unfolding create_call_def Let_def write_room_def
    by (intro guard bind prog_keeps assms(1))
qed

lemma call_run_keeps:
  assumes "op_call_id cp q s \<in> calls" "P s"
  shows "P (snd (call_run cp actor q s))"
proof (cases q)
  case (OpCreate input)
  then show ?thesis using create_keeps [OF _ assms(2)] assms(1) by (simp add: op_call_id_def snd_sbind_sret)
qed (use assms in \<open>auto simp: op_call_id_def intro!: keepsD [of P _ s] prog_keeps keeps_ops keeps_leave\<close>)

end

section \<open>Streams\<close>

text \<open>The store a call operation leaves: the events of \<open>before\<close> and then only events of the calls in the
  actor's tenant and application; leases, queued signals and settings as they were.\<close>

definition call_events_only :: "call_actor \<Rightarrow> string set \<Rightarrow> store_state \<Rightarrow> store_state \<Rightarrow> bool" where
  "call_events_only actor calls before st \<longleftrightarrow>
     (\<exists>rows. ss_events (st_streams st) = ss_events (st_streams before) @ rows
        \<and> (\<forall>r \<in> set rows. er_app_id r = actor_app_id actor \<and> er_tenant_id r = ca_tenant_id actor
             \<and> er_stream_type r = CALL_EVENT_STREAM \<and> er_stream_id r \<in> calls))
     \<and> st_leases st = st_leases before \<and> st_outbox st = st_outbox before
     \<and> st_retention_settings st = st_retention_settings before"

lemma call_events_refl: "call_events_only actor calls st st"
  by (simp add: call_events_only_def)

lemma upsert_streams:
  "st_streams (snd (upsert_object_with_policy fa t app ty i v x w st)) = st_streams st"
  "st_leases (snd (upsert_object_with_policy fa t app ty i v x w st)) = st_leases st"
  "st_outbox (snd (upsert_object_with_policy fa t app ty i v x w st)) = st_outbox st"
  "st_retention_settings (snd (upsert_object_with_policy fa t app ty i v x w st)) = st_retention_settings st"
  by (simp_all add: upsert_object_with_policy_def reread_and_notify_def notify_write_listener_def on_objects_def draw_def
      sbind_app prog_app smodify_def sread_def sret_def split: sum.split prod.split)

lemma append_event_rows:
  obtains rows where "ss_events (st_streams (snd (append_event fa t stream i replica request event payload app st))) = ss_events (st_streams st) @ rows"
    "\<And>r. r \<in> set rows \<Longrightarrow> er_app_id r = app \<and> er_tenant_id r = t \<and> er_stream_type r = stream \<and> er_stream_id r = i"
    "st_leases (snd (append_event fa t stream i replica request event payload app st)) = st_leases st"
    "st_outbox (snd (append_event fa t stream i replica request event payload app st)) = st_outbox st"
    "st_retention_settings (snd (append_event fa t stream i replica request event payload app st)) = st_retention_settings st"
proof -
  let ?q = "\<lparr>aq_tenant_id = t, aq_stream = stream, aq_stream_id = i, aq_replica_id = replica, aq_request_id = request,
      aq_event = event, aq_payload = payload, aq_app_id = app, aq_event_id = fa_event_id fa (st_draws st), aq_now_ms = fa_clock fa (st_draws st)\<rparr>"
  obtain r st1 cache1 where a: "append_stream (fa_env fa) (fa_replay_window_ms fa) (fa_nonce fa (st_draws st)) ?q (st_streams st) (st_cache st)
      = (r, st1, cache1)" by (metis prod.collapse)
  let ?s = "snd (append_event fa t stream i replica request event payload app st)"
  have s: "st_streams ?s = st1 \<and> st_leases ?s = st_leases st \<and> st_outbox ?s = st_outbox st \<and> st_retention_settings ?s = st_retention_settings st"
    using a by (cases r) (auto simp: append_event_def sbind_app draw_def sret_def notify_write_listener_def smodify_def)
  from a show ?thesis
  proof (cases rule: append_stream_outcome)
    case (1 ev)
    from append_fresh_Inr [OF 1(2)] obtain packed where "ss_events st1 = ss_events (st_streams st) @ [fresh_row ?q packed (st_streams st)]"
      by (metis stream_state.select_convs(1))
    then show ?thesis using s by (intro that [of "[fresh_row ?q packed (st_streams st)]"]) auto
  next
    case 2
    then show ?thesis using s by (intro that [of "[]"]) auto
  qed
qed

interpretation call_streams: call_footprint cp actor calls "\<lambda>s. call_events_only actor calls before (cl_store s)"
  for cp :: "'m call_plane" and actor calls before
proof
  fix c request event payload and s :: "'m call_state"
  assume c: "c \<in> calls" and s: "call_events_only actor calls before (cl_store s)"
  obtain rows where "ss_events (st_streams (snd (append_event (cp_facade cp) (ca_tenant_id actor) CALL_EVENT_STREAM c
        ''call-control-plane'' request event payload (actor_app_id actor) (cl_store s)))) = ss_events (st_streams (cl_store s)) @ rows"
      "\<And>r. r \<in> set rows \<Longrightarrow> er_app_id r = actor_app_id actor \<and> er_tenant_id r = ca_tenant_id actor
        \<and> er_stream_type r = CALL_EVENT_STREAM \<and> er_stream_id r = c"
      "st_leases (snd (append_event (cp_facade cp) (ca_tenant_id actor) CALL_EVENT_STREAM c
        ''call-control-plane'' request event payload (actor_app_id actor) (cl_store s))) = st_leases (cl_store s)"
      "st_outbox (snd (append_event (cp_facade cp) (ca_tenant_id actor) CALL_EVENT_STREAM c
        ''call-control-plane'' request event payload (actor_app_id actor) (cl_store s))) = st_outbox (cl_store s)"
      "st_retention_settings (snd (append_event (cp_facade cp) (ca_tenant_id actor) CALL_EVENT_STREAM c
        ''call-control-plane'' request event payload (actor_app_id actor) (cl_store s))) = st_retention_settings (cl_store s)"
    by (rule append_event_rows) blast
  with c s show "call_events_only actor calls before (cl_store (s\<lparr>cl_store := snd (append_event (cp_facade cp) (ca_tenant_id actor)
      CALL_EVENT_STREAM c ''call-control-plane'' request event payload (actor_app_id actor) (cl_store s))\<rparr>))"
    unfolding call_events_only_def by fastforce
qed (auto simp: call_events_only_def upsert_streams)

lemma call_run_streams:
  "call_events_only actor {op_call_id cp q s} (cl_store s) (cl_store (snd (call_run cp actor q s)))"
  by (rule call_streams.call_run_keeps) (simp_all add: call_events_refl)

end
