(* ===== verification/FrickCallSafety.thy ===== *)
theory FrickCallSafety
  imports FrickCallScope
begin

text \<open>
  What the control plane guarantees: capacity, the life of a room, the scope of an operation, who may
  join, what leaving does, ended calls, and the gate for call signals.
\<close>

lemma runs_send_invites:
  assumes "call_ready cp ss" "P v" "\<And>v i. P v \<Longrightarrow> inv_call_id i = c \<Longrightarrow> P (invite_write v actor i)" "\<And>r v'. P v' \<Longrightarrow> Q r v'"
  shows "runs cp ss (send_invites cp actor (actor_app_id actor) c created invitees) v Q"
  using assms(2,4)
proof (induction invitees arbitrary: v Q)
  case Nil
  then show ?case by (auto intro: runs_intro)
next
  case (Cons u us)
  have w: "P (invite_write v actor \<lparr>inv_id = invite_id c u, inv_call_id = c, inv_invitee_user_id = u,
      inv_status = InviteRinging, inv_invited_by = ca_user_id actor, inv_invited_at = created, inv_responded_at = None\<rparr>)"
    using Cons.prems(1) assms(3) by simp
  show ?case
    unfolding send_invites.simps Let_def
    by (auto intro!: runs_intro Cons.IH assms(1) Cons.prems w split: sum.split)
qed

section \<open>Capacity\<close>

definition within_capacity :: "nat \<Rightarrow> call_view \<Rightarrow> bool" where
  "within_capacity n v \<longleftrightarrow> (\<forall>app t c. finite (joined_users v app t c) \<and> card (joined_users v app t c) \<le> n)"

lemma call_type_names: "CALL_ROOM_TYPE \<noteq> CALL_PARTICIPANT_TYPE" "CALL_INVITE_TYPE \<noteq> CALL_PARTICIPANT_TYPE"
  "CALL_ROOM_TYPE \<noteq> CALL_INVITE_TYPE"
  by (simp_all add: call_names)

lemma joined_users_other [simp]:
  "joined_users (room_write v actor r) = joined_users v" "joined_users (invite_write v actor i) = joined_users v"
  "joined_users (v\<lparr>vw_draws := n\<rparr>) = joined_users v" "joined_users (v\<lparr>vw_sessions := f\<rparr>) = joined_users v"
  using call_type_names by (auto simp: fun_eq_iff joined_users_def room_write_def invite_write_def)

lemma within_capacity_other [simp]:
  "within_capacity n (room_write v actor r) = within_capacity n v" "within_capacity n (invite_write v actor i) = within_capacity n v"
  "within_capacity n (v\<lparr>vw_draws := k\<rparr>) = within_capacity n v" "within_capacity n (v\<lparr>vw_sessions := f\<rparr>) = within_capacity n v"
  by (simp_all add: within_capacity_def)

lemma joined_users_write:
  "joined_users (participant_write v actor p) app t c \<subseteq>
    (if app = actor_app_id actor \<and> t = ca_tenant_id actor \<and> cpt_call_id p = c \<and> cpt_state p = Joined
     then insert (cpt_user_id p) (joined_users v app t c) else joined_users v app t c)"
  by (auto simp: joined_users_def participant_write_def split: if_splits)

lemma within_capacity_write:
  assumes "within_capacity n v"
    and "cpt_state p = Joined \<Longrightarrow> cpt_user_id p \<in> joined_users v (actor_app_id actor) (ca_tenant_id actor) (cpt_call_id p)
      \<or> card (insert (cpt_user_id p) (joined_users v (actor_app_id actor) (ca_tenant_id actor) (cpt_call_id p))) \<le> n"
  shows "within_capacity n (participant_write v actor p)"
  unfolding within_capacity_def
proof (intro allI)
  fix app t c
  let ?old = "joined_users v app t c" and ?new = "joined_users (participant_write v actor p) app t c"
  have old: "finite ?old" "card ?old \<le> n" using assms(1) by (simp_all add: within_capacity_def)
  have "\<exists>b. ?new \<subseteq> b \<and> finite b \<and> card b \<le> n"
  proof (cases "app = actor_app_id actor \<and> t = ca_tenant_id actor \<and> cpt_call_id p = c \<and> cpt_state p = Joined")
    case True
    then have "?new \<subseteq> insert (cpt_user_id p) ?old" using joined_users_write [of v actor p app t c] by simp
    moreover have "card (insert (cpt_user_id p) ?old) \<le> n" using assms(2) True old(2) by (auto simp: insert_absorb)
    ultimately show ?thesis using old(1) by blast
  next
    case False
    then have "?new \<subseteq> ?old" using joined_users_write [of v actor p app t c] by (auto split: if_splits)
    then show ?thesis using old by blast
  qed
  then show "finite ?new \<and> card ?new \<le> n" by (meson card_mono finite_subset le_trans)
qed

lemma joined_member:
  "participant_in v app t i = Some p \<Longrightarrow> cpt_state p = Joined \<Longrightarrow> cpt_user_id p \<in> joined_users v app t (cpt_call_id p)"
  by (auto simp: joined_users_def participant_in_def bind_eq_Some_conv)

lemma capacity_join:
  assumes "call_ready cp ss" "mc_max_participants (mp_describe (cp_media cp)) = Some n" "within_capacity n v"
  shows "runs cp ss (join_call cp actor c) v (\<lambda>_. within_capacity n)"
  unfolding join_call_def Let_def accept_on_join_def activate_on_join_def
  using assms by (auto intro!: runs_intro within_capacity_write simp: joining_participant_def)

lemma capacity_run:
  assumes "call_ready cp ss" "mc_max_participants (mp_describe (cp_media cp)) = Some n" "within_capacity n v"
  shows "runs cp ss (call_run cp actor q) v (\<lambda>_. within_capacity n)"
proof (cases q)
  case (OpCreate input)
  show ?thesis unfolding OpCreate call_run.simps create_call_def Let_def
    using assms by (auto intro!: runs_intro runs_send_invites [where P = "within_capacity n"] split: sum.split)
next
  case (OpAccept c)
  show ?thesis unfolding OpAccept call_run.simps accept_invite_def Let_def creator_self_invite_def
    using assms by (auto intro!: runs_intro)
next
  case (OpDecline c)
  show ?thesis unfolding OpDecline call_run.simps decline_invite_def Let_def
    using assms by (auto intro!: runs_intro)
next
  case (OpJoin c)
  show ?thesis unfolding OpJoin call_run.simps
    by (rule runs_sbind, rule runs_mono [OF capacity_join [OF assms]]) (auto intro: runs_intro split: sum.split)
next
  case (OpSetMedia c patch)
  show ?thesis unfolding OpSetMedia call_run.simps set_media_state_def Let_def
    using assms by (auto intro!: runs_intro within_capacity_write) (use joined_member in blast)+
next
  case (OpConnect c token transport d)
  show ?thesis unfolding OpConnect call_run.simps using assms by (intro runs_sfu_connect) auto
next
  case (OpProduce c token transport k d)
  show ?thesis unfolding OpProduce call_run.simps
    using assms by (intro runs_sbind runs_sfu_produce) (auto intro: runs_intro split: sum.split)
next
  case (OpConsume c token transport p d)
  show ?thesis unfolding OpConsume call_run.simps
    using assms by (intro runs_sbind runs_sfu_consume) (auto intro: runs_intro split: sum.split)
next
  case (OpLeave c)
  show ?thesis unfolding OpLeave call_run.simps leave_call_def Let_def finalize_end_def
    using assms by (auto intro!: runs_intro within_capacity_write)
next
  case (OpEnd c)
  show ?thesis unfolding OpEnd call_run.simps end_call_def Let_def finalize_end_def
    using assms by (auto intro!: runs_intro)
qed


section \<open>The life of a room\<close>

fun room_rank :: "call_room_state \<Rightarrow> nat" where
  "room_rank RoomRinging = 0" | "room_rank RoomActive = 1" | "room_rank RoomEnded = 2"

lemma room_rank_le [simp]: "room_rank x \<le> 2" "room_rank x \<le> Suc (Suc 0)"
  by (cases x; simp)+

text \<open>What may happen to a room: it moves forward, its identity stays, and an ended room stays as it is.\<close>

definition room_moves :: "call_room \<Rightarrow> call_room \<Rightarrow> bool" where
  "room_moves r r' \<longleftrightarrow> room_rank (cr_state r) \<le> room_rank (cr_state r')
     \<and> cr_id r' = cr_id r \<and> cr_conversation_id r' = cr_conversation_id r \<and> cr_created_by r' = cr_created_by r
     \<and> cr_kind r' = cr_kind r \<and> cr_created_at r' = cr_created_at r
     \<and> cr_media_session_id r' = cr_media_session_id r \<and> cr_transport r' = cr_transport r
     \<and> (cr_state r = RoomEnded \<longrightarrow> r' = r)"

lemma room_moves_refl [simp]: "room_moves r r"
  by (simp add: room_moves_def)

lemma room_moves_trans: "room_moves r r' \<Longrightarrow> room_moves r' r'' \<Longrightarrow> room_moves r r''"
  by (auto simp: room_moves_def)

definition rooms_move :: "call_view \<Rightarrow> call_view \<Rightarrow> bool" where
  "rooms_move v v' \<longleftrightarrow> (\<forall>app t c r. room_in v app t c = Some r \<longrightarrow> (\<exists>r'. room_in v' app t c = Some r' \<and> room_moves r r'))"

lemma rooms_move_refl [simp]: "rooms_move v v"
  by (auto simp: rooms_move_def)

lemma rooms_move_trans: "rooms_move v v' \<Longrightarrow> rooms_move v' v'' \<Longrightarrow> rooms_move v v''"
  unfolding rooms_move_def by (meson room_moves_trans)

lemma room_in_other [simp]:
  "room_in (participant_write v actor p) = room_in v" "room_in (invite_write v actor i) = room_in v"
  "room_in (v\<lparr>vw_draws := n\<rparr>) = room_in v" "room_in (v\<lparr>vw_sessions := f\<rparr>) = room_in v"
  using call_type_names by (auto simp: fun_eq_iff room_in_def participant_write_def invite_write_def)

lemma room_in_write:
  "room_in (room_write v actor r) app t c =
    (if app = actor_app_id actor \<and> t = ca_tenant_id actor \<and> c = cr_id r then Some r else room_in v app t c)"
  by (simp add: room_in_def room_write_def of_to_value)

lemma rooms_move_write:
  assumes "rooms_move v0 v"
    and "\<And>r0. room_in v0 (actor_app_id actor) (ca_tenant_id actor) (cr_id r) = Some r0 \<Longrightarrow> room_moves r0 r"
  shows "rooms_move v0 (room_write v actor r)"
  using assms by (auto simp: rooms_move_def room_in_write)

lemma rooms_move_other [simp]:
  "rooms_move v0 (participant_write v actor p) = rooms_move v0 v" "rooms_move v0 (invite_write v actor i) = rooms_move v0 v"
  "rooms_move v0 (v\<lparr>vw_draws := n\<rparr>) = rooms_move v0 v" "rooms_move v0 (v\<lparr>vw_sessions := f\<rparr>) = rooms_move v0 v"
  by (simp_all add: rooms_move_def)

lemma rooms_move_run:
  assumes "call_ready cp ss"
    and "\<And>app t. \<exists>input. q = OpCreate input \<Longrightarrow> room_in v app t (cp_call_id cp (vw_draws v)) = None"
  shows "runs cp ss (call_run cp actor q) v (\<lambda>_. rooms_move v)"
proof (cases q)
  case (OpCreate input)
  have "rooms_move v (room_write (v\<lparr>vw_draws := n, vw_sessions := f\<rparr>) actor r)" if "cr_id r = cp_call_id cp (vw_draws v)" for n f r
    using assms(2) that OpCreate by (intro rooms_move_write) simp_all
  then show ?thesis unfolding OpCreate call_run.simps create_call_def Let_def
    using assms(1) by (auto intro!: runs_intro runs_send_invites [where P = "rooms_move v"] split: sum.split)
next
  case (OpAccept c)
  show ?thesis unfolding OpAccept call_run.simps accept_invite_def Let_def creator_self_invite_def
    using assms(1) by (auto intro!: runs_intro)
next
  case (OpDecline c)
  show ?thesis unfolding OpDecline call_run.simps decline_invite_def Let_def
    using assms(1) by (auto intro!: runs_intro)
next
  case (OpJoin c)
  show ?thesis unfolding OpJoin call_run.simps join_call_def Let_def accept_on_join_def activate_on_join_def
    using assms(1) by (auto intro!: runs_intro rooms_move_write simp: room_moves_def)
next
  case (OpSetMedia c patch)
  show ?thesis unfolding OpSetMedia call_run.simps set_media_state_def Let_def
    using assms(1) by (auto intro!: runs_intro)
next
  case (OpConnect c token transport d)
  show ?thesis unfolding OpConnect call_run.simps using assms(1) by (intro runs_sfu_connect) auto
next
  case (OpProduce c token transport k d)
  show ?thesis unfolding OpProduce call_run.simps
    using assms(1) by (intro runs_sbind runs_sfu_produce) (auto intro: runs_intro split: sum.split)
next
  case (OpConsume c token transport p d)
  show ?thesis unfolding OpConsume call_run.simps
    using assms(1) by (intro runs_sbind runs_sfu_consume) (auto intro: runs_intro split: sum.split)
next
  case (OpLeave c)
  show ?thesis unfolding OpLeave call_run.simps leave_call_def Let_def finalize_end_def
    using assms(1) by (auto intro!: runs_intro rooms_move_write simp: room_moves_def)
next
  case (OpEnd c)
  show ?thesis unfolding OpEnd call_run.simps end_call_def Let_def finalize_end_def
    using assms(1) by (auto intro!: runs_intro rooms_move_write simp: room_moves_def)
qed

section \<open>Scope\<close>

text \<open>An operation only writes call records of its actor's application and tenant.\<close>

definition own_call_record :: "call_actor \<Rightarrow> object_scope \<Rightarrow> bool" where
  "own_call_record actor k \<longleftrightarrow> (case k of (app, t, ty, i) \<Rightarrow> app = actor_app_id actor \<and> t = ca_tenant_id actor
     \<and> ty \<in> {CALL_ROOM_TYPE, CALL_INVITE_TYPE, CALL_PARTICIPANT_TYPE})"

definition unchanged_elsewhere :: "call_actor \<Rightarrow> call_view \<Rightarrow> call_view \<Rightarrow> bool" where
  "unchanged_elsewhere actor v v' \<longleftrightarrow> (\<forall>k. \<not> own_call_record actor k \<longrightarrow> vw_objects v' k = vw_objects v k)"

lemma unchanged_elsewhere_simps [simp]:
  "unchanged_elsewhere actor v v"
  "unchanged_elsewhere actor v (room_write v' actor r) = unchanged_elsewhere actor v v'"
  "unchanged_elsewhere actor v (invite_write v' actor i) = unchanged_elsewhere actor v v'"
  "unchanged_elsewhere actor v (participant_write v' actor p) = unchanged_elsewhere actor v v'"
  "unchanged_elsewhere actor v (v'\<lparr>vw_draws := n\<rparr>) = unchanged_elsewhere actor v v'"
  "unchanged_elsewhere actor v (v'\<lparr>vw_sessions := f\<rparr>) = unchanged_elsewhere actor v v'"
  by (auto simp: unchanged_elsewhere_def own_call_record_def room_write_def invite_write_def participant_write_def)

lemma unchanged_elsewhere_run:
  assumes "call_ready cp ss"
  shows "runs cp ss (call_run cp actor q) v (\<lambda>_. unchanged_elsewhere actor v)"
proof (cases q)
  case (OpCreate input)
  then show ?thesis unfolding OpCreate call_run.simps create_call_def Let_def
    using assms by (auto intro!: runs_intro runs_send_invites [where P = "unchanged_elsewhere actor v"] split: sum.split)
next
  case (OpConnect c token transport d)
  show ?thesis unfolding OpConnect call_run.simps using assms by (intro runs_sfu_connect) auto
next
  case (OpProduce c token transport k d)
  show ?thesis unfolding OpProduce call_run.simps
    using assms by (intro runs_sbind runs_sfu_produce) (auto intro: runs_intro split: sum.split)
next
  case (OpConsume c token transport p d)
  show ?thesis unfolding OpConsume call_run.simps
    using assms by (intro runs_sbind runs_sfu_consume) (auto intro: runs_intro split: sum.split)
qed (use assms in \<open>auto intro!: runs_intro simp: accept_invite_def creator_self_invite_def decline_invite_def join_call_def
      accept_on_join_def activate_on_join_def set_media_state_def leave_call_def end_call_def finalize_end_def Let_def\<close>)

text \<open>Only the media session of the operation's own call changes.\<close>

definition sessions_elsewhere :: "string \<Rightarrow> call_view \<Rightarrow> call_view \<Rightarrow> bool" where
  "sessions_elsewhere c v v' \<longleftrightarrow> (\<forall>c'. c' \<noteq> c \<longrightarrow> vw_sessions v' c' = vw_sessions v c')"

lemma sessions_elsewhere_simps [simp]:
  "sessions_elsewhere c v v"
  "sessions_elsewhere c v (room_write v' actor r) = sessions_elsewhere c v v'"
  "sessions_elsewhere c v (invite_write v' actor i) = sessions_elsewhere c v v'"
  "sessions_elsewhere c v (participant_write v' actor p) = sessions_elsewhere c v v'"
  "sessions_elsewhere c v (v'\<lparr>vw_draws := n\<rparr>) = sessions_elsewhere c v v'"
  by (simp_all add: sessions_elsewhere_def room_write_def invite_write_def participant_write_def)

lemma sessions_elsewhere_upd [simp]:
  "sessions_elsewhere c v (v'\<lparr>vw_sessions := (vw_sessions v)(c := x)\<rparr>)"
  "sessions_elsewhere c v (v'\<lparr>vw_draws := n, vw_sessions := (vw_sessions v)(c := x)\<rparr>)"
  by (auto simp: sessions_elsewhere_def)

lemma sessions_elsewhere_run:
  assumes "call_ready cp ss" "c = (case op_call q of Some c \<Rightarrow> c | None \<Rightarrow> cp_call_id cp (vw_draws v))"
  shows "runs cp ss (call_run cp actor q) v (\<lambda>_. sessions_elsewhere c v)"
proof (cases q)
  case (OpCreate input)
  have c: "c = cp_call_id cp (vw_draws v)" using assms(2) OpCreate by simp
  show ?thesis unfolding OpCreate call_run.simps create_call_def Let_def c
    using assms(1) by (auto intro!: runs_intro runs_send_invites [where P = "sessions_elsewhere (cp_call_id cp (vw_draws v)) v"] split: sum.split)
next
  case (OpConnect c token transport d)
  show ?thesis unfolding OpConnect call_run.simps using assms by (intro runs_sfu_connect) auto
next
  case (OpProduce c token transport k d)
  show ?thesis unfolding OpProduce call_run.simps
    using assms by (intro runs_sbind runs_sfu_produce) (auto intro: runs_intro split: sum.split)
next
  case (OpConsume c token transport p d)
  show ?thesis unfolding OpConsume call_run.simps
    using assms by (intro runs_sbind runs_sfu_consume) (auto intro: runs_intro split: sum.split)
qed (use assms in \<open>auto intro!: runs_intro simp: accept_invite_def creator_self_invite_def decline_invite_def join_call_def
      accept_on_join_def activate_on_join_def set_media_state_def leave_call_def end_call_def finalize_end_def Let_def\<close>)

section \<open>Joining and leaving\<close>

lemma in_write [simp]:
  "participant_in (participant_write v actor p) app t i =
    (if app = actor_app_id actor \<and> t = ca_tenant_id actor \<and> i = cpt_id p then Some p else participant_in v app t i)"
  "participant_in (room_write v actor r) = participant_in v" "participant_in (invite_write v actor n) = participant_in v"
  "participant_in (v\<lparr>vw_draws := k\<rparr>) = participant_in v" "participant_in (v\<lparr>vw_sessions := f\<rparr>) = participant_in v"
  "invite_in (invite_write v actor n) app t i =
    (if app = actor_app_id actor \<and> t = ca_tenant_id actor \<and> i = inv_id n then Some n else invite_in v app t i)"
  "invite_in (room_write v actor r) = invite_in v" "invite_in (participant_write v actor p) = invite_in v"
  "invite_in (v\<lparr>vw_draws := k\<rparr>) = invite_in v" "invite_in (v\<lparr>vw_sessions := f\<rparr>) = invite_in v"
  using call_type_names
  by (auto simp: fun_eq_iff participant_in_def invite_in_def participant_write_def invite_write_def room_write_def of_to_value)

definition may_join :: "call_view \<Rightarrow> call_actor \<Rightarrow> string \<Rightarrow> bool" where
  "may_join v actor c \<longleftrightarrow> (\<exists>room. room_in v (actor_app_id actor) (ca_tenant_id actor) c = Some room
     \<and> cr_state room \<noteq> RoomEnded
     \<and> (cr_created_by room = ca_user_id actor
        \<or> (\<exists>i. invite_in v (actor_app_id actor) (ca_tenant_id actor) (invite_id c (ca_user_id actor)) = Some i
             \<and> inv_status i \<in> {InviteRinging, InviteAccepted})))"

definition has_joined :: "call_view \<Rightarrow> call_actor \<Rightarrow> string \<Rightarrow> join_call_result \<Rightarrow> bool" where
  "has_joined v actor c res \<longleftrightarrow>
     (let app = actor_app_id actor; t = ca_tenant_id actor; u = ca_user_id actor; d = ca_device_id actor;
          p = jc_participant res; r = jc_room res; g = jc_media_grant res
      in participant_in v app t (participant_id c u d) = Some p
       \<and> cpt_call_id p = c \<and> cpt_user_id p = u \<and> cpt_device_id p = d \<and> cpt_state p = Joined
       \<and> room_in v app t c = Some r \<and> cr_state r = RoomActive
       \<and> (cr_created_by r = u \<or> (\<exists>i. invite_in v app t (invite_id c u) = Some i \<and> inv_status i = InviteAccepted))
       \<and> mg_call_id g = c \<and> mg_user_id g = u \<and> mg_device_id g = d
       \<and> (\<exists>x. vw_sessions v c = Some x \<and> mg_media_session_id g = ms_media_session_id x))"

lemma live_state: "x \<noteq> RoomEnded \<Longrightarrow> x \<noteq> RoomRinging \<Longrightarrow> x = RoomActive"
  by (cases x) auto

lemma unresolved: "x \<noteq> InviteDeclined \<Longrightarrow> x \<noteq> InviteCancelled \<Longrightarrow> x \<noteq> InviteAccepted \<Longrightarrow> x = InviteRinging"
  by (cases x) auto

lemma join_spec:
  assumes "call_ready cp ss"
  shows "runs cp ss (join_call cp actor c) v (\<lambda>r v'. case r of Inl e \<Rightarrow> True | Inr res \<Rightarrow> may_join v actor c \<and> has_joined v' actor c res)"
  unfolding join_call_def Let_def accept_on_join_def activate_on_join_def
  using assms
  by (auto intro!: runs_intro simp: may_join_def has_joined_def Let_def joining_participant_def media_participant_of_def
      room_in_write live_state unresolved)

definition has_left :: "call_view \<Rightarrow> call_actor \<Rightarrow> string \<Rightarrow> call_room \<Rightarrow> call_room \<Rightarrow> call_view \<Rightarrow> bool" where
  "has_left v actor c room res v' \<longleftrightarrow>
     (let app = actor_app_id actor; t = ca_tenant_id actor; i = participant_id c (ca_user_id actor) (ca_device_id actor)
      in (\<exists>p p'. participant_in v app t i = Some p \<and> cpt_state p = Joined \<and> cpt_state p' = Left
            \<and> participant_in v' app t = (participant_in v app t)(i \<mapsto> p'))
       \<and> room_in v' app t c = Some res
       \<and> (if cr_state room = RoomActive \<and> joined_users v' app t c = {}
          then cr_state res = RoomEnded \<and> vw_sessions v' = (vw_sessions v)(c := None)
          else res = room \<and> vw_sessions v' = vw_sessions v))"

lemma leave_spec:
  assumes "call_ready cp ss"
  shows "runs cp ss (leave_call cp actor c) v (\<lambda>r v'. case r of Inl e \<Rightarrow> True | Inr res \<Rightarrow>
    (\<forall>room. room_in v (actor_app_id actor) (ca_tenant_id actor) c = Some room \<longrightarrow>
      (if cr_state room = RoomEnded then res = room \<and> v' = v else has_left v actor c room res v')))"
  unfolding leave_call_def Let_def finalize_end_def
  using assms
  by (auto intro!: runs_intro simp: Let_def room_in_write has_left_def fun_eq_iff)

section \<open>Sequences of operations\<close>

text \<open>Operations of any actors, one after the other.  In \<open>call_step\<close> a new call gets an id no room has.\<close>

definition call_runs :: "'m call_plane \<Rightarrow> (call_actor \<times> call_op) list \<Rightarrow> 'm call_state \<Rightarrow> 'm call_state" where
  "call_runs cp qs s = fold (\<lambda>(actor, q) s. snd (call_run cp actor q s)) qs s"

definition fresh_call_id :: "'m call_plane \<Rightarrow> 'm call_state \<Rightarrow> bool" where
  "fresh_call_id cp s \<longleftrightarrow> (\<forall>r \<in> set (st_objects (cl_store s)). or_object_type r = CALL_ROOM_TYPE \<longrightarrow>
     or_object_id r \<noteq> cp_call_id cp (cl_draws s))"

inductive call_step :: "'m call_plane \<Rightarrow> 'm call_state \<Rightarrow> 'm call_state \<Rightarrow> bool" for cp where
  create: "fresh_call_id cp s \<Longrightarrow> call_step cp s (snd (call_run cp actor (OpCreate input) s))"
| other: "(\<And>input. q \<noteq> OpCreate input) \<Longrightarrow> call_step cp s (snd (call_run cp actor q s))"

lemma runs_end:
  assumes "runs cp ss m (call_view_of cp ss s) Q" "call_inv cp s"
  shows "call_inv cp (snd (m s))" "Q (fst (m s)) (call_view_of cp ss (snd (m s)))"
  using runsD [OF assms surjective_pairing] by auto

lemma fresh_room:
  assumes "fresh_call_id cp s"
  shows "room_in (call_view_of cp ss s) app t (cp_call_id cp (vw_draws (call_view_of cp ss s))) = None"
proof -
  have "select_object app t CALL_ROOM_TYPE (cp_call_id cp (cl_draws s)) (st_objects (cl_store s)) = None"
    using assms select_object_in [of app t CALL_ROOM_TYPE "cp_call_id cp (cl_draws s)"] unfolding fresh_call_id_def
    by (metis not_None_eq)
  then show ?thesis by (simp add: room_in_def call_view_of_def object_at_def)
qed

lemma call_step_move:
  assumes "call_step cp s s'" "call_ready cp ss" "call_inv cp s"
  shows "call_inv cp s'" "rooms_move (call_view_of cp ss s) (call_view_of cp ss s')"
proof -
  have "call_inv cp s' \<and> rooms_move (call_view_of cp ss s) (call_view_of cp ss s')"
    using assms(1)
  proof cases
    case (create actor input)
    show ?thesis unfolding create(1)
      using runs_end [OF rooms_move_run [OF assms(2)] assms(3)] fresh_room [OF create(2)] by blast
  next
    case (other q actor)
    show ?thesis unfolding other(1)
      using runs_end [OF rooms_move_run [OF assms(2)] assms(3)] other(2) by blast
  qed
  then show "call_inv cp s'" "rooms_move (call_view_of cp ss s) (call_view_of cp ss s')" by blast+
qed

lemma call_steps_move:
  assumes "(call_step cp)\<^sup>*\<^sup>* s s'" "call_ready cp ss" "call_inv cp s"
  shows "call_inv cp s' \<and> rooms_move (call_view_of cp ss s) (call_view_of cp ss s')"
  using assms(1)
proof induction
  case base
  show ?case using assms(3) by simp
next
  case (step y z)
  then show ?case using call_step_move [OF step(2) assms(2)] rooms_move_trans by blast
qed

lemma call_runs_capacity:
  assumes "call_ready cp ss" "mc_max_participants (mp_describe (cp_media cp)) = Some n"
  shows "call_inv cp s \<Longrightarrow> within_capacity n (call_view_of cp ss s)
    \<Longrightarrow> call_inv cp (call_runs cp qs s) \<and> within_capacity n (call_view_of cp ss (call_runs cp qs s))"
proof (induction qs arbitrary: s)
  case Nil
  then show ?case by (simp add: call_runs_def)
next
  case (Cons p qs)
  obtain actor q where p: "p = (actor, q)" by (cases p)
  have "call_runs cp (p # qs) s = call_runs cp qs (snd (call_run cp actor q s))" by (simp add: call_runs_def p)
  then show ?case
    using Cons.IH runs_end [OF capacity_run [OF assms Cons.prems(2)] Cons.prems(1)] by metis
qed

section \<open>Ended calls\<close>

definition ended_in :: "call_view \<Rightarrow> call_actor \<Rightarrow> string \<Rightarrow> bool" where
  "ended_in v actor c \<longleftrightarrow> (\<exists>r. room_in v (actor_app_id actor) (ca_tenant_id actor) c = Some r \<and> cr_state r = RoomEnded)"

definition call_ended_error :: "string \<Rightarrow> call_error" where
  "call_ended_error c = CallState CallEnded (''Call '' @ c @ '' has already ended'')"

lemma runs_require_live_room_ended:
  assumes "ended_in v actor c" "Q (Inl (call_ended_error c)) v"
  shows "runs cp ss (require_live_room cp actor (actor_app_id actor) c) v Q"
  unfolding require_live_room_def using assms
  by (auto intro!: runs_intro simp: ended_in_def call_ended_error_def)


definition needs_live_call :: "'m call_plane \<Rightarrow> call_op \<Rightarrow> bool" where
  "needs_live_call cp q \<longleftrightarrow> (case q of OpAccept _ \<Rightarrow> True | OpDecline _ \<Rightarrow> True | OpJoin _ \<Rightarrow> True | OpSetMedia _ _ \<Rightarrow> True
     | OpConnect _ _ _ _ \<Rightarrow> cp_sfu_media cp \<noteq> None | OpProduce _ _ _ _ _ \<Rightarrow> cp_sfu_media cp \<noteq> None
     | OpConsume _ _ _ _ _ \<Rightarrow> cp_sfu_media cp \<noteq> None | _ \<Rightarrow> False)"

lemma ended_run:
  assumes "ended_in v actor c" "op_call q = Some c"
  shows "runs cp ss (call_run cp actor q) v (\<lambda>r v'. v' = v \<and> (needs_live_call cp q \<longrightarrow> r = Inl (call_ended_error c)))"
proof -
  obtain r where r: "room_in v (actor_app_id actor) (ca_tenant_id actor) c = Some r" "cr_state r = RoomEnded"
    using assms(1) by (auto simp: ended_in_def)
  show ?thesis
    using assms(2) r
    by (cases q)
      (auto intro!: runs_intro runs_require_live_room_ended assms(1)
        simp: accept_invite_def decline_invite_def join_call_def set_media_state_def sfu_connect_transport_def
          sfu_produce_def sfu_consume_def require_sfu_participant_def leave_call_def end_call_def Let_def needs_live_call_def)
qed

section \<open>Properties\<close>

text \<open>C28: a call never has more distinct joined users than the media plane admits, whatever the actors do.\<close>

theorem call_capacity:
  assumes "call_ready cp ss" "call_inv cp s" "mc_max_participants (mp_describe (cp_media cp)) = Some n"
    and "\<And>app t c. finite (joined_users (call_view_of cp ss s) app t c) \<and> card (joined_users (call_view_of cp ss s) app t c) \<le> n"
  shows "finite (joined_users (call_view_of cp ss (call_runs cp qs s)) app t c)
    \<and> card (joined_users (call_view_of cp ss (call_runs cp qs s)) app t c) \<le> n"
  using call_runs_capacity [OF assms(1,3,2), of qs] assms(4) by (simp add: within_capacity_def)

text \<open>C29: whatever the operations do, a room stays in its tenant with its identity, moves only from ringing to
  active to ended, and never changes again once it has ended.\<close>

theorem call_rooms_move_forward:
  assumes "call_ready cp ss" "call_inv cp s" "(call_step cp)\<^sup>*\<^sup>* s s'" "room_in (call_view_of cp ss s) app t c = Some r"
  shows "\<exists>r'. room_in (call_view_of cp ss s') app t c = Some r' \<and> room_rank (cr_state r) \<le> room_rank (cr_state r')
    \<and> cr_id r' = cr_id r \<and> cr_created_by r' = cr_created_by r \<and> cr_conversation_id r' = cr_conversation_id r
    \<and> cr_media_session_id r' = cr_media_session_id r \<and> (cr_state r = RoomEnded \<longrightarrow> r' = r)"
  using call_steps_move [OF assms(3,1,2)] assms(4) unfolding rooms_move_def room_moves_def by blast

text \<open>C31: an operation on an ended call changes neither objects nor media sessions; answering, joining and
  media operations fail with the ended error.\<close>

theorem ended_call_frozen:
  assumes "call_inv cp s" "room_in (call_view_of cp ss s) (actor_app_id actor) (ca_tenant_id actor) c = Some r"
    and "cr_state r = RoomEnded" "op_call q = Some c" "call_run cp actor q s = (res, s')"
  shows "call_view_of cp ss s' = call_view_of cp ss s
    \<and> (needs_live_call cp q \<longrightarrow> res = Inl (CallState CallEnded (''Call '' @ c @ '' has already ended'')))"
proof -
  have "ended_in (call_view_of cp ss s) actor c" using assms(2,3) by (simp add: ended_in_def)
  from runsD(2) [OF ended_run [OF this assms(4)] assms(1,5)] show ?thesis by (simp add: call_ended_error_def)
qed

text \<open>C32: an operation stays within its actor's application and tenant and within its own call (a new
  call has the next id).  It changes no objects but rooms, invites and participants of that
  application and tenant; it removes and rewrites no stream event, and the events it adds are call
  events of that application, tenant and call; it touches no media session but that of the call, and
  neither presence leases nor queued signals nor retention settings.\<close>

theorem call_operations_isolated:
  assumes "call_ready cp ss" "call_inv cp s" "call_run cp actor q s = (res, s')"
  shows "(\<forall>app t ty i. \<not> (app = actor_app_id actor \<and> t = ca_tenant_id actor
           \<and> ty \<in> {CALL_ROOM_TYPE, CALL_INVITE_TYPE, CALL_PARTICIPANT_TYPE}) \<longrightarrow>
         object_at (fa_env (cp_facade cp)) (st_objects (cl_store s')) (app, t, ty, i)
         = object_at (fa_env (cp_facade cp)) (st_objects (cl_store s)) (app, t, ty, i))
    \<and> (\<exists>rows. ss_events (st_streams (cl_store s')) = ss_events (st_streams (cl_store s)) @ rows
         \<and> (\<forall>r \<in> set rows. er_app_id r = actor_app_id actor \<and> er_tenant_id r = ca_tenant_id actor
              \<and> er_stream_type r = CALL_EVENT_STREAM \<and> er_stream_id r = op_call_id cp q s))
    \<and> (\<forall>c. c \<noteq> op_call_id cp q s \<longrightarrow> ss (cl_media s') c = ss (cl_media s) c)
    \<and> st_leases (cl_store s') = st_leases (cl_store s) \<and> st_outbox (cl_store s') = st_outbox (cl_store s)
    \<and> st_retention_settings (cl_store s') = st_retention_settings (cl_store s)"
proof -
  have "unchanged_elsewhere actor (call_view_of cp ss s) (call_view_of cp ss s')"
    using runsD(2) [OF unchanged_elsewhere_run [OF assms(1)] assms(2,3)] .
  then have "\<forall>app t ty i. \<not> own_call_record actor (app, t, ty, i) \<longrightarrow>
      object_at (fa_env (cp_facade cp)) (st_objects (cl_store s')) (app, t, ty, i)
      = object_at (fa_env (cp_facade cp)) (st_objects (cl_store s)) (app, t, ty, i)"
    unfolding unchanged_elsewhere_def by (simp add: call_view_of_def)
  moreover have "sessions_elsewhere (op_call_id cp q s) (call_view_of cp ss s) (call_view_of cp ss s')"
    by (rule runsD(2) [OF sessions_elsewhere_run [OF assms(1)] assms(2,3)]) (simp add: op_call_id_def call_view_of_def split: option.split)
  moreover have "call_events_only actor {op_call_id cp q s} (cl_store s) (cl_store s')"
    using call_run_streams [of actor cp q s] assms(3) by simp
  ultimately show ?thesis
    by (simp add: own_call_record_def sessions_elsewhere_def call_view_of_def call_events_only_def)
qed

text \<open>C30: a join succeeds only in a live call for its creator or for the holder of an invite that was not
  declined or cancelled; the participant is then stored as joined, the room is active, the invite is
  accepted, and the grant names the call, the actor and the session of the call.\<close>

theorem join_call_authorised:
  assumes "call_ready cp ss" "call_inv cp s" "join_call cp actor c s = (Inr res, s')"
  shows "may_join (call_view_of cp ss s) actor c \<and> has_joined (call_view_of cp ss s') actor c res"
  using runsD(2) [OF join_spec [OF assms(1)] assms(2,3)] by simp

text \<open>A successful leave of a live call marks exactly the actor's participant as left; when an active call
  has nobody left it ends and its media session is released, otherwise room and session stay.\<close>

theorem last_leave_ends_call:
  assumes "call_ready cp ss" "call_inv cp s" "leave_call cp actor c s = (Inr res, s')"
    and "room_in (call_view_of cp ss s) (actor_app_id actor) (ca_tenant_id actor) c = Some room" "cr_state room \<noteq> RoomEnded"
  shows "has_left (call_view_of cp ss s) actor c room res (call_view_of cp ss s')"
  using runsD(2) [OF leave_spec [OF assms(1)] assms(2,3)] assms(4,5) by simp

text \<open>C33: the signal gate admits exactly the creator, the holders of an invite that stands and the users with a
  participant record of a call that has not ended, whether that participant is still joined or has left.\<close>

theorem signal_gate_exact:
  assumes "call_inv cp s"
  shows "is_signal_member cp t app c u s \<longleftrightarrow>
    (\<exists>room. room_in (call_view_of cp ss s) app t c = Some room \<and> cr_state room \<noteq> RoomEnded
      \<and> (cr_created_by room = u
         \<or> (\<exists>i. invite_in (call_view_of cp ss s) app t (invite_id c u) = Some i \<and> inv_status i \<in> {InviteRinging, InviteAccepted})
         \<or> (\<exists>i p. participant_in (call_view_of cp ss s) app t i = Some p \<and> cpt_call_id p = c \<and> cpt_user_id p = u)))"
proof -
  let ?v = "call_view_of cp ss s"
  define actor where "actor = \<lparr>ca_tenant_id = t, ca_user_id = u, ca_device_id = '''', ca_app_id = Some app\<rparr>"
  have a: "actor_app_id actor = app" "ca_tenant_id actor = t" by (simp_all add: actor_def actor_app_id_def)
  have "runs cp ss (read_room cp actor app c) ?v (\<lambda>r v'. \<forall>x. r = Inr (Some x) \<longleftrightarrow> room_in ?v app t c = Some x)"
    by (auto intro!: runs_intro simp: a)
  from runs_end(2) [OF this assms]
  have r: "fst (read_room cp actor app c s) = Inr (Some x) \<longleftrightarrow> room_in ?v app t c = Some x" for x by simp
  have "runs cp ss (read_invite cp actor app c u) ?v (\<lambda>r v'. \<forall>x. r = Inr (Some x) \<longleftrightarrow> invite_in ?v app t (invite_id c u) = Some x)"
    by (auto intro!: runs_intro simp: a)
  from runs_end(2) [OF this assms]
  have i: "fst (read_invite cp actor app c u s) = Inr (Some x) \<longleftrightarrow> invite_in ?v app t (invite_id c u) = Some x" for x by simp
  have "runs cp ss (list_participants cp actor c) ?v
      (\<lambda>r v'. \<exists>ps. r = Inr ps \<and> set ps = {p. \<exists>i. participant_in ?v app t i = Some p \<and> cpt_call_id p = c})"
    by (rule runs_list_participants) (simp add: a participant_in_def bind_eq_Some_conv, blast)
  from runs_end(2) [OF this assms] obtain ps where ps: "fst (list_participants cp actor c s) = Inr ps"
    "set ps = {p. \<exists>i. participant_in ?v app t i = Some p \<and> cpt_call_id p = c}" by blast
  have status: "x \<notin> {InviteDeclined, InviteCancelled} \<longleftrightarrow> x \<in> {InviteRinging, InviteAccepted}" for x by (cases x) auto
  have inv: "(case fst (read_invite cp actor app c u s) of Inr (Some x) \<Rightarrow> inv_status x \<notin> {InviteDeclined, InviteCancelled} | _ \<Rightarrow> False)
      \<longleftrightarrow> (\<exists>x. invite_in ?v app t (invite_id c u) = Some x \<and> inv_status x \<in> {InviteRinging, InviteAccepted})"
    unfolding status i [symmetric] by (auto split: sum.split option.split)
  have "is_signal_member cp t app c u s \<longleftrightarrow> (case fst (read_room cp actor app c s) of
      Inr (Some room) \<Rightarrow> cr_state room \<noteq> RoomEnded \<and> (cr_created_by room = u
        \<or> (\<exists>x. invite_in ?v app t (invite_id c u) = Some x \<and> inv_status x \<in> {InviteRinging, InviteAccepted})
        \<or> (\<exists>i p. participant_in ?v app t i = Some p \<and> cpt_call_id p = c \<and> cpt_user_id p = u)) | _ \<Rightarrow> False)"
    unfolding is_signal_member_def Let_def actor_def [symmetric] inv ps
    using ps(2) by (auto simp: list_ex_iff split: sum.split option.split)
  then show ?thesis unfolding r [symmetric] by (auto split: sum.splits option.splits)
qed

section \<open>Evaluation\<close>

text \<open>Code equations with the state as an argument, so that a program is evaluated one call at a time.\<close>

lemma branch_app:
  "(case x of None \<Rightarrow> a | Some y \<Rightarrow> f y) s = (case x of None \<Rightarrow> a s | Some y \<Rightarrow> f y s)"
  "(if b then g else h) s = (if b then g s else h s)"
  by (simp_all split: option.split)

lemmas step_simps = Let_def sbind_app branch_app prog_app

lemmas reread_and_notify_code [code] = fun_cong [OF reread_and_notify_def, unfolded step_simps]
lemmas upsert_object_with_policy_code [code] = fun_cong [OF upsert_object_with_policy_def, unfolded step_simps]
lemmas append_event_code [code] = fun_cong [OF append_event_def, unfolded step_simps]
lemmas now_iso_code [code] = fun_cong [OF now_iso_def, unfolded step_simps]
lemmas call_read_object_code [code] = fun_cong [OF call_read_object_def, unfolded step_simps]
lemmas call_write_object_code [code] = fun_cong [OF call_write_object_def, unfolded step_simps]
lemmas call_append_event_code [code] = fun_cong [OF call_append_event_def, unfolded step_simps]
lemmas list_participants_code [code] = fun_cong [OF list_participants_def, unfolded step_simps]
lemmas require_live_room_code [code] = fun_cong [OF require_live_room_def, unfolded step_simps]
lemmas require_invitee_or_creator_code [code] = fun_cong [OF require_invitee_or_creator_def, unfolded step_simps]
lemmas active_participant_count_code [code] = fun_cong [OF active_participant_count_def, unfolded step_simps]
lemmas assert_participant_capacity_code [code] = fun_cong [OF assert_participant_capacity_def, unfolded step_simps]
lemmas creator_self_invite_code [code] = fun_cong [OF creator_self_invite_def, unfolded step_simps]
lemmas require_joined_code [code] = fun_cong [OF require_joined_def, unfolded step_simps]
lemmas create_call_code [code] = fun_cong [OF create_call_def, unfolded step_simps]
lemmas accept_on_join_code [code] = fun_cong [OF accept_on_join_def, unfolded step_simps]
lemmas activate_on_join_code [code] = fun_cong [OF activate_on_join_def, unfolded step_simps]
lemmas join_call_code [code] = fun_cong [OF join_call_def, unfolded step_simps]
lemmas finalize_end_code [code] = fun_cong [OF finalize_end_def, unfolded step_simps]
lemmas leave_call_code [code] = fun_cong [OF leave_call_def, unfolded step_simps]
lemmas send_invites_code [code] = send_invites.simps [THEN fun_cong, unfolded step_simps]

section \<open>A concrete call\<close>

text \<open>An encoder that knows a list of records and a list of events, by position.\<close>

fun index_in :: "'a \<Rightarrow> 'a list \<Rightarrow> nat option" where
  "index_in x [] = None"
| "index_in x (y # ys) = (if x = y then Some 0 else map_option Suc (index_in x ys))"

definition listed_encode :: "char \<Rightarrow> 'a list \<Rightarrow> 'a \<Rightarrow> (string, string) result" where
  "listed_encode c xs x = (case index_in x xs of Some n \<Rightarrow> Inr (c # replicate n CHR ''.'') | None \<Rightarrow> Inl ''unsupported'')"

definition listed_decode :: "'a list \<Rightarrow> string \<Rightarrow> (string, 'a) result" where
  "listed_decode xs b = (if 0 < length b \<and> length b \<le> length xs then Inr (xs ! (length b - 1)) else Inl ''invalid'')"

definition listed_wire :: "packed_record list \<Rightarrow> packed_stream_event list \<Rightarrow> wire" where
  "listed_wire rs es =
     \<lparr>wi_enc_record = listed_encode CHR ''r'' rs, wi_dec_record = listed_decode rs,
      wi_enc_event = listed_encode CHR ''e'' es, wi_dec_event = listed_decode es,
      wi_enc_value = (\<lambda>_. Inl ''unsupported''), wi_dec_value = (\<lambda>_. Inl ''invalid'')\<rparr>"

lemma index_in_nth: "index_in x xs = Some n \<Longrightarrow> n < length xs \<and> xs ! n = x"
  by (induction xs arbitrary: n) (auto split: if_splits)

lemma listed_inverse:
  assumes "listed_encode c xs x = Inr b"
  shows "listed_decode xs b = Inr x" "\<exists>rest. b = c # rest"
  using assms index_in_nth [of x xs] by (auto simp: listed_encode_def listed_decode_def split: option.splits)

lemma listed_wire_inverse: "wire_inverse (listed_wire rs es)"
  by (auto simp: wire_inverse_def listed_wire_def starts_with_def ENVELOPE_MAGIC_def dest: listed_inverse)

text \<open>User \<open>a\<close> calls user \<open>b\<close>, who joins and leaves, at a clock that stands still.\<close>

abbreviation (input) "stamp0 \<equiv> VString ''1970-01-01T00:00:00.000Z''"

definition sample_call_records :: "packed_record list" where
  "sample_call_records =
    [(1, ''c'', [(1, VString ''v''), (2, VString ''ringing''), (3, VString ''a''), (4, VString ''video''), (5, stamp0),
       (8, VString ''fake-room-c-1''), (9, VString ''p2p'')]),
     (2, ''c:b'', [(1, VString ''c''), (2, VString ''b''), (3, VString ''ringing''), (4, VString ''a''), (5, stamp0)]),
     (2, ''c:b'', [(1, VString ''c''), (2, VString ''b''), (3, VString ''accepted''), (4, VString ''a''), (5, stamp0), (6, stamp0)]),
     (3, ''c:b:d'', [(1, VString ''c''), (2, VString ''b''), (3, VString ''d''), (4, VString ''joined''), (5, stamp0),
       (7, VBoolean True), (8, VBoolean False), (9, VBoolean False)]),
     (1, ''c'', [(1, VString ''v''), (2, VString ''active''), (3, VString ''a''), (4, VString ''video''), (5, stamp0), (6, stamp0),
       (8, VString ''fake-room-c-1''), (9, VString ''p2p'')]),
     (3, ''c:b:d'', [(1, VString ''c''), (2, VString ''b''), (3, VString ''d''), (4, VString ''left''), (5, stamp0), (6, stamp0),
       (7, VBoolean True), (8, VBoolean False), (9, VBoolean False)]),
     (1, ''c'', [(1, VString ''v''), (2, VString ''ended''), (3, VString ''a''), (4, VString ''video''), (5, stamp0), (6, stamp0),
       (7, stamp0), (8, VString ''fake-room-c-1''), (9, VString ''p2p'')]),
     (1, ''c'', [(1, VString ''v''), (2, VString ''ended''), (3, VString ''a''), (4, VString ''video''), (5, stamp0), (7, stamp0),
       (8, VString ''fake-room-c-1''), (9, VString ''p2p'')])]"

definition sample_call_event :: "int \<Rightarrow> nat \<Rightarrow> int \<Rightarrow> packed_field list \<Rightarrow> packed_stream_event" where
  "sample_call_event sequence k event fs = \<lparr>pse_stream = 1, pse_key = ''c'', pse_sequence = sequence,
     pse_event_id = replicate k CHR ''e'', pse_event = event, pse_fields = fs\<rparr>"

definition sample_call_events :: "packed_stream_event list" where
  "sample_call_events =
    [sample_call_event 1 1 1 [(1, VString ''c''), (2, VString ''v''), (3, VString ''a''), (4, VString ''video''), (5, stamp0)],
     sample_call_event 2 3 2 [(1, VString ''c''), (2, VString ''b''), (3, VString ''a'')],
     sample_call_event 3 5 3 [(1, VString ''c''), (2, VString ''b'')],
     sample_call_event 4 8 4 [(1, VString ''c''), (2, VString ''b''), (3, VString ''d''), (4, stamp0)],
     sample_call_event 5 10 6 [(1, VString ''c''), (2, VString ''b''), (3, VString ''d''), (4, stamp0)],
     sample_call_event 6 12 7 [(1, VString ''c''), (2, VString ''b''), (3, stamp0)],
     sample_call_event 3 5 7 [(1, VString ''c''), (2, VString ''a''), (3, stamp0)],
     sample_call_event 4 7 3 [(1, VString ''c''), (2, VString ''b'')],
     sample_call_event 5 10 4 [(1, VString ''c''), (2, VString ''b''), (3, VString ''d''), (4, stamp0)]]"

definition sample_call_plane :: "fake_media_state call_plane" where
  "sample_call_plane =
     \<lparr>cp_facade = sample_facade\<lparr>
        fa_env := \<lparr>se_schema = build_call_schema, se_wire = listed_wire sample_call_records sample_call_events,
          se_crypto = plain_crypto, se_provider = None, se_unique_error = ''unique''\<rparr>,
        fa_event_id := (\<lambda>n. replicate n CHR ''e'')\<rparr>,
      cp_media = fake_media_plane \<lparr>fo_transport = P2p, fo_default_token_ttl_ms = 1000\<rparr>, cp_sfu_media = None,
      cp_clock = (\<lambda>_. 0), cp_call_id = (\<lambda>_. ''c''), cp_decode_error = (\<lambda>_. ''decode'')\<rparr>"

definition no_calls :: "fake_media_state call_state" where
  "no_calls = \<lparr>cl_store = empty_store, cl_media = fake_media_new, cl_seq = 0, cl_draws = 0\<rparr>"

definition sample_actor :: "string \<Rightarrow> call_actor" where
  "sample_actor u = \<lparr>ca_tenant_id = ''t'', ca_user_id = u, ca_device_id = ''d'', ca_app_id = None\<rparr>"

definition sample_call_input :: create_call_input where
  "sample_call_input = \<lparr>cc_conversation_id = ''v'', cc_invitee_user_ids = [''b''], cc_kind = None, cc_region_hint = None\<rparr>"

lemma sample_call_env: "env_ok (fa_env (cp_facade sample_call_plane))"
  by (simp add: sample_call_plane_def env_ok_def listed_wire_inverse)

lemma sample_call_ready: "call_ready sample_call_plane fm_sessions" "call_inv sample_call_plane no_calls"
proof -
  have "validate_schema ascii_lower build_call_schema = Inr ()" by code_simp
  then show "call_ready sample_call_plane fm_sessions"
    using sample_call_env fake_plane.media_plane_contract_axioms
    by (auto simp: call_ready_def facade_ready_def sample_call_plane_def sample_facade_def NONCE_LEN_def)
  show "call_inv sample_call_plane no_calls"
    by (simp add: call_inv_def no_calls_def empty_store_def store_inv_def objects_inv_def stream_inv_def
      empty_stream_state_def tbl_ok_def)
qed

abbreviation (input) "sample_view \<equiv> call_view_of sample_call_plane fm_sessions"

definition sample_room :: "fake_media_state call_state \<Rightarrow> call_room option" where
  "sample_room s = room_in (sample_view s) ''_default'' ''t'' ''c''"

lemma sample_app [simp]: "actor_app_id (sample_actor u) = ''_default''" "ca_tenant_id (sample_actor u) = ''t''" "ca_user_id (sample_actor u) = u"
  by (simp_all add: actor_app_id_def sample_actor_def FACADE_DEFAULT_APP_ID_def)

lemma sample_run:
  "case create_call sample_call_plane (sample_actor ''a'') sample_call_input no_calls of
     (Inr c, s1) \<Rightarrow> (case join_call sample_call_plane (sample_actor ''b'') ''c'' s1 of
        (Inr j, s2) \<Rightarrow> (case leave_call sample_call_plane (sample_actor ''b'') ''c'' s2 of
           (Inr l, s3) \<Rightarrow> sample_room s1 = Some (ccr_room c) \<and> cr_state (ccr_room c) = RoomRinging \<and> cr_created_by (ccr_room c) = ''a''
             \<and> sample_room s2 = Some (jc_room j) \<and> cr_state (jc_room j) = RoomActive
             \<and> sample_room s3 = Some l \<and> cr_state l = RoomEnded
         | _ \<Rightarrow> False)
      | _ \<Rightarrow> False)
   | _ \<Rightarrow> False"
  by code_simp

lemma run_case: "(case m of (Inl e, s) \<Rightarrow> False | (Inr a, s) \<Rightarrow> P a s) \<longleftrightarrow> (\<exists>a s. m = (Inr a, s) \<and> P a s)"
  by (auto split: prod.splits sum.splits)

lemma sample_states:
  obtains c s1 j s2 l s3 r1 r2 where "create_call sample_call_plane (sample_actor ''a'') sample_call_input no_calls = (Inr c, s1)"
    "join_call sample_call_plane (sample_actor ''b'') ''c'' s1 = (Inr j, s2)"
    "leave_call sample_call_plane (sample_actor ''b'') ''c'' s2 = (Inr l, s3)"
    "sample_room s1 = Some r1" "cr_state r1 = RoomRinging" "cr_created_by r1 = ''a''" "sample_room s2 = Some r2"
    "cr_state r2 = RoomActive" "sample_room s3 = Some l" "cr_state l = RoomEnded"
    "call_inv sample_call_plane s1" "call_inv sample_call_plane s2" "call_inv sample_call_plane s3"
proof -
  obtain c s1 j s2 l s3 where r: "create_call sample_call_plane (sample_actor ''a'') sample_call_input no_calls = (Inr c, s1)"
      "join_call sample_call_plane (sample_actor ''b'') ''c'' s1 = (Inr j, s2)"
      "leave_call sample_call_plane (sample_actor ''b'') ''c'' s2 = (Inr l, s3)"
      "sample_room s1 = Some (ccr_room c)" "cr_state (ccr_room c) = RoomRinging" "cr_created_by (ccr_room c) = ''a''"
      "sample_room s2 = Some (jc_room j)" "cr_state (jc_room j) = RoomActive" "sample_room s3 = Some l" "cr_state l = RoomEnded"
    using sample_run unfolding run_case by blast
  have 1: "call_inv sample_call_plane s1"
    by (rule runsD(1) [OF unchanged_elsewhere_run [OF sample_call_ready(1), of "sample_actor ''a''" "OpCreate sample_call_input"]
          sample_call_ready(2)])
      (simp add: sbind_app prog_app r(1))
  have 2: "call_inv sample_call_plane s2" by (rule runsD(1) [OF join_spec [OF sample_call_ready(1)] 1 r(2)])
  have 3: "call_inv sample_call_plane s3" by (rule runsD(1) [OF leave_spec [OF sample_call_ready(1)] 2 r(3)])
  show thesis by (rule that [OF r 1 2 3])
qed

theorem call_capacity_witness:
  "card (joined_users (sample_view (call_runs sample_call_plane
      [(sample_actor ''a'', OpCreate sample_call_input), (sample_actor ''b'', OpJoin ''c''), (sample_actor ''a'', OpJoin ''c'')] no_calls))
      ''_default'' ''t'' ''c'') \<le> 2"
proof -
  have m: "mc_max_participants (mp_describe (cp_media sample_call_plane)) = Some 2"
    by (simp add: sample_call_plane_def fake_media_plane_def fake_describe_def)
  have e: "joined_users (sample_view no_calls) app t c = {}" for app t c
    by (simp add: joined_users_def call_view_of_def no_calls_def empty_store_def object_at_def select_object_def)
  show ?thesis using call_capacity [OF sample_call_ready m] unfolding e by simp
qed

theorem call_rooms_move_forward_witness:
  "\<exists>s s' r r'. (call_step sample_call_plane)\<^sup>*\<^sup>* s s' \<and> sample_room s = Some r \<and> sample_room s' = Some r'
     \<and> cr_state r = RoomRinging \<and> cr_state r' = RoomActive \<and> cr_media_session_id r' = cr_media_session_id r"
proof -
  obtain s1 j s2 r1 r2 where r: "join_call sample_call_plane (sample_actor ''b'') ''c'' s1 = (Inr j, s2)"
    "sample_room s1 = Some r1" "cr_state r1 = RoomRinging" "sample_room s2 = Some r2"
    "cr_state r2 = RoomActive" "call_inv sample_call_plane s1" by (rule sample_states) (blast intro: that)
  have "snd (call_run sample_call_plane (sample_actor ''b'') (OpJoin ''c'') s1) = s2" using r(1) by (simp add: sbind_app prog_simps)
  with call_step.other [of "OpJoin ''c''"] have "call_step sample_call_plane s1 s2" by fastforce
  then have s: "(call_step sample_call_plane)\<^sup>*\<^sup>* s1 s2" by blast
  from call_rooms_move_forward [OF sample_call_ready(1) r(6) s r(2) [unfolded sample_room_def]] r(4)
  have "cr_media_session_id r2 = cr_media_session_id r1" by (simp add: sample_room_def)
  with s r show ?thesis by blast
qed

theorem ended_call_frozen_witness:
  "\<exists>s. call_inv sample_call_plane s \<and> (\<exists>r. sample_room s = Some r \<and> cr_state r = RoomEnded)
     \<and> fst (call_run sample_call_plane (sample_actor ''b'') (OpJoin ''c'') s)
        = Inl (CallState CallEnded (''Call '' @ ''c'' @ '' has already ended''))"
proof -
  obtain s3 l where r: "sample_room s3 = Some l" "cr_state l = RoomEnded" "call_inv sample_call_plane s3" by (rule sample_states) (blast intro: that)
  have "fst (call_run sample_call_plane (sample_actor ''b'') (OpJoin ''c'') s3)
      = Inl (CallState CallEnded (''Call '' @ ''c'' @ '' has already ended''))"
    using ended_call_frozen [where ss = fm_sessions and q = "OpJoin ''c''" and actor = "sample_actor ''b''", OF r(3) _ r(2) _ surjective_pairing] r(1)
    by (simp add: sample_room_def needs_live_call_def)
  with r show ?thesis by blast
qed

theorem call_operations_isolated_witness:
  "object_at (fa_env (cp_facade sample_call_plane))
     (st_objects (cl_store (snd (call_run sample_call_plane (sample_actor ''a'') (OpCreate sample_call_input) no_calls))))
     (''other'', ''t'', CALL_ROOM_TYPE, ''c'') = None
   \<and> fm_sessions (cl_media (snd (call_run sample_call_plane (sample_actor ''a'') (OpCreate sample_call_input) no_calls))) ''d''
     = fm_sessions (cl_media no_calls) ''d''"
proof -
  note i = call_operations_isolated [OF sample_call_ready surjective_pairing, where actor = "sample_actor ''a''"
      and q = "OpCreate sample_call_input"]
  have "op_call_id sample_call_plane (OpCreate sample_call_input) no_calls \<noteq> ''d''" "''other'' \<noteq> actor_app_id (sample_actor ''a'')"
    by (simp_all add: op_call_id_def sample_call_plane_def sample_actor_def actor_app_id_def FACADE_DEFAULT_APP_ID_def)
  moreover have "object_at (fa_env (cp_facade sample_call_plane)) (st_objects (cl_store no_calls)) (''other'', ''t'', CALL_ROOM_TYPE, ''c'') = None"
    by (simp add: no_calls_def empty_store_def object_at_def select_object_def)
  ultimately show ?thesis using i by metis
qed

theorem join_call_authorised_witness:
  "\<exists>s res s'. join_call sample_call_plane (sample_actor ''b'') ''c'' s = (Inr res, s')
     \<and> may_join (sample_view s) (sample_actor ''b'') ''c'' \<and> has_joined (sample_view s') (sample_actor ''b'') ''c'' res"
proof -
  obtain s1 j s2 where r: "join_call sample_call_plane (sample_actor ''b'') ''c'' s1 = (Inr j, s2)" "call_inv sample_call_plane s1"
    by (rule sample_states) (blast intro: that)
  with join_call_authorised [OF sample_call_ready(1) r(2,1)] show ?thesis by blast
qed

theorem last_leave_ends_call_witness:
  "\<exists>s room res s'. leave_call sample_call_plane (sample_actor ''b'') ''c'' s = (Inr res, s') \<and> cr_state room = RoomActive
     \<and> cr_state res = RoomEnded \<and> has_left (sample_view s) (sample_actor ''b'') ''c'' room res (sample_view s')"
proof -
  obtain r2 s2 l s3 where r: "leave_call sample_call_plane (sample_actor ''b'') ''c'' s2 = (Inr l, s3)"
    "sample_room s2 = Some r2" "cr_state r2 = RoomActive" "cr_state l = RoomEnded" "call_inv sample_call_plane s2"
    by (rule sample_states) (blast intro: that)
  then have "has_left (sample_view s2) (sample_actor ''b'') ''c'' r2 l (sample_view s3)"
    using last_leave_ends_call [OF sample_call_ready(1) r(5,1)] by (simp add: sample_room_def)
  with r show ?thesis by blast
qed

theorem signal_gate_exact_witness:
  "\<exists>s s'. call_inv sample_call_plane s \<and> is_signal_member sample_call_plane ''t'' ''_default'' ''c'' ''a'' s
     \<and> call_inv sample_call_plane s' \<and> \<not> is_signal_member sample_call_plane ''t'' ''_default'' ''c'' ''a'' s'"
proof -
  obtain s1 r1 s3 l where r: "sample_room s1 = Some r1" "cr_state r1 = RoomRinging" "cr_created_by r1 = ''a''"
    "sample_room s3 = Some l" "cr_state l = RoomEnded" "call_inv sample_call_plane s1" "call_inv sample_call_plane s3"
    by (rule sample_states) (blast intro: that)
  have "is_signal_member sample_call_plane ''t'' ''_default'' ''c'' ''a'' s1"
    using r(1-3) by (subst signal_gate_exact [OF r(6), where ss = fm_sessions]) (auto simp: sample_room_def)
  moreover have "\<not> is_signal_member sample_call_plane ''t'' ''_default'' ''c'' ''a'' s3"
    using r(4,5) by (subst signal_gate_exact [OF r(7), where ss = fm_sessions]) (auto simp: sample_room_def)
  ultimately show ?thesis using r(6,7) by blast
qed

end
