(* ===== verification/FrickCluster.thy ===== *)
theory FrickCluster
  imports FrickCodec
begin

text \<open>
  The cluster layer: fan-out envelopes and their wire form (\<open>cluster/envelope.rs\<close>), the
  in-process bus that carries them between nodes (\<open>cluster/memory.rs\<close>), and the registry of
  media homes that is coordinated over it (\<open>calls/media_placement.rs\<close>).

  Bus handlers are closures in the code; here a handler is a value of a type parameter and a
  publish returns the list of handler invocations, in the order in which the code makes them.
\<close>

section \<open>Envelopes\<close>

record projection_change =
  pch_key :: string
  pch_value :: "value"

type_synonym node_id = string

datatype cluster_envelope =
    StreamEventEnv (origin_node_id: node_id) (env_tenant_id: string) "string option"
      string string int packed_stream_event
  | ObjectsEnv (origin_node_id: node_id) (env_tenant_id: string) "string option"
      string "value list"
  | ObjectDeletesEnv (origin_node_id: node_id) (env_tenant_id: string) "string option"
      string "string list"
  | SignalEnv (origin_node_id: node_id) (env_tenant_id: string) "string option"
      string string "value" string
  | ProjectionDeltaEnv (origin_node_id: node_id) (env_tenant_id: string) "string option"
      string "projection_change list"
  | PresenceDeltaEnv (origin_node_id: node_id) (env_tenant_id: string) "string option"
      string "projection_change list" "string list"
  | MediaPlacementClaim (origin_node_id: node_id) (env_tenant_id: string) string node_id string
  | MediaPlacementRelease (origin_node_id: node_id) (env_tenant_id: string) string

fun env_kind :: "cluster_envelope \<Rightarrow> string" where
  "env_kind (StreamEventEnv _ _ _ _ _ _ _) = ''streamEvent''"
| "env_kind (ObjectsEnv _ _ _ _ _) = ''objects''"
| "env_kind (ObjectDeletesEnv _ _ _ _ _) = ''objectDeletes''"
| "env_kind (SignalEnv _ _ _ _ _ _ _) = ''signal''"
| "env_kind (ProjectionDeltaEnv _ _ _ _ _) = ''projectionDelta''"
| "env_kind (PresenceDeltaEnv _ _ _ _ _ _) = ''presenceDelta''"
| "env_kind (MediaPlacementClaim _ _ _ _ _) = ''mediaPlacementClaim''"
| "env_kind (MediaPlacementRelease _ _ _) = ''mediaPlacementRelease''"

type_synonym entries = "(value \<times> value) list"

definition str_entry :: "string \<Rightarrow> string \<Rightarrow> value \<times> value" where
  "str_entry name s = (VString name, VString s)"

definition push_app_id :: "string option \<Rightarrow> entries" where
  "push_app_id app_id = (case app_id of None \<Rightarrow> [] | Some a \<Rightarrow> [str_entry ''appId'' a])"

definition packed_to_value :: "packed_stream_event \<Rightarrow> value" where
  "packed_to_value p = VArray
     [VInteger (pse_stream p), VString (pse_key p), VInteger (pse_sequence p),
      VString (pse_event_id p), VInteger (pse_event p),
      VArray (map (\<lambda>(field_id, v). VArray [VInteger field_id, v]) (pse_fields p))]"

definition changes_to_value :: "projection_change list \<Rightarrow> value" where
  "changes_to_value changes = VArray (map (\<lambda>c.
     VMap [str_entry ''key'' (pch_key c), (VString ''value'', pch_value c)]) changes)"

definition strings_to_value :: "string list \<Rightarrow> value" where
  "strings_to_value ss = VArray (map VString ss)"

definition env_entries :: "cluster_envelope \<Rightarrow> entries \<Rightarrow> entries" where
  "env_entries e rest = str_entry ''kind'' (env_kind e)
     # str_entry ''originNodeId'' (origin_node_id e)
     # str_entry ''tenantId'' (env_tenant_id e) # rest"

fun env_to_value :: "cluster_envelope \<Rightarrow> value" where
  "env_to_value (StreamEventEnv n t app s sid sq p) =
     VMap (env_entries (StreamEventEnv n t app s sid sq p) (push_app_id app @
       [str_entry ''stream'' s, str_entry ''streamId'' sid, (VString ''sequence'', VInteger sq),
        (VString ''packed'', packed_to_value p)]))"
| "env_to_value (ObjectsEnv n t app ty objs) =
     VMap (env_entries (ObjectsEnv n t app ty objs) (push_app_id app @
       [str_entry ''type'' ty, (VString ''objects'', VArray objs)]))"
| "env_to_value (ObjectDeletesEnv n t app ty ids) =
     VMap (env_entries (ObjectDeletesEnv n t app ty ids) (push_app_id app @
       [str_entry ''type'' ty, (VString ''ids'', strings_to_value ids)]))"
| "env_to_value (SignalEnv n t app name key v rid) =
     VMap (env_entries (SignalEnv n t app name key v rid) (push_app_id app @
       [str_entry ''name'' name, str_entry ''key'' key, (VString ''value'', v),
        str_entry ''requestId'' rid]))"
| "env_to_value (ProjectionDeltaEnv n t app pr changes) =
     VMap (env_entries (ProjectionDeltaEnv n t app pr changes) (push_app_id app @
       [str_entry ''projection'' pr, (VString ''changes'', changes_to_value changes)]))"
| "env_to_value (PresenceDeltaEnv n t app name records cleared) =
     VMap (env_entries (PresenceDeltaEnv n t app name records cleared) (push_app_id app @
       [str_entry ''name'' name, (VString ''records'', changes_to_value records),
        (VString ''cleared'', strings_to_value cleared)]))"
| "env_to_value (MediaPlacementClaim n t call home ip) =
     VMap (env_entries (MediaPlacementClaim n t call home ip)
       [str_entry ''callId'' call, str_entry ''homeNodeId'' home, str_entry ''announcedIp'' ip])"
| "env_to_value (MediaPlacementRelease n t call) =
     VMap (env_entries (MediaPlacementRelease n t call) [str_entry ''callId'' call])"

datatype envelope_decode_error = NotAMap | MissingKind | UnknownKind string

text \<open>\<open>map.iter().find(|(k, _)| k.as_str() == Some(name)).map(|(_, v)| v)\<close>.\<close>

definition get_entry :: "entries \<Rightarrow> string \<Rightarrow> value option" where
  "get_entry m name = map_option snd (find (\<lambda>(k, _). as_str k = Some name) m)"

definition str_field :: "entries \<Rightarrow> string \<Rightarrow> string" where
  "str_field m name = (case Option.bind (get_entry m name) as_str of None \<Rightarrow> '''' | Some s \<Rightarrow> s)"

definition opt_str :: "entries \<Rightarrow> string \<Rightarrow> string option" where
  "opt_str m name = Option.bind (get_entry m name) as_str"

definition value_to_strings :: "value \<Rightarrow> string list" where
  "value_to_strings v = (case as_array v of None \<Rightarrow> []
     | Some items \<Rightarrow> List.map_filter as_str items)"

definition value_to_change :: "value \<Rightarrow> projection_change option" where
  "value_to_change item = map_option (\<lambda>m. \<lparr>pch_key = str_field m ''key'',
     pch_value = (case get_entry m ''value'' of None \<Rightarrow> VNil | Some v \<Rightarrow> v)\<rparr>) (as_map item)"

definition value_to_changes :: "value \<Rightarrow> projection_change list" where
  "value_to_changes v = (case as_array v of None \<Rightarrow> []
     | Some items \<Rightarrow> List.map_filter value_to_change items)"

text \<open>\<open>items.get(i)\<close>.\<close>

definition get_at :: "'a list \<Rightarrow> nat \<Rightarrow> 'a option" where
  "get_at xs i = (if i < length xs then Some (xs ! i) else None)"

definition i64_or_0 :: "value option \<Rightarrow> int" where
  "i64_or_0 v = (case Option.bind v as_i64 of None \<Rightarrow> 0 | Some i \<Rightarrow> i)"

definition str_or_empty :: "value option \<Rightarrow> string" where
  "str_or_empty v = (case Option.bind v as_str of None \<Rightarrow> '''' | Some s \<Rightarrow> s)"

definition value_to_field :: "value \<Rightarrow> packed_field option" where
  "value_to_field field = map_option (\<lambda>pair. (i64_or_0 (get_at pair 0),
     case get_at pair 1 of None \<Rightarrow> VNil | Some v \<Rightarrow> v)) (as_array field)"

definition value_to_packed :: "value \<Rightarrow> packed_stream_event" where
  "value_to_packed v = (let items = (case as_array v of None \<Rightarrow> [] | Some xs \<Rightarrow> xs) in
     \<lparr>pse_stream = i64_or_0 (get_at items 0), pse_key = str_or_empty (get_at items 1),
      pse_sequence = i64_or_0 (get_at items 2), pse_event_id = str_or_empty (get_at items 3),
      pse_event = i64_or_0 (get_at items 4),
      pse_fields = (case Option.bind (get_at items 5) as_array of None \<Rightarrow> []
        | Some fs \<Rightarrow> List.map_filter value_to_field fs)\<rparr>)"

definition empty_packed :: packed_stream_event where
  "empty_packed = \<lparr>pse_stream = 0, pse_key = '''', pse_sequence = 0, pse_event_id = '''',
     pse_event = 0, pse_fields = []\<rparr>"

definition env_from_map :: "entries \<Rightarrow> string \<Rightarrow> (envelope_decode_error, cluster_envelope) result" where
  "env_from_map m kind =
    (let n = str_field m ''originNodeId''; t = str_field m ''tenantId''; app = opt_str m ''appId'' in
     if kind = ''streamEvent'' then Ok (StreamEventEnv n t app (str_field m ''stream'')
       (str_field m ''streamId'') (i64_or_0 (get_entry m ''sequence''))
       (case get_entry m ''packed'' of None \<Rightarrow> empty_packed | Some v \<Rightarrow> value_to_packed v))
     else if kind = ''objects'' then Ok (ObjectsEnv n t app (str_field m ''type'')
       (case Option.bind (get_entry m ''objects'') as_array of None \<Rightarrow> [] | Some xs \<Rightarrow> xs))
     else if kind = ''objectDeletes'' then Ok (ObjectDeletesEnv n t app (str_field m ''type'')
       (case get_entry m ''ids'' of None \<Rightarrow> [] | Some v \<Rightarrow> value_to_strings v))
     else if kind = ''signal'' then Ok (SignalEnv n t app (str_field m ''name'') (str_field m ''key'')
       (case get_entry m ''value'' of None \<Rightarrow> VNil | Some v \<Rightarrow> v) (str_field m ''requestId''))
     else if kind = ''projectionDelta'' then Ok (ProjectionDeltaEnv n t app (str_field m ''projection'')
       (case get_entry m ''changes'' of None \<Rightarrow> [] | Some v \<Rightarrow> value_to_changes v))
     else if kind = ''presenceDelta'' then Ok (PresenceDeltaEnv n t app (str_field m ''name'')
       (case get_entry m ''records'' of None \<Rightarrow> [] | Some v \<Rightarrow> value_to_changes v)
       (case get_entry m ''cleared'' of None \<Rightarrow> [] | Some v \<Rightarrow> value_to_strings v))
     else if kind = ''mediaPlacementClaim'' then Ok (MediaPlacementClaim n t (str_field m ''callId'')
       (str_field m ''homeNodeId'') (str_field m ''announcedIp''))
     else if kind = ''mediaPlacementRelease'' then Ok (MediaPlacementRelease n t (str_field m ''callId''))
     else Err (UnknownKind kind))"

definition env_from_value :: "value \<Rightarrow> (envelope_decode_error, cluster_envelope) result" where
  "env_from_value v = rbind (ok_or NotAMap (as_map v)) (\<lambda>m.
     rbind (ok_or MissingKind (opt_str m ''kind'')) (env_from_map m))"

text \<open>The integer fields are \<open>i64\<close> in the code.\<close>

definition is_i64 :: "int \<Rightarrow> bool" where
  "is_i64 i \<longleftrightarrow> - (2 ^ 63) \<le> i \<and> i < 2 ^ 63"

definition packed_i64 :: "packed_stream_event \<Rightarrow> bool" where
  "packed_i64 p \<longleftrightarrow> is_i64 (pse_stream p) \<and> is_i64 (pse_sequence p) \<and> is_i64 (pse_event p)
     \<and> list_all (\<lambda>f. is_i64 (fst f)) (pse_fields p)"

fun env_i64 :: "cluster_envelope \<Rightarrow> bool" where
  "env_i64 (StreamEventEnv _ _ _ _ _ sq p) \<longleftrightarrow> is_i64 sq \<and> packed_i64 p"
| "env_i64 _ \<longleftrightarrow> True"

lemma map_filter_map_Some:
  "(\<And>x. x \<in> set xs \<Longrightarrow> f (g x) = Some x) \<Longrightarrow> List.map_filter f (map g xs) = xs"
  by (induction xs) (auto simp: List.map_filter_simps)

lemma strings_roundtrip [simp]: "value_to_strings (strings_to_value ss) = ss"
  by (simp add: value_to_strings_def strings_to_value_def map_filter_map_Some)

lemma get_entry_Cons [simp]:
  "get_entry ((VString k, v) # m) name = (if k = name then Some v else get_entry m name)"
  "get_entry [] name = None"
  by (simp_all add: get_entry_def)

lemma changes_roundtrip [simp]: "value_to_changes (changes_to_value cs) = cs"
  by (simp add: value_to_changes_def changes_to_value_def map_filter_map_Some value_to_change_def
      str_field_def str_entry_def)

lemma i64_or_0_VInteger [simp]: "is_i64 i \<Longrightarrow> i64_or_0 (Some (VInteger i)) = i"
  by (simp add: i64_or_0_def is_i64_def)

lemma value_to_field_pair [simp]: "is_i64 i \<Longrightarrow> value_to_field (VArray [VInteger i, v]) = Some (i, v)"
  by (simp add: value_to_field_def get_at_def)

lemma packed_roundtrip [simp]:
  assumes "packed_i64 p"
  shows "value_to_packed (packed_to_value p) = p"
proof -
  have "List.map_filter value_to_field (map (\<lambda>(i, v). VArray [VInteger i, v]) (pse_fields p))
      = pse_fields p"
    using assms by (intro map_filter_map_Some)
      (auto simp: packed_i64_def list_all_iff)
  then show ?thesis
    using assms
    by (simp add: value_to_packed_def packed_to_value_def get_at_def str_or_empty_def packed_i64_def)
qed

lemma push_app_id_get [simp]:
  "get_entry (push_app_id app @ m) name =
    (if name = ''appId'' \<and> app \<noteq> None then map_option VString app else get_entry m name)"
  by (cases app) (auto simp: push_app_id_def str_entry_def)

lemma bind_as_str_VString [simp]: "Option.bind (map_option VString x) as_str = x"
  by (cases x) simp_all

lemma env_roundtrip:
  assumes "env_i64 e"
  shows "env_from_value (env_to_value e) = Ok e"
  using assms
  by (cases e) (simp_all add: env_from_value_def ok_or_def opt_str_def env_entries_def str_entry_def
      env_from_map_def str_field_def bind_eq_Some_conv split: option.splits)

text \<open>C34: Every envelope the gateway and the media registry publish, of any of the eight kinds,
  is read back by a peer exactly as it was written: decoding the map a node writes gives the same
  envelope, the omitted \<open>appId\<close> included.\<close>

theorem envelope_roundtrip:
  assumes "env_i64 e"
  shows "env_from_value (env_to_value e) = Ok e"
  using assms by (rule env_roundtrip)

theorem envelope_roundtrip_witness:
  "let e = StreamEventEnv ''n1'' ''acme'' None ''chat'' ''room'' 7
       \<lparr>pse_stream = 3, pse_key = ''room'', pse_sequence = 7, pse_event_id = ''e7'', pse_event = 1,
        pse_fields = [(1, VString ''hi''), (2, VNil)]\<rparr>
   in env_i64 e \<and> env_from_value (env_to_value e) = Ok e"
  using envelope_roundtrip [of "StreamEventEnv ''n1'' ''acme'' None ''chat'' ''room'' 7
       \<lparr>pse_stream = 3, pse_key = ''room'', pse_sequence = 7, pse_event_id = ''e7'', pse_event = 1,
        pse_fields = [(1, VString ''hi''), (2, VNil)]\<rparr>"]
  by (simp add: packed_i64_def is_i64_def Let_def)

section \<open>The in-process bus\<close>

text \<open>A bus owns its local handlers (keyed by a counter) and its tenant filter; the shared channel
  owns the attachments of the buses (keyed by a counter, naming a bus by its position).\<close>

record 'h memory_bus =
  mb_node_id :: node_id
  mb_local_handlers :: "(nat \<times> 'h) list"
  mb_subscribed_tenants :: "string set option"
  mb_next_handler_id :: nat
  mb_attachment :: "nat option"

record 'h memory_channel =
  mc_handlers :: "(nat \<times> nat) list"
  mc_next_id :: nat
  mc_buses :: "'h memory_bus list"

definition new_channel :: "'h memory_channel" where
  "new_channel = \<lparr>mc_handlers = [], mc_next_id = 1, mc_buses = []\<rparr>"

definition channel_attach :: "nat \<Rightarrow> 'h memory_channel \<Rightarrow> nat \<times> 'h memory_channel" where
  "channel_attach b ch = (mc_next_id ch,
     ch\<lparr>mc_next_id := mc_next_id ch + 1, mc_handlers := mc_handlers ch @ [(mc_next_id ch, b)]\<rparr>)"

definition channel_detach :: "nat \<Rightarrow> 'h memory_channel \<Rightarrow> 'h memory_channel" where
  "channel_detach i ch = ch\<lparr>mc_handlers := filter (\<lambda>h. fst h \<noteq> i) (mc_handlers ch)\<rparr>"

definition bus_with_options :: "node_id \<Rightarrow> 'h memory_channel \<Rightarrow> 'h memory_channel" where
  "bus_with_options node ch = (let (i, ch) = channel_attach (length (mc_buses ch)) ch in
     ch\<lparr>mc_buses := mc_buses ch @ [\<lparr>mb_node_id = node, mb_local_handlers = [],
       mb_subscribed_tenants = None, mb_next_handler_id = 0, mb_attachment = Some i\<rparr>]\<rparr>)"

definition update_bus :: "nat \<Rightarrow> ('h memory_bus \<Rightarrow> 'h memory_bus) \<Rightarrow> 'h memory_channel \<Rightarrow> 'h memory_channel"
  where
  "update_bus b f ch = (if b < length (mc_buses ch)
     then ch\<lparr>mc_buses := (mc_buses ch)[b := f (mc_buses ch ! b)]\<rparr> else ch)"

definition bus_subscribe :: "'h \<Rightarrow> 'h memory_bus \<Rightarrow> 'h memory_bus" where
  "bus_subscribe h bus = bus\<lparr>mb_next_handler_id := mb_next_handler_id bus + 1,
     mb_local_handlers := mb_local_handlers bus @ [(mb_next_handler_id bus, h)]\<rparr>"

definition bus_unsubscribe :: "nat \<Rightarrow> 'h memory_bus \<Rightarrow> 'h memory_bus" where
  "bus_unsubscribe i bus = bus\<lparr>mb_local_handlers := filter (\<lambda>h. fst h \<noteq> i) (mb_local_handlers bus)\<rparr>"

definition set_subscribed_tenants :: "string set option \<Rightarrow> 'h memory_bus \<Rightarrow> 'h memory_bus" where
  "set_subscribed_tenants ts bus = bus\<lparr>mb_subscribed_tenants := ts\<rparr>"

definition bus_close :: "nat \<Rightarrow> 'h memory_channel \<Rightarrow> 'h memory_channel" where
  "bus_close b ch = (if b < length (mc_buses ch) then
     let ch1 = (case mb_attachment (mc_buses ch ! b) of None \<Rightarrow> ch | Some i \<Rightarrow> channel_detach i ch) in
     update_bus b (\<lambda>bus. bus\<lparr>mb_attachment := None, mb_local_handlers := []\<rparr>) ch1 else ch)"

text \<open>What a bus does with an envelope from the channel: the loop guard, the tenant filter, then
  its local handlers in order.\<close>

definition bus_dispatch :: "cluster_envelope \<Rightarrow> 'h memory_bus \<Rightarrow> 'h list" where
  "bus_dispatch e bus = (if origin_node_id e = mb_node_id bus then []
     else case mb_subscribed_tenants bus of
        Some ts \<Rightarrow> if env_tenant_id e \<notin> ts then [] else map snd (mb_local_handlers bus)
      | None \<Rightarrow> map snd (mb_local_handlers bus))"

definition channel_publish :: "cluster_envelope \<Rightarrow> 'h memory_channel \<Rightarrow> (nat \<times> 'h) list" where
  "channel_publish e ch = concat (map (\<lambda>(_, b). map (Pair b) (bus_dispatch e (mc_buses ch ! b)))
     (mc_handlers ch))"

datatype 'h bus_op =
    OpenBus node_id
  | Subscribe nat 'h
  | Unsubscribe nat nat
  | SetTenants nat "string set option"
  | CloseBus nat

fun bus_step :: "'h bus_op \<Rightarrow> 'h memory_channel \<Rightarrow> 'h memory_channel" where
  "bus_step (OpenBus node) ch = bus_with_options node ch"
| "bus_step (Subscribe b h) ch = update_bus b (bus_subscribe h) ch"
| "bus_step (Unsubscribe b i) ch = update_bus b (bus_unsubscribe i) ch"
| "bus_step (SetTenants b ts) ch = update_bus b (set_subscribed_tenants ts) ch"
| "bus_step (CloseBus b) ch = bus_close b ch"

definition bus_run :: "'h bus_op list \<Rightarrow> 'h memory_channel" where
  "bus_run ops = fold bus_step ops new_channel"

text \<open>The channel invariant: attachment ids are unique and below the counter, and an attachment
  names the bus that holds it.\<close>

definition channel_ok :: "'h memory_channel \<Rightarrow> bool" where
  "channel_ok ch \<longleftrightarrow> distinct (map fst (mc_handlers ch))
     \<and> (\<forall>(i, b) \<in> set (mc_handlers ch). i < mc_next_id ch)
     \<and> (\<forall>i b. (i, b) \<in> set (mc_handlers ch) \<longleftrightarrow>
          b < length (mc_buses ch) \<and> mb_attachment (mc_buses ch ! b) = Some i)"

lemma channel_ok_new: "channel_ok new_channel"
  by (simp add: channel_ok_def new_channel_def)

lemma channel_ok_open: "channel_ok ch \<Longrightarrow> channel_ok (bus_with_options node ch)"
  unfolding channel_ok_def bus_with_options_def channel_attach_def
  by (auto simp: nth_append less_Suc_eq split: if_splits)

lemma channel_ok_update:
  "channel_ok ch \<Longrightarrow> (\<And>bus. mb_attachment (f bus) = mb_attachment bus) \<Longrightarrow> channel_ok (update_bus b f ch)"
  by (auto simp: channel_ok_def update_bus_def nth_list_update)

lemma channel_ok_close:
  assumes "channel_ok ch"
  shows "channel_ok (bus_close b ch)"
proof (cases "b < length (mc_buses ch)")
  case True
  show ?thesis
  proof (cases "mb_attachment (mc_buses ch ! b)")
    case None
    then show ?thesis
      using assms True by (auto simp: channel_ok_def bus_close_def update_bus_def nth_list_update)
  next
    case (Some i)
    have "distinct (map fst (filter (\<lambda>h. fst h \<noteq> i) (mc_handlers ch)))"
      using assms by (simp add: channel_ok_def distinct_map_filter)
    moreover have "(j, c) \<in> set (mc_handlers ch) \<Longrightarrow> j = i \<longleftrightarrow> c = b" for j c
      using assms True Some
      by (metis (no_types, lifting) channel_ok_def eq_key_imp_eq_value option.inject)
    ultimately show ?thesis
      using assms True Some
      by (auto simp: channel_ok_def bus_close_def update_bus_def channel_detach_def nth_list_update
          split: if_splits)
  qed
qed (use assms in \<open>simp add: bus_close_def\<close>)

lemma channel_ok_step: "channel_ok ch \<Longrightarrow> channel_ok (bus_step op ch)"
  by (cases op) (auto intro!: channel_ok_open channel_ok_update channel_ok_close
      simp: bus_subscribe_def bus_unsubscribe_def set_subscribed_tenants_def)

lemma channel_ok_run: "channel_ok (bus_run ops)"
proof -
  have "channel_ok ch \<Longrightarrow> channel_ok (fold bus_step ops ch)" for ch :: "'a memory_channel"
    by (induction ops arbitrary: ch) (auto intro: channel_ok_step)
  then show ?thesis
    by (simp add: bus_run_def channel_ok_new)
qed

definition bus_open :: "'h memory_bus \<Rightarrow> bool" where
  "bus_open bus \<longleftrightarrow> mb_attachment bus \<noteq> None"

definition bus_accepts :: "cluster_envelope \<Rightarrow> 'h memory_bus \<Rightarrow> bool" where
  "bus_accepts e bus \<longleftrightarrow> bus_open bus \<and> origin_node_id e \<noteq> mb_node_id bus
     \<and> (\<forall>ts. mb_subscribed_tenants bus = Some ts \<longrightarrow> env_tenant_id e \<in> ts)"

definition received_by :: "nat \<Rightarrow> (nat \<times> 'h) list \<Rightarrow> 'h list" where
  "received_by b ds = map snd (filter (\<lambda>d. fst d = b) ds)"

lemma received_by_append [simp]: "received_by b (xs @ ys) = received_by b xs @ received_by b ys"
  by (simp add: received_by_def)

lemma received_by_map [simp]: "received_by b (map (Pair c) hs) = (if b = c then hs else [])"
  by (auto simp: received_by_def filter_map comp_def)

lemma received_by_publish:
  "received_by b (channel_publish e ch) =
     concat (map (\<lambda>_. bus_dispatch e (mc_buses ch ! b)) (filter (\<lambda>h. snd h = b) (mc_handlers ch)))"
proof -
  have "received_by b (concat (map (\<lambda>(_, c). map (Pair c) (bus_dispatch e (mc_buses ch ! c))) hs))
      = concat (map (\<lambda>_. bus_dispatch e (mc_buses ch ! b)) (filter (\<lambda>h. snd h = b) hs))" for hs
    by (induction hs) (auto simp: received_by_def [of _ "[]"])
  then show ?thesis
    by (simp add: channel_publish_def)
qed

lemma singleton_distinct: "set xs = {x} \<Longrightarrow> distinct xs \<Longrightarrow> xs = [x]"
  by (cases xs) (auto dest: subset_singletonD)

lemma attachment_filter:
  assumes "channel_ok ch" and "b < length (mc_buses ch)"
  shows "filter (\<lambda>h. snd h = b) (mc_handlers ch) =
    (case mb_attachment (mc_buses ch ! b) of None \<Rightarrow> [] | Some i \<Rightarrow> [(i, b)])"
proof -
  let ?f = "filter (\<lambda>h. snd h = b) (mc_handlers ch)"
  have "distinct ?f"
    using assms by (auto simp: channel_ok_def distinct_map)
  moreover have "set ?f = (case mb_attachment (mc_buses ch ! b) of None \<Rightarrow> {} | Some i \<Rightarrow> {(i, b)})"
    using assms by (auto simp: channel_ok_def split: option.splits)
  ultimately show ?thesis
    by (cases "mb_attachment (mc_buses ch ! b)") (simp_all only: option.case set_empty singleton_distinct)
qed

lemma publish_exact:
  assumes "channel_ok ch" and "b < length (mc_buses ch)"
  shows "received_by b (channel_publish e ch) =
    (if bus_accepts e (mc_buses ch ! b) then map snd (mb_local_handlers (mc_buses ch ! b)) else [])"
  using assms
  by (auto simp: received_by_publish attachment_filter bus_accepts_def bus_open_def bus_dispatch_def
      split: option.splits)

text \<open>C35: In every channel built by opening, subscribing, filtering and closing buses in any order,
  a publish reaches the handlers of a bus exactly once each, in subscription order, when that bus
  is open, is not the publisher itself and its tenant filter admits the envelope's tenant (no
  filter admits every tenant, an empty one admits none); otherwise it reaches none of them.\<close>

theorem bus_delivery_exact:
  assumes "b < length (mc_buses (bus_run ops))"
  shows "received_by b (channel_publish e (bus_run ops)) =
    (let bus = mc_buses (bus_run ops) ! b in
     if bus_open bus \<and> origin_node_id e \<noteq> mb_node_id bus
        \<and> (mb_subscribed_tenants bus = None \<or> env_tenant_id e \<in> the (mb_subscribed_tenants bus))
     then map snd (mb_local_handlers bus) else [])"
  using publish_exact [OF channel_ok_run assms, of e] by (auto simp: bus_accepts_def Let_def)

theorem bus_delivery_exact_witness:
  "let ops = [OpenBus ''n1'', OpenBus ''n2'', Subscribe 0 ''a'', Subscribe 1 ''b'', Subscribe 1 ''c'',
        SetTenants 1 (Some {''acme''})];
       e = ObjectDeletesEnv ''n1'' ''acme'' None ''Note'' [''x'']
   in 1 < length (mc_buses (bus_run ops))
      \<and> received_by 1 (channel_publish e (bus_run ops)) = [''b'', ''c'']
      \<and> received_by 0 (channel_publish e (bus_run ops)) = []"
  using bus_delivery_exact [of 1 "[OpenBus ''n1'', OpenBus ''n2'', Subscribe 0 ''a'', Subscribe 1 ''b'',
        Subscribe 1 ''c'', SetTenants 1 (Some {''acme''})]" "ObjectDeletesEnv ''n1'' ''acme'' None ''Note'' [''x'']"]
  by (simp add: bus_run_def bus_with_options_def channel_attach_def new_channel_def update_bus_def
      bus_subscribe_def set_subscribed_tenants_def bus_open_def Let_def channel_publish_def bus_dispatch_def
      received_by_def)

section \<open>The Redis bus\<close>

text \<open>\<open>cluster/redis.rs\<close>: the same contract over a broker that carries bytes.  The msgpack writer and
  reader are arguments; the broker hands every published message to \<open>on_message\<close> of each
  subscribed bus, and what the adapter logs about dropped messages is left out.\<close>

record 'h redis_bus =
  rb_node_id :: node_id
  rb_channel :: string
  rb_handlers :: "(nat \<times> 'h) list"
  rb_subscribed_tenants :: "string set option"
  rb_next_handler_id :: nat
  rb_closed :: bool

definition DEFAULT_CHANNEL :: string where
  "DEFAULT_CHANNEL = ''frick:cluster''"

definition redis_new :: "node_id \<Rightarrow> string option \<Rightarrow> 'h redis_bus" where
  "redis_new node channel = \<lparr>rb_node_id = node,
     rb_channel = (case channel of None \<Rightarrow> DEFAULT_CHANNEL | Some c \<Rightarrow> c), rb_handlers = [],
     rb_subscribed_tenants = None, rb_next_handler_id = 0, rb_closed = False\<rparr>"

definition redis_subscribe :: "'h \<Rightarrow> 'h redis_bus \<Rightarrow> 'h redis_bus" where
  "redis_subscribe h bus = bus\<lparr>rb_next_handler_id := rb_next_handler_id bus + 1,
     rb_handlers := rb_handlers bus @ [(rb_next_handler_id bus, h)]\<rparr>"

definition redis_unsubscribe :: "nat \<Rightarrow> 'h redis_bus \<Rightarrow> 'h redis_bus" where
  "redis_unsubscribe i bus = bus\<lparr>rb_handlers := filter (\<lambda>h. fst h \<noteq> i) (rb_handlers bus)\<rparr>"

definition redis_set_subscribed_tenants :: "string set option \<Rightarrow> 'h redis_bus \<Rightarrow> 'h redis_bus" where
  "redis_set_subscribed_tenants ts bus = bus\<lparr>rb_subscribed_tenants := ts\<rparr>"

definition redis_close :: "'h redis_bus \<Rightarrow> 'h redis_bus" where
  "redis_close bus = bus\<lparr>rb_closed := True, rb_handlers := []\<rparr>"

definition redis_publish ::
  "(value \<Rightarrow> (string, string) result) \<Rightarrow> cluster_envelope \<Rightarrow> 'h redis_bus \<Rightarrow> (string \<times> string) option" where
  "redis_publish write_value e bus = (if rb_closed bus then None
     else case write_value (env_to_value e) of Inl _ \<Rightarrow> None | Inr payload \<Rightarrow> Some (rb_channel bus, payload))"

definition redis_on_message ::
  "(string \<Rightarrow> (string, value) result) \<Rightarrow> string \<Rightarrow> string \<Rightarrow> 'h redis_bus \<Rightarrow> (cluster_envelope \<times> 'h) list" where
  "redis_on_message read_value channel message bus = (if channel \<noteq> rb_channel bus then []
     else case read_value message of
       Inl _ \<Rightarrow> []
     | Inr v \<Rightarrow> (case env_from_value v of
         Inl _ \<Rightarrow> []
       | Inr e \<Rightarrow>
           if origin_node_id e = rb_node_id bus then []
           else if (case rb_subscribed_tenants bus of None \<Rightarrow> False | Some ts \<Rightarrow> env_tenant_id e \<notin> ts) then []
           else map (\<lambda>(_, h). (e, h)) (rb_handlers bus)))"

text \<open>The memory bus with the same node, handlers and filter.\<close>

definition as_memory_bus :: "'h redis_bus \<Rightarrow> 'h memory_bus" where
  "as_memory_bus bus = \<lparr>mb_node_id = rb_node_id bus, mb_local_handlers = rb_handlers bus,
     mb_subscribed_tenants = rb_subscribed_tenants bus, mb_next_handler_id = rb_next_handler_id bus,
     mb_attachment = (if rb_closed bus then None else Some 0)\<rparr>"

lemma redis_ops_as_memory:
  "as_memory_bus (redis_subscribe h bus) = bus_subscribe h (as_memory_bus bus)"
  "as_memory_bus (redis_unsubscribe i bus) = bus_unsubscribe i (as_memory_bus bus)"
  "as_memory_bus (redis_set_subscribed_tenants ts bus) = set_subscribed_tenants ts (as_memory_bus bus)"
  by (simp_all add: as_memory_bus_def redis_subscribe_def bus_subscribe_def redis_unsubscribe_def
      bus_unsubscribe_def redis_set_subscribed_tenants_def set_subscribed_tenants_def)

text \<open>C36: The Redis bus and the in-process bus are interchangeable: subscribing, unsubscribing and
  filtering correspond, and for an envelope whose bytes the broker carries unchanged, a Redis bus
  on the publisher's channel hands the very envelope to the very handlers, in the same order, that
  the in-process bus would invoke, the loop guard and the tenant filter included.\<close>

theorem redis_bus_equivalent:
  assumes "env_i64 e" and "redis_publish write_value e sender = Some (channel, payload)"
    and "rb_channel bus = rb_channel sender"
    and "\<And>b. write_value (env_to_value e) = Ok b \<Longrightarrow> read_value b = Ok (env_to_value e)"
  shows "redis_on_message read_value channel payload bus = map (Pair e) (bus_dispatch e (as_memory_bus bus))
    \<and> as_memory_bus (redis_subscribe h bus) = bus_subscribe h (as_memory_bus bus)
    \<and> as_memory_bus (redis_unsubscribe i bus) = bus_unsubscribe i (as_memory_bus bus)
    \<and> as_memory_bus (redis_set_subscribed_tenants ts bus) = set_subscribed_tenants ts (as_memory_bus bus)"
proof (intro conjI)
  have "channel = rb_channel bus" "read_value payload = Ok (env_to_value e)"
    using assms(2-4) by (auto simp: redis_publish_def split: if_splits sum.splits)
  then show "redis_on_message read_value channel payload bus = map (Pair e) (bus_dispatch e (as_memory_bus bus))"
    using env_roundtrip [OF assms(1)]
    by (auto simp: redis_on_message_def bus_dispatch_def as_memory_bus_def split: option.splits)
qed (rule redis_ops_as_memory)+

definition sample_redis :: "char \<Rightarrow> string redis_bus" where
  "sample_redis x = redis_set_subscribed_tenants (Some {''acme''}) (redis_subscribe ''gw'' (redis_new [x] None))"

theorem redis_bus_equivalent_witness:
  "let e = ObjectDeletesEnv ''a'' ''acme'' (Some ''app'') ''Note'' [''x''];
       write_value = (\<lambda>v. if v = env_to_value e then Ok ''bytes'' else Err ''no'');
       read_value = (\<lambda>b. if b = ''bytes'' then Ok (env_to_value e) else Err ''no'')
   in redis_publish write_value e (sample_redis CHR ''a'') = Some (''frick:cluster'', ''bytes'')
      \<and> redis_on_message read_value ''frick:cluster'' ''bytes'' (sample_redis CHR ''b'') = [(e, ''gw'')]"
proof -
  let ?e = "ObjectDeletesEnv ''a'' ''acme'' (Some ''app'') ''Note'' [''x'']"
  let ?w = "\<lambda>v. if v = env_to_value ?e then Ok ''bytes'' else Err ''no''"
  let ?r = "\<lambda>b. if b = ''bytes'' then Ok (env_to_value ?e) else Err ''no''"
  have w: "redis_publish ?w ?e (sample_redis CHR ''a'') = Some (''frick:cluster'', ''bytes'')"
    by (simp add: redis_publish_def sample_redis_def redis_set_subscribed_tenants_def redis_subscribe_def
        redis_new_def DEFAULT_CHANNEL_def del: env_to_value.simps)
  have "redis_on_message ?r ''frick:cluster'' ''bytes'' (sample_redis CHR ''b'')
      = map (Pair ?e) (bus_dispatch ?e (as_memory_bus (sample_redis CHR ''b'')))"
    using w by (rule redis_bus_equivalent [THEN conjunct1, rotated])
      (simp_all add: sample_redis_def redis_set_subscribed_tenants_def redis_subscribe_def redis_new_def
        split: if_splits del: env_to_value.simps)
  with w show ?thesis
    by (simp add: Let_def bus_dispatch_def as_memory_bus_def sample_redis_def redis_set_subscribed_tenants_def
        redis_subscribe_def redis_new_def del: env_to_value.simps)
qed

section \<open>Media placement\<close>

record media_home =
  mh_node_id :: node_id
  mh_region :: string
  mh_announced_ip :: string

text \<open>The single-box placement: the same home for every call, and nothing to release.\<close>

definition local_placement :: "string option \<Rightarrow> string option \<Rightarrow> string \<Rightarrow> media_home" where
  "local_placement node region ip = \<lparr>mh_node_id = (case node of None \<Rightarrow> ''local'' | Some n \<Rightarrow> n),
     mh_region = (case region of None \<Rightarrow> ''local'' | Some r \<Rightarrow> r), mh_announced_ip = ip\<rparr>"

record registry_entry =
  re_home :: media_home
  re_at_ms :: int

record cluster_placement =
  cpl_node_id :: node_id
  cpl_region :: string
  cpl_announced_ip :: string
  cpl_ttl_ms :: int
  cpl_registry :: "string \<rightharpoonup> registry_entry"

definition MEDIA_PLACEMENT_TENANT :: string where
  "MEDIA_PLACEMENT_TENANT = ''_media_placement''"

definition DEFAULT_PLACEMENT_TTL_MS :: int where
  "DEFAULT_PLACEMENT_TTL_MS = 60 * 60 * 1000"

definition placement_new :: "node_id option \<Rightarrow> node_id \<Rightarrow> string option \<Rightarrow> string \<Rightarrow> int option \<Rightarrow> cluster_placement"
  where
  "placement_new node bus_node region ip ttl =
     \<lparr>cpl_node_id = (case node of None \<Rightarrow> bus_node | Some n \<Rightarrow> n),
      cpl_region = (case region of None \<Rightarrow> ''local'' | Some r \<Rightarrow> r), cpl_announced_ip = ip,
      cpl_ttl_ms = (case ttl of None \<Rightarrow> DEFAULT_PLACEMENT_TTL_MS | Some t \<Rightarrow> t), cpl_registry = Map.empty\<rparr>"

definition set_home :: "string \<Rightarrow> media_home \<Rightarrow> int \<Rightarrow> cluster_placement \<Rightarrow> cluster_placement" where
  "set_home call_id home now p =
     p\<lparr>cpl_registry := (cpl_registry p)(call_id \<mapsto> \<lparr>re_home = home, re_at_ms = now\<rparr>)\<rparr>"

definition drop_home :: "string \<Rightarrow> cluster_placement \<Rightarrow> cluster_placement" where
  "drop_home call_id p = p\<lparr>cpl_registry := (cpl_registry p)(call_id := None)\<rparr>"

definition live_entry :: "int \<Rightarrow> string \<Rightarrow> cluster_placement \<Rightarrow> registry_entry option \<times> cluster_placement" where
  "live_entry now call_id p = (case cpl_registry p call_id of
      None \<Rightarrow> (None, p)
    | Some entry \<Rightarrow> if now - re_at_ms entry \<ge> cpl_ttl_ms p then (None, drop_home call_id p)
                    else (Some entry, p))"

definition home_for :: "int \<Rightarrow> string \<Rightarrow> cluster_placement \<Rightarrow> media_home option \<times> cluster_placement" where
  "home_for now call_id p = map_prod (map_option re_home) id (live_entry now call_id p)"

definition own_home :: "cluster_placement \<Rightarrow> media_home" where
  "own_home p = \<lparr>mh_node_id = cpl_node_id p, mh_region = cpl_region p, mh_announced_ip = cpl_announced_ip p\<rparr>"

definition publish_claim :: "cluster_placement \<Rightarrow> string \<Rightarrow> media_home \<Rightarrow> cluster_envelope" where
  "publish_claim p call_id home = MediaPlacementClaim (cpl_node_id p) MEDIA_PLACEMENT_TENANT call_id
     (mh_node_id home) (mh_announced_ip home)"

text \<open>\<open>place_for\<close> reads the clock twice: in \<open>live_entry\<close> and for the entry it records.\<close>

definition place_for ::
  "int \<Rightarrow> int \<Rightarrow> string \<Rightarrow> cluster_placement \<Rightarrow> media_home \<times> cluster_placement \<times> cluster_envelope list" where
  "place_for now now' call_id p = (case live_entry now call_id p of
      (Some entry, p) \<Rightarrow> (re_home entry, p, [])
    | (None, p) \<Rightarrow> (own_home p, set_home call_id (own_home p) now' p, [publish_claim p call_id (own_home p)]))"

definition release_home :: "string \<Rightarrow> cluster_placement \<Rightarrow> cluster_placement \<times> cluster_envelope list" where
  "release_home call_id p = (drop_home call_id p,
     if (case cpl_registry p call_id of None \<Rightarrow> False | Some entry \<Rightarrow> mh_node_id (re_home entry) = cpl_node_id p)
     then [MediaPlacementRelease (cpl_node_id p) MEDIA_PLACEMENT_TENANT call_id] else [])"

definition on_peer_claim :: "int \<Rightarrow> string \<Rightarrow> media_home \<Rightarrow> cluster_placement \<Rightarrow> bool \<times> cluster_placement" where
  "on_peer_claim now call_id peer_home p = (case cpl_registry p call_id of
      None \<Rightarrow> (False, set_home call_id peer_home now p)
    | Some current \<Rightarrow>
        if mh_node_id (re_home current) = mh_node_id peer_home then (False, set_home call_id peer_home now p)
        else if mh_node_id peer_home < mh_node_id (re_home current)
        then (mh_node_id (re_home current) = cpl_node_id p, set_home call_id peer_home now p)
        else (False, p))"

fun on_envelope :: "int \<Rightarrow> cluster_envelope \<Rightarrow> cluster_placement \<Rightarrow> cluster_placement" where
  "on_envelope now (MediaPlacementClaim origin _ call_id home_node ip) p = (if origin = cpl_node_id p then p
     else snd (on_peer_claim now call_id \<lparr>mh_node_id = home_node, mh_region = '''', mh_announced_ip = ip\<rparr> p))"
| "on_envelope now (MediaPlacementRelease origin _ call_id) p = (if origin = cpl_node_id p then p
     else drop_home call_id p)"
| "on_envelope now _ p = p"

subsection \<open>Histories of one node\<close>

datatype placement_event =
    Place int int string
  | Release string
  | Receive int cluster_envelope

fun placement_step :: "placement_event \<Rightarrow> cluster_placement \<Rightarrow> cluster_placement \<times> cluster_envelope list" where
  "placement_step (Place now now' c) p = snd (place_for now now' c p)"
| "placement_step (Release c) p = release_home c p"
| "placement_step (Receive now e) p = (on_envelope now e p, [])"


text \<open>A claim for a call, as the pair of the claiming node and its address.\<close>

fun claim_of :: "string \<Rightarrow> cluster_envelope \<Rightarrow> (node_id \<times> string) option" where
  "claim_of c (MediaPlacementClaim _ _ call_id home ip) = (if call_id = c then Some (home, ip) else None)"
| "claim_of c _ = None"

definition claims_in :: "string \<Rightarrow> cluster_envelope list \<Rightarrow> (node_id \<times> string) set" where
  "claims_in c es = {h. \<exists>e \<in> set es. claim_of c e = Some h}"

lemma claims_in_simps [simp]:
  "claims_in c [] = {}" "claims_in c (e # es) = set_option (claim_of c e) \<union> claims_in c es"
  "claims_in c (es @ es') = claims_in c es \<union> claims_in c es'"
  by (auto simp: claims_in_def)




lemmas placement_defs = place_for_def live_entry_def release_home_def on_peer_claim_def drop_home_def set_home_def







type_synonym node_history = "cluster_placement \<times> placement_event list"








definition sample_node :: "char \<Rightarrow> cluster_placement" where
  "sample_node x = placement_new (Some [x]) '''' None [x, x] None"

definition sample_claim :: "char \<Rightarrow> cluster_envelope" where
  "sample_claim x = MediaPlacementClaim [x] MEDIA_PLACEMENT_TENANT ''call'' [x] [x, x]"

definition sample_histories :: "node_history list" where
  "sample_histories =
    [(sample_node CHR ''b'', [Place 10 11 ''call'', Receive 20 (sample_claim CHR ''a'')]),
     (sample_node CHR ''a'', [Place 12 13 ''call'', Receive 15 (sample_claim CHR ''b''), Place 30 31 ''call'']),
     (sample_node CHR ''c'', [Receive 14 (sample_claim CHR ''b''), Place 16 17 ''call'',
        Receive 19 (sample_claim CHR ''a'')])]"

lemmas sample_placement = sample_histories_def sample_node_def sample_claim_def placement_new_def
  MEDIA_PLACEMENT_TENANT_def DEFAULT_PLACEMENT_TTL_MS_def placement_defs publish_claim_def own_home_def



text \<open>A registry on a bus whose tenant filter does not name the placement tenant is cut off:
  no claim and no release that another registry publishes is handed to any handler of that bus.
  The gateway installs such a filter, made of the tenants of its connections, on the bus it shares
  with the registry.\<close>

theorem placement_filtered:
  assumes "e \<in> set (snd (placement_step ev p))" and "MEDIA_PLACEMENT_TENANT \<notin> ts"
    and "channel_ok ch" and "b < length (mc_buses ch)"
  shows "received_by b (channel_publish e (update_bus b (set_subscribed_tenants (Some ts)) ch)) = []"
proof -
  have "env_tenant_id e = MEDIA_PLACEMENT_TENANT"
    using assms(1) by (cases ev) (auto simp: placement_defs publish_claim_def split: option.splits if_splits)
  moreover have "channel_ok (update_bus b (set_subscribed_tenants (Some ts)) ch)"
    using assms(3) by (rule channel_ok_update) (simp add: set_subscribed_tenants_def)
  ultimately show ?thesis
    using publish_exact [of "update_bus b (set_subscribed_tenants (Some ts)) ch" b e] assms(2,4)
    by (simp add: update_bus_def bus_accepts_def set_subscribed_tenants_def)
qed

theorem placement_filtered_witness:
  "let ch = bus_run [OpenBus ''a'', OpenBus ''b'', Subscribe 1 ''registry''];
       e = sample_claim CHR ''a''
   in received_by 1 (channel_publish e ch) = [''registry'']
      \<and> received_by 1 (channel_publish e (update_bus 1 (set_subscribed_tenants (Some {''acme''})) ch)) = []"
proof -
  let ?ch = "bus_run [OpenBus ''a'', OpenBus ''b'', Subscribe 1 ''registry'']"
  have "sample_claim CHR ''a'' \<in> set (snd (placement_step (Place 0 0 ''call'') (sample_node CHR ''a'')))"
    by (simp add: sample_placement)
  moreover have "MEDIA_PLACEMENT_TENANT \<notin> {''acme''}" by (simp add: MEDIA_PLACEMENT_TENANT_def)
  moreover have "channel_ok ?ch" by (rule channel_ok_run)
  moreover have "1 < length (mc_buses ?ch)"
    by (simp add: bus_run_def bus_with_options_def channel_attach_def new_channel_def update_bus_def)
  moreover have "received_by 1 (channel_publish (sample_claim CHR ''a'') ?ch) = [''registry'']"
    by (simp add: bus_run_def bus_with_options_def channel_attach_def new_channel_def update_bus_def
      bus_subscribe_def channel_publish_def bus_dispatch_def received_by_def sample_claim_def)
  ultimately show ?thesis
    using placement_filtered [of "sample_claim CHR ''a''" "Place 0 0 ''call''" "sample_node CHR ''a''"
      "{''acme''}" ?ch 1] by (simp add: Let_def)
qed

end
