(* ===== verification/FrickProjections.thy ===== *)
theory FrickProjections
  imports FrickFacade
begin

text \<open>
  The projection engine (\<open>frick-server/src/projections.rs\<close>): registration, the driving of projections
  by store writes, the materialized rows with their snapshots, and the deltas handed to the
  listener.

  Handlers are supplied by the application: what a handler computes is an argument, over a state of
  a type parameter that all handlers of a registry share; a panic of \<open>apply\<close> is \<open>None\<close>.  \<open>IndexMap\<close>s
  are lists of entries in insertion order.
\<close>

section \<open>Insertion-ordered maps\<close>

type_synonym ('k, 'v) index_map = "('k \<times> 'v) list"

fun im_insert :: "'k \<Rightarrow> 'v \<Rightarrow> ('k, 'v) index_map \<Rightarrow> ('k, 'v) index_map" where
  "im_insert k v [] = [(k, v)]"
| "im_insert k v ((k', v') # m) = (if k' = k then (k, v) # m else (k', v') # im_insert k v m)"

definition im_remove :: "'k \<Rightarrow> ('k, 'v) index_map \<Rightarrow> ('k, 'v) index_map" where
  "im_remove k m = filter (\<lambda>e. fst e \<noteq> k) m"

lemma im_insert_keys: "fst ` set (im_insert k v m) = insert k (fst ` set m)"
  by (induction k v m rule: im_insert.induct) (simp_all add: insert_commute)

lemma im_insert_distinct [simp]: "distinct (map fst m) \<Longrightarrow> distinct (map fst (im_insert k v m))"
  by (induction k v m rule: im_insert.induct) (auto simp: im_insert_keys)

lemma im_remove_distinct [simp]: "distinct (map fst m) \<Longrightarrow> distinct (map fst (im_remove k m))"
  by (simp add: im_remove_def distinct_map_filter)

lemma map_of_im_insert [simp]: "map_of (im_insert k v m) = (map_of m)(k \<mapsto> v)"
  by (induction m) auto

lemma map_of_im_remove [simp]: "map_of (im_remove k m) = (map_of m)(k := None)"
  by (induction m) (auto simp: im_remove_def)

section \<open>Projections\<close>

datatype projection_source_kind = SourceObject | SourceStream

record projection_source =
  psrc_kind :: projection_source_kind
  psrc_type_name :: string

datatype projection_write_event =
    ProjObjectUpsert (pwe_tenant_id: string) (pwe_app_id: string) string string "value"
  | ProjObjectDelete (pwe_tenant_id: string) (pwe_app_id: string) string string
  | ProjStreamEvent (pwe_tenant_id: string) (pwe_app_id: string) string string "value"

fun event_matches :: "projection_write_event \<Rightarrow> projection_source \<Rightarrow> bool" where
  "event_matches (ProjObjectUpsert _ _ ty _ _) src \<longleftrightarrow> psrc_kind src = SourceObject \<and> psrc_type_name src = ty"
| "event_matches (ProjObjectDelete _ _ ty _) src \<longleftrightarrow> psrc_kind src = SourceObject \<and> psrc_type_name src = ty"
| "event_matches (ProjStreamEvent _ _ ty _ _) src \<longleftrightarrow> psrc_kind src = SourceStream \<and> psrc_type_name src = ty"

record proj_change =
  pc_key :: string
  pc_value :: "value option"

record projection_delta_notice =
  pdn_projection :: string
  pdn_tenant_id :: string
  pdn_app_id :: string
  pdn_changes :: "proj_change list"

record projection_context =
  pctx_tenant_id :: string
  pctx_app_id :: string

record 's projection_handler =
  ph_apply :: "projection_write_event \<Rightarrow> projection_context \<Rightarrow> 's \<Rightarrow> proj_change list option \<times> 's"
  ph_rebuild :: "(projection_context \<Rightarrow> 's \<Rightarrow> 's) option"
  ph_read :: "projection_context \<Rightarrow> (string \<times> string) list \<Rightarrow> 's \<Rightarrow> value option"

record 's projection =
  pj_name :: string
  pj_sources :: "projection_source list"
  pj_handler :: "'s projection_handler"

type_synonym tenant_rows = "(string, (string, value) index_map) index_map"

record 's projection_registry =
  pr_order :: "string list"
  pr_by_name :: "(string, 's projection) index_map"
  pr_rows :: "(string, tenant_rows) index_map"
  pr_handlers :: 's

definition new_registry :: "'s \<Rightarrow> 's projection_registry" where
  "new_registry st = \<lparr>pr_order = [], pr_by_name = [], pr_rows = [], pr_handlers = st\<rparr>"

definition register_projection :: "'s projection \<Rightarrow> 's projection_registry \<Rightarrow> (string, 's projection_registry) result" where
  "register_projection p reg = (if map_of (pr_by_name reg) (pj_name p) \<noteq> None
     then Err (''Projection \"'' @ pj_name p @ ''\" is already registered'')
     else Ok (reg\<lparr>pr_order := pr_order reg @ [pj_name p],
                  pr_by_name := im_insert (pj_name p) p (pr_by_name reg)\<rparr>))"

definition contains_projection :: "string \<Rightarrow> 's projection_registry \<Rightarrow> bool" where
  "contains_projection name reg \<longleftrightarrow> map_of (pr_by_name reg) name \<noteq> None"

definition or_default :: "'v \<Rightarrow> 'v option \<Rightarrow> 'v" where
  "or_default d x = (case x of None \<Rightarrow> d | Some v \<Rightarrow> v)"

lemma or_default_simps [simp]: "or_default d None = d" "or_default d (Some v) = v"
  by (simp_all add: or_default_def)

fun apply_row_change :: "proj_change \<Rightarrow> (string, value) index_map \<Rightarrow> (string, value) index_map" where
  "apply_row_change c rows = (case pc_value c of
      Some v \<Rightarrow> im_insert (pc_key c) v rows | None \<Rightarrow> im_remove (pc_key c) rows)"

definition apply_changes_to_snapshot ::
  "(string, tenant_rows) index_map \<Rightarrow> string \<Rightarrow> string \<Rightarrow> proj_change list \<Rightarrow> (string, tenant_rows) index_map" where
  "apply_changes_to_snapshot rows name tenant_id changes =
    (let by_tenant = or_default [] (map_of rows name);
         tenant_rows = fold apply_row_change changes (or_default [] (map_of by_tenant tenant_id))
     in if tenant_rows = [] then
          (let by_tenant = im_remove tenant_id (im_insert tenant_id tenant_rows by_tenant)
           in if by_tenant = [] then im_remove name (im_insert name by_tenant rows)
              else im_insert name by_tenant rows)
        else im_insert name (im_insert tenant_id tenant_rows by_tenant) rows)"

definition matching_names :: "projection_write_event \<Rightarrow> 's projection_registry \<Rightarrow> string list" where
  "matching_names event reg = filter (\<lambda>name. case map_of (pr_by_name reg) name of
      None \<Rightarrow> False | Some p \<Rightarrow> list_ex (event_matches event) (pj_sources p)) (pr_order reg)"

text \<open>One round of the loop of \<open>notify\<close>; the notices are what the listener is called with.\<close>

definition notify_one ::
  "projection_write_event \<Rightarrow> projection_context \<Rightarrow> string \<Rightarrow> 's projection_registry
    \<Rightarrow> projection_delta_notice list \<times> 's projection_registry" where
  "notify_one event ctx name reg = (case map_of (pr_by_name reg) name of
      None \<Rightarrow> ([], reg)
    | Some p \<Rightarrow> (case ph_apply (pj_handler p) event ctx (pr_handlers reg) of
        (None, st) \<Rightarrow> ([], reg\<lparr>pr_handlers := st\<rparr>)
      | (Some changes, st) \<Rightarrow>
          if changes = [] then ([], reg\<lparr>pr_handlers := st\<rparr>)
          else ([\<lparr>pdn_projection = name, pdn_tenant_id = pctx_tenant_id ctx, pdn_app_id = pctx_app_id ctx,
                  pdn_changes = changes\<rparr>],
                reg\<lparr>pr_handlers := st,
                    pr_rows := apply_changes_to_snapshot (pr_rows reg) name (pctx_tenant_id ctx) changes\<rparr>)))"

fun notify_each ::
  "projection_write_event \<Rightarrow> projection_context \<Rightarrow> string list \<Rightarrow> 's projection_registry
    \<Rightarrow> projection_delta_notice list \<times> 's projection_registry" where
  "notify_each event ctx [] reg = ([], reg)"
| "notify_each event ctx (name # names) reg =
    (let (out1, reg1) = notify_one event ctx name reg; (out2, reg2) = notify_each event ctx names reg1
     in (out1 @ out2, reg2))"

definition notify ::
  "projection_write_event \<Rightarrow> projection_context \<Rightarrow> 's projection_registry
    \<Rightarrow> projection_delta_notice list \<times> 's projection_registry" where
  "notify event ctx reg = notify_each event ctx (matching_names event reg) reg"

definition projection_snapshot :: "string \<Rightarrow> string \<Rightarrow> 's projection_registry \<Rightarrow> proj_change list" where
  "projection_snapshot name tenant_id reg =
    (case Option.bind (map_of (pr_rows reg) name) (\<lambda>byt. map_of byt tenant_id) of
       None \<Rightarrow> []
     | Some rows \<Rightarrow> map (\<lambda>(k, v). \<lparr>pc_key = k, pc_value = Some v\<rparr>) rows)"

datatype projection_rebuild_outcome = Rebuilt | RebuildNotFound | RebuildNotSupported
datatype projection_read_outcome = ReadOk "value" | ReadNotFound | ReadMethodNotAllowed

definition rebuild_one ::
  "string \<Rightarrow> projection_context \<Rightarrow> 's projection_registry \<Rightarrow> projection_rebuild_outcome \<times> 's projection_registry" where
  "rebuild_one name ctx reg = (case map_of (pr_by_name reg) name of
      None \<Rightarrow> (RebuildNotFound, reg)
    | Some p \<Rightarrow> (case ph_rebuild (pj_handler p) of
        None \<Rightarrow> (RebuildNotSupported, reg)
      | Some f \<Rightarrow> (Rebuilt, reg\<lparr>pr_handlers := f ctx (pr_handlers reg)\<rparr>)))"

fun rebuild_each ::
  "projection_context \<Rightarrow> string list \<Rightarrow> 's projection_registry \<Rightarrow> string list \<times> 's projection_registry" where
  "rebuild_each ctx [] reg = ([], reg)"
| "rebuild_each ctx (name # names) reg =
    (case rebuild_one name ctx reg of (outcome, reg1) \<Rightarrow> (case rebuild_each ctx names reg1 of
       (rebuilt, reg2) \<Rightarrow> (if outcome = Rebuilt then name # rebuilt else rebuilt, reg2)))"

definition rebuild_all :: "projection_context \<Rightarrow> 's projection_registry \<Rightarrow> string list \<times> 's projection_registry" where
  "rebuild_all ctx reg = rebuild_each ctx (pr_order reg) reg"

definition read_projection ::
  "string \<Rightarrow> projection_context \<Rightarrow> (string \<times> string) list \<Rightarrow> 's projection_registry \<Rightarrow> projection_read_outcome" where
  "read_projection name ctx query reg = (case map_of (pr_by_name reg) name of
      None \<Rightarrow> ReadNotFound
    | Some p \<Rightarrow> (case ph_read (pj_handler p) ctx query (pr_handlers reg) of
        Some data \<Rightarrow> ReadOk data | None \<Rightarrow> ReadMethodNotAllowed))"

section \<open>The driver\<close>

definition stored_event_to_value :: "stored_event \<Rightarrow> value" where
  "stored_event_to_value stored = (let event = sv_event stored in VMap
     [(VString ''stream'', VString (sei_stream event)), (VString ''streamId'', VString (sei_stream_id event)),
      (VString ''sequence'', VInteger (sei_sequence event)), (VString ''eventId'', VString (sei_event_id event)),
      (VString ''event'', VString (sei_event event)), (VString ''payload'', sei_payload event),
      (VString ''tenantId'', VString (sv_tenant_id stored)), (VString ''appId'', VString (sv_app_id stored))])"

fun drive_projection_write ::
  "write_event \<Rightarrow> 's projection_registry \<Rightarrow> projection_delta_notice list \<times> 's projection_registry" where
  "drive_projection_write (ObjectUpsert tenant app ty i obj _) reg =
     notify (ProjObjectUpsert tenant app ty i obj) \<lparr>pctx_tenant_id = tenant, pctx_app_id = app\<rparr> reg"
| "drive_projection_write (write_event.StreamAppend tenant ev) reg =
     notify (ProjStreamEvent tenant (sv_app_id ev) (sei_stream (sv_event ev)) (sei_stream_id (sv_event ev))
       (stored_event_to_value ev)) \<lparr>pctx_tenant_id = tenant, pctx_app_id = sv_app_id ev\<rparr> reg"
| "drive_projection_write (ObjectDelete _ _ _ _) reg = ([], reg)"

text \<open>The wire form of a change: a removal is \<open>Nil\<close>.\<close>

definition changes_to_frame :: "proj_change list \<Rightarrow> (string \<times> value) list" where
  "changes_to_frame changes = map (\<lambda>c. (pc_key c, or_default VNil (pc_value c))) changes"

section \<open>A client that follows a projection\<close>

definition row_list :: "(string, tenant_rows) index_map \<Rightarrow> string \<Rightarrow> string \<Rightarrow> (string, value) index_map" where
  "row_list rows name tenant = or_default [] (Option.bind (map_of rows name) (\<lambda>m. map_of m tenant))"

definition rows_of :: "string \<Rightarrow> string \<Rightarrow> 's projection_registry \<Rightarrow> string \<rightharpoonup> value" where
  "rows_of name tenant reg = map_of (row_list (pr_rows reg) name tenant)"

text \<open>What a subscriber keeps: the changes of each frame applied in order, \<open>Nil\<close> as a removal.\<close>

definition follow_change :: "string \<times> value \<Rightarrow> (string \<rightharpoonup> value) \<Rightarrow> (string \<rightharpoonup> value)" where
  "follow_change c view = (if snd c = VNil then view(fst c := None) else view(fst c \<mapsto> snd c))"

definition follow_frames :: "(string \<times> value) list list \<Rightarrow> (string \<rightharpoonup> value) \<Rightarrow> (string \<rightharpoonup> value)" where
  "follow_frames frames view = fold (fold follow_change) frames view"

fun drive_writes ::
  "write_event list \<Rightarrow> 's projection_registry \<Rightarrow> projection_delta_notice list \<times> 's projection_registry" where
  "drive_writes [] reg = ([], reg)"
| "drive_writes (w # ws) reg =
    (let (out1, reg1) = drive_projection_write w reg; (out2, reg2) = drive_writes ws reg1 in (out1 @ out2, reg2))"

definition frames_for :: "string \<Rightarrow> string \<Rightarrow> projection_delta_notice list \<Rightarrow> (string \<times> value) list list" where
  "frames_for name tenant notices = map (\<lambda>n. changes_to_frame (pdn_changes n))
     (filter (\<lambda>n. pdn_projection n = name \<and> pdn_tenant_id n = tenant) notices)"

definition no_nil :: "proj_change list \<Rightarrow> bool" where
  "no_nil changes \<longleftrightarrow> list_all (\<lambda>c. pc_value c \<noteq> Some VNil) changes"

definition rows_ok :: "'s projection_registry \<Rightarrow> bool" where
  "rows_ok reg \<longleftrightarrow> (\<forall>name tenant. VNil \<notin> ran (rows_of name tenant reg)
     \<and> distinct (map fst (row_list (pr_rows reg) name tenant)))"

lemma fold_row_change_distinct:
  "distinct (map fst rows) \<Longrightarrow> distinct (map fst (fold apply_row_change changes rows))"
  by (induction changes arbitrary: rows) (auto split: option.splits)

lemma fold_row_change_map:
  "no_nil changes \<Longrightarrow> map_of (fold apply_row_change changes rows) = fold follow_change (changes_to_frame changes) (map_of rows)"
  by (induction changes arbitrary: rows)
    (auto simp: no_nil_def changes_to_frame_def follow_change_def or_default_def split: option.splits)

lemma follow_no_nil: "VNil \<notin> ran m \<Longrightarrow> VNil \<notin> ran (fold follow_change cs m)"
  by (induction cs arbitrary: m) (auto simp: follow_change_def ran_def split: if_splits)

lemma row_list_apply:
  "row_list (apply_changes_to_snapshot rows name tenant changes) name' tenant' =
    (if name' = name \<and> tenant' = tenant then fold apply_row_change changes (row_list rows name tenant)
     else row_list rows name' tenant')"
proof -
  let ?bt = "or_default [] (map_of rows name)"
  let ?tr = "fold apply_row_change changes (row_list rows name tenant)"
  have bt: "map_of ?bt t = Option.bind (map_of rows name) (\<lambda>m. map_of m t)" for t
    by (cases "map_of rows name") simp_all
  have eq: "apply_changes_to_snapshot rows name tenant changes =
      (if ?tr = [] then
        (let bt = im_remove tenant (im_insert tenant [] ?bt)
         in if bt = [] then im_remove name (im_insert name bt rows) else im_insert name bt rows)
       else im_insert name (im_insert tenant ?tr ?bt) rows)"
    by (simp add: apply_changes_to_snapshot_def row_list_def bt Let_def)
  show ?thesis
  proof (cases "?tr = [] \<and> im_remove tenant (im_insert tenant [] ?bt) = []")
    case True
    have "map_of ?bt t = None" if "t \<noteq> tenant" for t
    proof -
      have "map_of (im_remove tenant (im_insert tenant [] ?bt)) t = None" by (simp only: True) simp
      then show ?thesis using that by simp
    qed
    then show ?thesis
      using True by (simp add: eq) (simp add: row_list_def flip: bt)
  next
    case False
    then show ?thesis
      by (auto simp: eq Let_def) (auto simp: row_list_def simp flip: bt)
  qed
qed

text \<open>A step from one registry to another is followed by its notices: they carry the rows over, and
  keep them well-formed.\<close>

definition followed :: "'s projection_registry \<Rightarrow> projection_delta_notice list \<Rightarrow> 's projection_registry \<Rightarrow> bool" where
  "followed reg notices reg' \<longleftrightarrow> list_all (\<lambda>n. no_nil (pdn_changes n)) notices \<longrightarrow> rows_ok reg \<longrightarrow>
     rows_ok reg' \<and> (\<forall>name tenant. rows_of name tenant reg' =
       follow_frames (frames_for name tenant notices) (rows_of name tenant reg))"

lemma followed_refl: "pr_rows reg' = pr_rows reg \<Longrightarrow> followed reg [] reg'"
  by (simp add: followed_def rows_ok_def rows_of_def follow_frames_def frames_for_def)

lemma followed_trans: "followed reg out1 reg1 \<Longrightarrow> followed reg1 out2 reg2 \<Longrightarrow> followed reg (out1 @ out2) reg2"
  by (auto simp: followed_def follow_frames_def frames_for_def)

lemma followed_changes:
  assumes "pr_rows reg' = apply_changes_to_snapshot (pr_rows reg) name tenant changes"
  shows "followed reg [\<lparr>pdn_projection = name, pdn_tenant_id = tenant, pdn_app_id = app, pdn_changes = changes\<rparr>] reg'"
proof (unfold followed_def, intro impI)
  assume nn: "list_all (\<lambda>n. no_nil (pdn_changes n))
      [\<lparr>pdn_projection = name, pdn_tenant_id = tenant, pdn_app_id = app, pdn_changes = changes\<rparr>]"
    and ok: "rows_ok reg"
  have rl: "row_list (pr_rows reg') n t = (if n = name \<and> t = tenant
      then fold apply_row_change changes (row_list (pr_rows reg) name tenant) else row_list (pr_rows reg) n t)" for n t
    by (simp add: assms row_list_apply)
  have ro: "rows_of n t reg' = (if n = name \<and> t = tenant
      then fold follow_change (changes_to_frame changes) (rows_of name tenant reg) else rows_of n t reg)" for n t
    using nn by (simp add: rows_of_def rl fold_row_change_map)
  have "rows_ok reg'"
    using ok by (auto simp: rows_ok_def ro rl fold_row_change_distinct dest: follow_no_nil)
  then show "rows_ok reg' \<and> (\<forall>n t. rows_of n t reg' = follow_frames (frames_for n t
      [\<lparr>pdn_projection = name, pdn_tenant_id = tenant, pdn_app_id = app, pdn_changes = changes\<rparr>]) (rows_of n t reg))"
    by (auto simp: ro follow_frames_def frames_for_def)
qed

lemma followed_notify_one: "notify_one event ctx name reg = (out, reg') \<Longrightarrow> followed reg out reg'"
  by (auto simp: notify_one_def split: option.splits prod.splits if_splits
      intro!: followed_refl followed_changes)

lemma followed_notify_each: "notify_each event ctx names reg = (out, reg') \<Longrightarrow> followed reg out reg'"
proof (induction names arbitrary: reg out reg')
  case (Cons name names)
  obtain out1 reg1 where 1: "notify_one event ctx name reg = (out1, reg1)" by fastforce
  obtain out2 where "notify_each event ctx names reg1 = (out2, reg')" "out = out1 @ out2"
    using Cons.prems 1 by (auto simp: Let_def split: prod.splits)
  then show ?case
    using followed_trans [OF followed_notify_one [OF 1] Cons.IH] by blast
qed (auto intro: followed_refl)

lemma followed_drive: "drive_projection_write w reg = (out, reg') \<Longrightarrow> followed reg out reg'"
  by (cases w) (auto simp: notify_def intro: followed_notify_each followed_refl)

lemma followed_writes: "drive_writes ws reg = (out, reg') \<Longrightarrow> followed reg out reg'"
proof (induction ws arbitrary: reg out reg')
  case (Cons w ws)
  obtain out1 reg1 where 1: "drive_projection_write w reg = (out1, reg1)" by fastforce
  obtain out2 where "drive_writes ws reg1 = (out2, reg')" "out = out1 @ out2"
    using Cons.prems 1 by (auto simp: Let_def split: prod.splits)
  then show ?case
    using followed_trans [OF followed_drive [OF 1] Cons.IH] by blast
qed (auto intro: followed_refl)

lemma follow_entries:
  assumes "distinct (map fst rows)" and "VNil \<notin> ran (map_of rows)"
  shows "fold follow_change rows view = view ++ map_of rows"
  using assms
proof (induction rows arbitrary: view)
  case (Cons e rows)
  obtain k v where e: "e = (k, v)" by fastforce
  have k: "map_of rows k = None" using Cons.prems(1) e by (simp add: map_of_eq_None_iff)
  have "map_of (e # rows) = (map_of rows)(k \<mapsto> v)" by (simp add: e fun_eq_iff)
  then have "v \<noteq> VNil" "VNil \<notin> ran (map_of rows)"
    using Cons.prems(2) ran_map_upd [of "map_of rows" k v] k by (simp_all only: insert_iff) auto
  then show ?case
    using Cons.IH [of "view(k \<mapsto> v)"] Cons.prems(1) k
    by (simp add: e follow_change_def map_add_upd_left fun_upd_def map_add_def fun_eq_iff split: option.split)
qed simp

lemma follow_snapshot:
  assumes "rows_ok reg"
  shows "fold follow_change (changes_to_frame (projection_snapshot name tenant reg)) Map.empty = rows_of name tenant reg"
proof -
  have "changes_to_frame (projection_snapshot name tenant reg) = row_list (pr_rows reg) name tenant"
    by (simp add: projection_snapshot_def changes_to_frame_def row_list_def comp_def split_beta split: option.split)
  then show ?thesis
    using assms follow_entries [of "row_list (pr_rows reg) name tenant" Map.empty]
    by (simp add: rows_ok_def rows_of_def)
qed

text \<open>C38: A subscriber that starts from the snapshot of a projection and applies the deltas of all
  later writes in order holds exactly the materialized rows of its tenant, at every moment it may
  subscribe and whatever other projections and tenants are written meanwhile, as long as no handler
  stores \<open>Nil\<close> as a row (on the wire \<open>Nil\<close> is the removal marker).\<close>

theorem projection_replay:
  assumes "pr_rows reg0 = []" and "drive_writes before reg0 = (out0, reg)"
    and "drive_writes later reg = (out, reg')"
    and "list_all (\<lambda>n. no_nil (pdn_changes n)) (out0 @ out)"
  shows "follow_frames (changes_to_frame (projection_snapshot name tenant reg) # frames_for name tenant out) Map.empty
    = rows_of name tenant reg'"
proof -
  have "rows_ok reg0"
    using assms(1) by (simp add: rows_ok_def rows_of_def row_list_def)
  then have "rows_ok reg"
    using followed_writes [OF assms(2)] assms(4) by (simp add: followed_def)
  then show ?thesis
    using followed_writes [OF assms(3)] assms(4) follow_snapshot [of reg name tenant]
    by (simp add: followed_def follow_frames_def)
qed

definition counter_handler :: "nat projection_handler" where
  "counter_handler = \<lparr>ph_apply = (\<lambda>event ctx n. (case event of
       ProjObjectUpsert _ _ _ i obj \<Rightarrow> (Some [\<lparr>pc_key = i, pc_value = Some (VInteger (int (Suc n)))\<rparr>], Suc n)
     | _ \<Rightarrow> (Some [\<lparr>pc_key = ''a'', pc_value = None\<rparr>], n))),
     ph_rebuild = None, ph_read = (\<lambda>_ _ n. Some (VInteger (int n)))\<rparr>"

definition counter_projection :: "nat projection" where
  "counter_projection = \<lparr>pj_name = ''count'', pj_sources = [\<lparr>psrc_kind = SourceObject, psrc_type_name = ''Note''\<rparr>],
     pj_handler = counter_handler\<rparr>"

definition counter_registry :: "nat projection_registry" where
  "counter_registry = \<lparr>pr_order = [''count''], pr_by_name = [(''count'', counter_projection)], pr_rows = [], pr_handlers = 0\<rparr>"

definition note_write :: "string \<Rightarrow> write_event" where
  "note_write i = ObjectUpsert ''acme'' ''_default'' ''Note'' i (VMap []) None"

lemmas counter_defs = counter_registry_def counter_projection_def counter_handler_def note_write_def notify_def
  matching_names_def notify_one_def apply_changes_to_snapshot_def Let_def no_nil_def

theorem projection_replay_witness:
  "let r1 = drive_writes [note_write ''a''] counter_registry;
       r2 = drive_writes [note_write ''b'', note_write ''a''] (snd r1)
   in register_projection counter_projection (new_registry 0) = Ok counter_registry
      \<and> length (fst r2) = 2
      \<and> follow_frames (changes_to_frame (projection_snapshot ''count'' ''acme'' (snd r1))
           # frames_for ''count'' ''acme'' (fst r2)) Map.empty = rows_of ''count'' ''acme'' (snd r2)"
proof -
  define r1 where "r1 = drive_writes [note_write ''a''] counter_registry"
  define r2 where "r2 = drive_writes [note_write ''b'', note_write ''a''] (snd r1)"
  have "list_all (\<lambda>n. no_nil (pdn_changes n)) (fst r1 @ fst r2)" "length (fst r2) = 2"
    by (simp_all add: r2_def r1_def counter_defs)
  then show ?thesis
    using projection_replay [of counter_registry "[note_write ''a'']" "fst r1" "snd r1"
        "[note_write ''b'', note_write ''a'']" "fst r2" "snd r2" "''count''" "''acme''"]
    by (simp add: r1_def r2_def Let_def register_projection_def new_registry_def counter_registry_def
        counter_projection_def)
qed

end
