(* ===== verification/FrickApps.thy ===== *)
theory FrickApps
  imports FrickSchema FrickFacade
begin

text \<open>
  The application registry (\<open>frick-server/src/apps.rs\<close>): registration with its checks, resolution of
  a URL path and of an advertised schema to an application, and the storage partition of an
  application.  The projection registry of an application is kept by the gateway; the search
  registry is not modelled.
\<close>

record app_entry =
  ae_id :: string
  ae_base_path :: string
  ae_schema :: frick_schema

record app_resolution =
  ares_app_id :: string
  ares_relative_path :: string

record app_descriptor =
  ad_id :: string
  ad_base_path :: string
  ad_schema_id :: string
  ad_schema_revision :: int

record app_registry =
  apr_apps :: "app_entry list"
  apr_resolve_order :: "app_entry list"

text \<open>The error messages quote the path with \<open>{:?}\<close>; the rendering is an argument.\<close>

definition base_path_ok :: "string \<Rightarrow> bool" where
  "base_path_ok path \<longleftrightarrow> path = [] \<or> (starts_with path ''/'' \<and> last path \<noteq> CHR ''/'')"

fun check_apps :: "(string \<Rightarrow> string) \<Rightarrow> string list \<Rightarrow> string list \<Rightarrow> app_entry list \<Rightarrow> (string, unit) result" where
  "check_apps debug_str seen_ids seen_base_paths [] = Ok ()"
| "check_apps debug_str seen_ids seen_base_paths (app # apps) =
    (if \<not> base_path_ok (ae_base_path app)
     then Err (''App \"'' @ ae_id app @ ''\" basePath must start with \"/\" and have no trailing slash (got ''
       @ debug_str (ae_base_path app) @ '')'')
     else if ae_base_path app \<in> set seen_base_paths
     then Err (''Duplicate Frick app basePath '' @ debug_str (ae_base_path app) @ '' (app id \"'' @ ae_id app @ ''\")'')
     else if ae_id app \<in> set seen_ids then Err (''Duplicate Frick app id \"'' @ ae_id app @ ''\"'')
     else check_apps debug_str (seen_ids @ [ae_id app]) (seen_base_paths @ [ae_base_path app]) apps)"

definition app_registry_new :: "(string \<Rightarrow> string) \<Rightarrow> app_entry list \<Rightarrow> (string, app_registry) result" where
  "app_registry_new debug_str apps = rbind (check_apps debug_str [] [] apps) (\<lambda>_. Ok
     \<lparr>apr_apps = apps, apr_resolve_order = sort_key (\<lambda>app. - int (length (ae_base_path app))) apps\<rparr>)"

definition is_multi_app :: "app_registry \<Rightarrow> bool" where
  "is_multi_app reg \<longleftrightarrow> length (apr_apps reg) > 1"

definition get_app :: "string \<Rightarrow> app_registry \<Rightarrow> app_entry option" where
  "get_app app_id reg = find (\<lambda>app. ae_id app = app_id) (apr_apps reg)"

definition find_by_schema_id :: "string \<Rightarrow> app_registry \<Rightarrow> app_entry option" where
  "find_by_schema_id schema_id reg = find (\<lambda>app. sc_schema_id (ae_schema app) = schema_id) (apr_apps reg)"

definition try_app :: "string \<Rightarrow> app_entry \<Rightarrow> app_resolution option" where
  "try_app url_path app =
    (if ae_base_path app = [] then Some \<lparr>ares_app_id = ae_id app, ares_relative_path = url_path\<rparr>
     else if url_path = ae_base_path app then Some \<lparr>ares_app_id = ae_id app, ares_relative_path = ''/''\<rparr>
     else if starts_with url_path (ae_base_path app) \<and> starts_with url_path (ae_base_path app @ ''/'')
     then Some \<lparr>ares_app_id = ae_id app, ares_relative_path = drop (length (ae_base_path app)) url_path\<rparr>
     else None)"

fun first_app :: "string \<Rightarrow> app_entry list \<Rightarrow> app_resolution option" where
  "first_app url_path [] = None"
| "first_app url_path (app # apps) = (case try_app url_path app of Some r \<Rightarrow> Some r | None \<Rightarrow> first_app url_path apps)"

definition resolve_by_path :: "string \<Rightarrow> app_registry \<Rightarrow> app_resolution option" where
  "resolve_by_path url_path reg = first_app url_path (apr_resolve_order reg)"

definition storage_app_id :: "string \<Rightarrow> app_registry \<Rightarrow> string" where
  "storage_app_id resolved reg = (if is_multi_app reg then resolved else FACADE_DEFAULT_APP_ID)"

definition scoped_index_name :: "string \<Rightarrow> string \<Rightarrow> app_registry \<Rightarrow> string" where
  "scoped_index_name app_id index_name reg =
    (if is_multi_app reg then app_id @ CHR 0x1F # index_name else index_name)"

definition app_descriptors :: "app_registry \<Rightarrow> app_descriptor list" where
  "app_descriptors reg = map (\<lambda>app. \<lparr>ad_id = ae_id app, ad_base_path = ae_base_path app,
     ad_schema_id = sc_schema_id (ae_schema app), ad_schema_revision = sc_schema_revision (ae_schema app)\<rparr>) (apr_apps reg)"

section \<open>Routing\<close>

definition mounted_at :: "string \<Rightarrow> app_entry \<Rightarrow> bool" where
  "mounted_at url app \<longleftrightarrow> ae_base_path app = [] \<or> url = ae_base_path app \<or> starts_with url (ae_base_path app @ ''/'')"

definition relative_to :: "string \<Rightarrow> app_entry \<Rightarrow> string" where
  "relative_to url app = (if ae_base_path app \<noteq> [] \<and> url = ae_base_path app then ''/''
     else drop (length (ae_base_path app)) url)"

lemma check_apps_Ok:
  "check_apps debug_str ids paths apps = Ok () \<Longrightarrow> distinct (map ae_id apps) \<and> distinct (map ae_base_path apps)
     \<and> set (map ae_id apps) \<inter> set ids = {} \<and> set (map ae_base_path apps) \<inter> set paths = {}"
proof (induction apps arbitrary: ids paths)
  case (Cons app apps)
  then have "check_apps debug_str (ids @ [ae_id app]) (paths @ [ae_base_path app]) apps = Ok ()"
    "ae_base_path app \<notin> set paths" "ae_id app \<notin> set ids"
    by (auto split: if_splits)
  then show ?case using Cons.IH by fastforce
qed simp

lemma starts_with_prefix: "starts_with url p \<longleftrightarrow> (\<exists>r. url = p @ r)"
  by (metis append_eq_conv_conj starts_with_def append_take_drop_id)

lemma mounted_take: "mounted_at url app \<Longrightarrow> take (length (ae_base_path app)) url = ae_base_path app"
  by (auto simp: mounted_at_def starts_with_prefix)

lemma mounted_same_length:
  "mounted_at url a \<Longrightarrow> mounted_at url b \<Longrightarrow> length (ae_base_path a) = length (ae_base_path b) \<Longrightarrow>
     ae_base_path a = ae_base_path b"
  by (metis mounted_take)

lemma try_app_eq:
  "try_app url app = (if mounted_at url app
     then Some \<lparr>ares_app_id = ae_id app, ares_relative_path = relative_to url app\<rparr> else None)"
  by (auto simp: try_app_def mounted_at_def relative_to_def starts_with_prefix)

lemma first_app_find:
  "first_app url apps = map_option (\<lambda>app. \<lparr>ares_app_id = ae_id app, ares_relative_path = relative_to url app\<rparr>)
     (find (mounted_at url) apps)"
  by (induction apps) (simp_all add: try_app_eq)

lemma find_sorted_max:
  assumes "sorted (map f apps)" "find P apps = Some a" "b \<in> set apps" "P b"
  shows "f a \<le> f b"
  using assms by (induction apps) (auto split: if_splits)

text \<open>C39: Routing by path picks the most specific application: in a registry that was accepted, a path
  resolves to an application exactly when one is mounted at the root, at the path itself or at a
  prefix of it that ends where a segment ends; it is then the one with the longest base path, and
  the relative path is what follows that base path.\<close>

theorem app_routing:
  assumes "app_registry_new debug_str apps = Ok reg"
  shows "resolve_by_path url reg = Some r \<longleftrightarrow> (\<exists>app \<in> set apps. mounted_at url app
      \<and> r = \<lparr>ares_app_id = ae_id app, ares_relative_path = relative_to url app\<rparr>
      \<and> (\<forall>other \<in> set apps. mounted_at url other \<longrightarrow> length (ae_base_path other) \<le> length (ae_base_path app)))"
proof -
  let ?f = "\<lambda>app. - int (length (ae_base_path app))"
  have ok: "check_apps debug_str [] [] apps = Ok ()" and
    order: "apr_resolve_order reg = sort_key ?f apps"
    using assms by (auto simp: app_registry_new_def)
  have inj: "a = b" if "a \<in> set apps" "b \<in> set apps" "ae_base_path a = ae_base_path b" for a b
    using check_apps_Ok [OF ok] that by (auto simp: distinct_map dest: inj_onD)
  have best: "find (mounted_at url) (sort_key ?f apps) = Some app \<longleftrightarrow> app \<in> set apps \<and> mounted_at url app
      \<and> (\<forall>other \<in> set apps. mounted_at url other \<longrightarrow> length (ae_base_path other) \<le> length (ae_base_path app))" for app
  proof
    assume f: "find (mounted_at url) (sort_key ?f apps) = Some app"
    then have "app \<in> set apps" "mounted_at url app" using find_Some_set [OF f] by auto
    moreover have "length (ae_base_path other) \<le> length (ae_base_path app)" if "other \<in> set apps" "mounted_at url other" for other
      using find_sorted_max [of ?f "sort_key ?f apps" "mounted_at url" app other] f that by simp
    ultimately show "app \<in> set apps \<and> mounted_at url app
      \<and> (\<forall>other \<in> set apps. mounted_at url other \<longrightarrow> length (ae_base_path other) \<le> length (ae_base_path app))" by blast
  next
    assume a: "app \<in> set apps \<and> mounted_at url app
      \<and> (\<forall>other \<in> set apps. mounted_at url other \<longrightarrow> length (ae_base_path other) \<le> length (ae_base_path app))"
    then obtain b where b: "find (mounted_at url) (sort_key ?f apps) = Some b"
      by (cases "find (mounted_at url) (sort_key ?f apps)") (auto simp: find_None_iff)
    then have "b \<in> set apps" "mounted_at url b" using find_Some_set [OF b] by auto
    moreover have "length (ae_base_path app) \<le> length (ae_base_path b)"
      using find_sorted_max [of ?f "sort_key ?f apps" "mounted_at url" b app] b a by simp
    moreover have "length (ae_base_path b) \<le> length (ae_base_path app)" using a calculation by blast
    ultimately have "b = app" using a mounted_same_length [of url b app] inj [of b app] by simp
    then show "find (mounted_at url) (sort_key ?f apps) = Some app" using b by simp
  qed
  show ?thesis
    unfolding resolve_by_path_def order first_app_find using best by auto
qed

definition sample_app :: "string \<Rightarrow> string \<Rightarrow> app_entry" where
  "sample_app i path = \<lparr>ae_id = i, ae_base_path = path, ae_schema = sample_schema\<rparr>"

definition sample_apps :: "app_entry list" where
  "sample_apps = [sample_app ''root'' '''', sample_app ''chat'' ''/chat'', sample_app ''admin'' ''/chat/admin'']"

lemmas sample_routing = sample_apps_def sample_app_def mounted_at_def relative_to_def starts_with_def

theorem app_routing_witness:
  "\<exists>reg. app_registry_new id sample_apps = Ok reg
    \<and> resolve_by_path ''/chat/admin/x'' reg = Some \<lparr>ares_app_id = ''admin'', ares_relative_path = ''/x''\<rparr>
    \<and> resolve_by_path ''/chatter'' reg = Some \<lparr>ares_app_id = ''root'', ares_relative_path = ''/chatter''\<rparr>"
proof -
  obtain reg where reg: "app_registry_new id sample_apps = Ok reg"
    by (simp add: app_registry_new_def sample_apps_def sample_app_def base_path_ok_def starts_with_def)
  have "resolve_by_path ''/chat/admin/x'' reg = Some \<lparr>ares_app_id = ''admin'', ares_relative_path = ''/x''\<rparr>"
    unfolding app_routing [OF reg] by (simp add: sample_routing)
  moreover have "resolve_by_path ''/chatter'' reg = Some \<lparr>ares_app_id = ''root'', ares_relative_path = ''/chatter''\<rparr>"
    unfolding app_routing [OF reg] by (simp add: sample_routing)
  ultimately show ?thesis using reg by blast
qed

end
