(* ===== verification/Spec2Isabelle.thy ===== *)
theory Spec2Isabelle
  imports FrickIso FrickCodec FrickCompat FrickLint FrickNet FrickAuthz FrickStream FrickJobs FrickReglock FrickCallSafety FrickCluster FrickProjections FrickApps
begin

text \<open>
  \<^bold>\<open>Frick\<close>: a verification library for the Rust crates of the Frick sync framework (\<open>src/crates\<close>).

  \<^bold>\<open>The program.\<close>  Frick is a schema-driven realtime backend.  The protocol crate holds the schema
  model, the positional codec and the error envelopes; the schema crate lints schema changes; the
  store crate keeps objects, event streams, jobs, grants, sessions and tokens in SQL tables,
  optionally sealed at rest; the server crate resolves callers, decides access and runs the routes.

  \<^bold>\<open>How it is modelled.\<close>  A component is a theory.  A struct is a \<open>record\<close> (its fields carry a prefix of
  the struct), an enum a \<open>datatype\<close>, a fallible function returns \<open>('e, 'a) result\<close>, and a method of a
  store takes the table and returns it updated.  A table is the list of its rows
  (\<open>FrickTable\<close>): \<open>SELECT\<close> is \<open>find\<close> or \<open>filter\<close>, \<open>ON CONFLICT DO UPDATE\<close> is \<open>tbl_upsert\<close>, \<open>ORDER BY\<close> is
  a stable sort, a violated key is an error value.  Strings are byte lists, clocks are arguments as
  in the source, and code that is not in the repository (ciphers and digests, the MessagePack
  encoder, the key helper process, Unicode case folding, SQL driver messages) is a parameter whose
  documented behaviour is a named hypothesis where a statement needs it.

  \<^item> \<open>FrickPrelude\<close>: results, loops with early return, decimal printing, list lookup.
  \<^item> \<open>FrickTable\<close>: tables and their keys; the interface \<open>row_store\<close> and its instance \<open>table\<close>, interpreted
    for every keyed table of the stores.
  \<^item> \<open>FrickTime\<close>, \<open>FrickIso\<close>: the civil-date and ISO-8601 functions the crates carry in copies
    (\<open>stores/job.rs\<close>, \<open>blob_bytes.rs\<close>, \<open>stream.rs\<close>, \<open>account.rs\<close>, \<open>migrations.rs\<close>, \<open>boot.rs\<close>, \<open>inspect.rs\<close>):
    the copies agree, printing and parsing are inverse, text order is time order.
  \<^item> \<open>FrickValue\<close>, \<open>FrickSchema\<close>, \<open>FrickCodec\<close>, \<open>FrickCompat\<close>: \<open>frick-protocol\<close>: dynamic values and their
    stable form, schema validation, packed records and events, compatibility, capabilities, error
    envelopes.
  \<^item> \<open>FrickLint\<close>: \<open>frick-schema/src/lint.rs\<close>: no breaking finding exactly when the schema is extended.
  \<^item> \<open>FrickNet\<close>: \<open>client_ip.rs\<close>: CIDR blocks and forwarded addresses, on machine words.
  \<^item> \<open>FrickAuthz\<close>: \<open>authz.rs\<close>, \<open>principal.rs\<close>, \<open>object_visibility.rs\<close>, \<open>stores/grant.rs\<close>: decisions, policy
    hooks, grants and visibility.
  \<^item> \<open>FrickIdempotency\<close>: \<open>stores/idempotency.rs\<close>: the two-index cache refines a recency list; the
    interface is the locale \<open>recency_cache\<close>.
  \<^item> \<open>FrickEncryption\<close>: \<open>encryption.rs\<close>: key sources, envelopes, tenant separation.
  \<^item> \<open>FrickObjectStore\<close>: \<open>stores/object.rs\<close>, \<open>packed.rs\<close>: versioned objects with their merge policies.
  \<^item> \<open>FrickStreamStore\<close>, \<open>FrickStream\<close>: \<open>stores/stream.rs\<close>: append with idempotency, paging, retention,
    redaction.
  \<^item> \<open>FrickJobs\<close>: \<open>stores/job.rs\<close>: the job queue as a step relation with its reachable states.
  \<^item> \<open>FrickServerError\<close>: \<open>frick-server/src/error.rs\<close>.
  \<^item> \<open>FrickCredentials\<close>: \<open>stores/session.rs\<close>, \<open>refresh_token.rs\<close>, \<open>tenant.rs\<close>, server \<open>session.rs\<close> and
    \<open>extract.rs\<close>: bearer tokens, rotation with reuse detection, tenants.
  \<^item> \<open>FrickReglock\<close>: \<open>stores/reglock.rs\<close>, \<open>auth_reglock.rs\<close>: the registration lock and its guess bound.
  \<^item> \<open>FrickProg\<close>: programs over a state that return a result, and the interface \<open>simulation\<close> of refinement.
  \<^item> \<open>FrickEphemeral\<close>: \<open>stores/presence.rs\<close>, \<open>stores/signal.rs\<close>: leases refine a map with expiry, signals are
    delivered at most once.
  \<^item> \<open>FrickFacade\<close>: \<open>facade.rs\<close>: the writes with their listener, whose events replay to the stored state,
    and the prune of idempotency keys.
  \<^item> \<open>FrickCallSchema\<close>: \<open>calls/schema.rs\<close>, \<open>frick-protocol/src/calls.rs\<close>: the call types and records; records
    are typed by their declarations.
  \<^item> \<open>FrickMedia\<close>: \<open>calls/media_plane.rs\<close> with the in-memory and the peer-to-peer adapter; the interface is the
    locale \<open>media_plane_contract\<close>.
  \<^item> \<open>FrickCalls\<close>, \<open>FrickCallLogic\<close>, \<open>FrickCallScope\<close>, \<open>FrickCallSafety\<close>: \<open>calls/control_plane.rs\<close> over the facade
    and a media plane; the judgement \<open>runs\<close> and its rules; the locale \<open>call_footprint\<close> of what every operation
    keeps; capacity, life of a room, authorisation, scope, leaving, the signal gate.
  \<^item> \<open>FrickCluster\<close>: \<open>cluster/envelope.rs\<close>, \<open>cluster/memory.rs\<close>, \<open>cluster/redis.rs\<close>, \<open>calls/media_placement.rs\<close>: the
    envelopes between nodes and their wire form, exact delivery over the two buses, agreement on the home
    of a call's media.
  \<^item> \<open>FrickProjections\<close>: \<open>projections.rs\<close>: the projection registry over store writes; a client that follows
    the deltas has the rows of the server.
  \<^item> \<open>FrickApps\<close>: \<open>apps.rs\<close>: the applications of a server and the routing of paths to them.
  \<^bold>\<open>Bounds.\<close>  \<open>i64\<close> and \<open>u64\<close> counters and clocks are unbounded integers except where the source saturates
  or casts (\<open>i64_sat\<close>, the capacity cast, the backoff shift), and addresses and digests are words.  Statements on
  timestamps are for the years 0 to 9999 (\<open>iso_range\<close>), which is the range the printed form covers.
  Every loop of the source is structural recursion or has a termination proof; nothing uses fuel.

  \<^bold>\<open>Not modelled.\<close>  Network and process I/O, SQL failures other than violated keys, interleaving
  inside one store call, logging and metrics, the HTTP framework, generated code, the command-line
  tools, the push and SFU adapters, and the parts of the server the list above does not name.
\<close>

end
